(* ===== verification/Prelude.thy ===== *)
theory Prelude
  imports Main "HOL-Library.Word"
begin

text \<open>
  Shared basis of the library. The kernel's C code is modelled in a deterministic state
  monad whose outcomes tell apart every way in which a kernel routine can end: it returns a
  value (\<open>Done\<close>), it stops in one of the faults below (\<open>Fail\<close>), or it has given up the CPU
  in \<open>swtch\<close> and is not scheduled again (\<open>Blocked\<close>, with the state it left behind).
  \<open>wp\<close> is the weakest precondition of a routine; its equations and those of the components
  are collected in \<open>wp_simps\<close>, so that the simplifier executes routines symbolically.
\<close>

unbundle bit_operations_syntax

named_theorems wp_simps \<open>weakest-precondition equations used for symbolic execution\<close>

section \<open>Faults and outcomes\<close>

text \<open>
  \<^item> \<open>Panic m\<close>: the code called \<open>panic(m)\<close> and froze the machine;
  \<^item> \<open>Spin\<close>: the CPU spins in \<open>acquire\<close> on a lock another CPU holds;
  \<^item> \<open>Bad_Access\<close>: a null, dangling or out-of-range pointer is dereferenced;
  \<^item> \<open>Diverge\<close>: a loop has used up the fuel of the model.
\<close>

datatype fault =
    Panic string
  | Spin
  | Bad_Access
  | Diverge

datatype ('s, 'a) outcome =
    Done 'a 's
  | Fail fault
  | Blocked 's

type_synonym ('s, 'a) kmon = "'s \<Rightarrow> ('s, 'a) outcome"

section \<open>The monad\<close>

definition return :: "'a \<Rightarrow> ('s, 'a) kmon" where
  "return a = (\<lambda>s. Done a s)"

definition bind :: "('s, 'a) kmon \<Rightarrow> ('a \<Rightarrow> ('s, 'b) kmon) \<Rightarrow> ('s, 'b) kmon" where
  "bind m f = (\<lambda>s. case m s of Done a t \<Rightarrow> f a t | Fail e \<Rightarrow> Fail e | Blocked t \<Rightarrow> Blocked t)"

definition gets :: "('s \<Rightarrow> 'a) \<Rightarrow> ('s, 'a) kmon" where
  "gets f = (\<lambda>s. Done (f s) s)"

definition modify :: "('s \<Rightarrow> 's) \<Rightarrow> ('s, unit) kmon" where
  "modify f = (\<lambda>s. Done () (f s))"

definition fail :: "fault \<Rightarrow> ('s, 'a) kmon" where
  "fail e = (\<lambda>s. Fail e)"

definition panic :: "string \<Rightarrow> ('s, 'a) kmon" where
  "panic msg = fail (Panic msg)"

definition cwhen :: "bool \<Rightarrow> ('s, unit) kmon \<Rightarrow> ('s, unit) kmon" where
  "cwhen b m = (if b then m else return ())"

primrec seqs :: "('s, unit) kmon list \<Rightarrow> ('s, unit) kmon" where
  "seqs [] = return ()"
| "seqs (m # ms) = bind m (\<lambda>_. seqs ms)"

text \<open>\<open>deref p f\<close>: use the pointer \<open>p\<close>; the null pointer faults.\<close>

definition deref :: "'p option \<Rightarrow> ('p \<Rightarrow> ('s, 'a) kmon) \<Rightarrow> ('s, 'a) kmon" where
  "deref p f = (case p of None \<Rightarrow> fail Bad_Access | Some i \<Rightarrow> f i)"

section \<open>Weakest preconditions\<close>

text \<open>
  \<open>wp m Q B s\<close>: run from \<open>s\<close>, the routine \<open>m\<close> meets no fault; if it returns \<open>a\<close> in \<open>t\<close> then
  \<open>Q a t\<close>, and if it stays off the CPU in \<open>t\<close> then \<open>B t\<close>.
\<close>

definition wp :: "('s, 'a) kmon \<Rightarrow> ('a \<Rightarrow> 's \<Rightarrow> bool) \<Rightarrow> ('s \<Rightarrow> bool) \<Rightarrow> 's \<Rightarrow> bool" where
  "wp m Q B s = (case m s of Done a t \<Rightarrow> Q a t | Fail e \<Rightarrow> False | Blocked t \<Rightarrow> B t)"

abbreviation never :: "'s \<Rightarrow> bool" where
  "never \<equiv> \<lambda>_. False"

lemma wp_return [wp_simps]: "wp (return a) Q B s = Q a s"
  by (simp add: wp_def return_def)

lemma wp_bind [wp_simps]: "wp (bind m f) Q B s = wp m (\<lambda>a. wp (f a) Q B) B s"
  by (simp add: wp_def bind_def split: outcome.split)

lemma wp_gets [wp_simps]: "wp (gets f) Q B s = Q (f s) s"
  by (simp add: wp_def gets_def)

lemma wp_modify [wp_simps]: "wp (modify f) Q B s = Q () (f s)"
  by (simp add: wp_def modify_def)

lemma wp_fail [wp_simps]: "wp (fail e) Q B s = False"
  by (simp add: wp_def fail_def)

lemma wp_panic [wp_simps]: "wp (panic msg) Q B s = False"
  by (simp add: panic_def wp_fail)

lemma wp_if [wp_simps]: "wp (if b then m else n) Q B s = (if b then wp m Q B s else wp n Q B s)"
  by simp

lemma wp_cwhen [wp_simps]: "wp (cwhen b m) Q B s = (if b then wp m Q B s else Q () s)"
  by (simp add: cwhen_def wp_return)

lemma wp_seqs_Nil [wp_simps]: "wp (seqs []) Q B s = Q () s"
  by (simp add: wp_return)

lemma wp_seqs_Cons [wp_simps]: "wp (seqs (m # ms)) Q B s = wp m (\<lambda>_. wp (seqs ms) Q B) B s"
  by (simp add: wp_bind)

lemma wp_deref_Some [wp_simps]: "wp (deref (Some i) f) Q B s = wp (f i) Q B s"
  by (simp add: deref_def)

lemma wp_deref_None [wp_simps]: "wp (deref None f) Q B s = False"
  by (simp add: deref_def wp_fail)

lemma wp_never_iff: "wp m Q never s \<longleftrightarrow> (\<exists>a t. m s = Done a t \<and> Q a t)"
  by (simp add: wp_def split: outcome.split)

lemma wp_Done: "m s = Done a t \<Longrightarrow> wp m Q B s = Q a t"
  by (simp add: wp_def)

lemma wp_mono:
  assumes "wp m Q B s" "\<And>a t. Q a t \<Longrightarrow> Q' a t" "\<And>t. B t \<Longrightarrow> B' t"
  shows "wp m Q' B' s"
  using assms by (auto simp: wp_def split: outcome.splits)

section \<open>Executing routines by rewriting\<close>

named_theorems exec_simps \<open>equations that run a routine on a state\<close>

lemma return_exec [exec_simps]: "return a s = Done a s"
  by (simp add: return_def)

lemma gets_exec [exec_simps]: "gets f s = Done (f s) s"
  by (simp add: gets_def)

lemma modify_exec [exec_simps]: "modify f s = Done () (f s)"
  by (simp add: modify_def)

lemma fail_exec [exec_simps]: "fail e s = Fail e"
  by (simp add: fail_def)

lemma panic_exec [exec_simps]: "panic msg s = Fail (Panic msg)"
  by (simp add: panic_def fail_exec)

lemma bind_exec [exec_simps]:
  "bind m f s = (case m s of Done a t \<Rightarrow> f a t | Fail e \<Rightarrow> Fail e | Blocked t \<Rightarrow> Blocked t)"
  by (simp add: bind_def)

lemma cwhen_exec [exec_simps]: "cwhen b m s = (if b then m s else Done () s)"
  by (simp add: cwhen_def return_exec)

lemma deref_exec [exec_simps]:
  "deref (Some i) f s = f i s" "deref None f s = Fail Bad_Access"
  by (simp_all add: deref_def fail_exec)

lemma bind_assoc: "bind (bind m f) g = bind m (\<lambda>a. bind (f a) g)"
  by (rule ext) (simp add: bind_def split: outcome.split)

lemma bind_return [simp]: "bind (return a) f = f a" "bind m return = m"
  by (rule ext, simp add: bind_def return_def split: outcome.split)+

lemma seqs_pair: "seqs [a, b] = bind a (\<lambda>_. b)"
  by (rule ext) (simp add: bind_def return_def split: outcome.split)

lemma bind_DoneE:
  assumes "bind m f s = Done a t"
  obtains b u where "m s = Done b u" "f b u = Done a t"
  using assms by (auto simp: bind_def split: outcome.splits)

end
