(* ===== verification/Spinlock.thy ===== *)
theory Spinlock
  imports Prelude
begin

text \<open>
  Interrupt nesting and mutual-exclusion locks: \<open>kernel/lock/spinlock.c\<close>, with \<open>mycpu\<close>,
  \<open>cpuid\<close> and \<open>myproc\<close> of \<open>kernel/sched/proc.c\<close>. The record \<open>machine\<close> is the state these
  routines work on, seen from the CPU that executes them; later theories extend it.
\<close>

section \<open>State\<close>

text \<open>
  Kernel objects are named by their address in the source: a run queue, the sleep queue and
  the ready queue (\<open>kernel/sched/sched.c\<close>), and one constructor per spinlock variable.
\<close>

datatype qid = RunQ nat | SleepQ | ReadyQ

datatype lockid =
    PtableLock        \<comment> \<open>\<open>ptable.lock\<close>\<close>
  | CheckLock         \<comment> \<open>\<open>check_lock\<close> of queue.c\<close>
  | QLock qid         \<comment> \<open>\<open>qloc\<close> of a process queue\<close>
  | KmemLock          \<comment> \<open>\<open>kmem.lock\<close>\<close>
  | SemLock nat       \<comment> \<open>the lock a semaphore points to\<close>
  | BufLock nat       \<comment> \<open>\<open>lk\<close> of a buffer's sleep lock\<close>
  | InodeLock nat nat \<comment> \<open>\<open>lk\<close> of the sleep lock of an entry of an inode cache\<close>
  | MountLock         \<comment> \<open>\<open>lk\<close> of \<open>mountlock\<close>\<close>
  | BcacheLock        \<comment> \<open>\<open>bcache.lock\<close>\<close>
  | IdeLock nat       \<comment> \<open>\<open>idelock\<close>, \<open>idelock2\<close>, ...\<close>
  | LogLock           \<comment> \<open>\<open>log.lock\<close>\<close>
  | IcacheLock nat    \<comment> \<open>\<open>icache.lock\<close> and \<open>icache2.lock\<close>\<close>
  | FtableLock        \<comment> \<open>\<open>ftable.lock\<close>\<close>
  | PipeLock nat      \<comment> \<open>\<open>lock\<close> of a pipe\<close>
  | TicksLock         \<comment> \<open>\<open>tickslock\<close>\<close>
  | ConsLock          \<comment> \<open>\<open>cons.lock\<close>\<close>

record spinlock =
  locked :: bool
  lk_cpu :: "nat option"   \<comment> \<open>\<open>cpu\<close>, an index into \<open>cpus\<close>\<close>

record cpu =
  apicid :: nat
  ncli :: int              \<comment> \<open>depth of pushcli nesting\<close>
  intena :: bool           \<comment> \<open>were interrupts enabled before pushcli\<close>
  cproc :: "nat option"    \<comment> \<open>\<open>proc\<close>, an index into \<open>ptable.proc\<close>\<close>
  ts_esp0 :: "32 word"     \<comment> \<open>\<open>ts.esp0\<close>, the kernel stack of the running process\<close>
  cr3 :: "32 word"         \<comment> \<open>the page directory register\<close>

text \<open>
  \<open>lapic_id\<close> is what \<open>lapicid()\<close> returns and \<open>if_flag\<close> the interrupt flag of EFLAGS, both of
  the CPU that executes; \<open>cpus\<close> are the \<open>ncpu\<close> detected CPUs. \<open>switches\<close> counts the context
  switches after which the running process is scheduled again (see \<open>swtch\<close>).
\<close>

record machine =
  lapic_id :: nat
  if_flag :: bool
  cpus :: "cpu list"
  locks :: "lockid \<Rightarrow> spinlock"
  switches :: nat

section \<open>The executing CPU\<close>

primrec cpu_index :: "cpu list \<Rightarrow> nat \<Rightarrow> nat \<Rightarrow> nat option" where
  "cpu_index [] a i = None"
| "cpu_index (c # cs) a i = (if apicid c = a then Some i else cpu_index cs a (Suc i))"

definition mycpu :: "('a machine_scheme, nat) kmon" where
  "mycpu =
     bind (gets if_flag) (\<lambda>fl.
     if fl then panic ''mycpu called with trap enabled''
     else bind (gets (\<lambda>s. cpu_index (cpus s) (lapic_id s) 0)) (\<lambda>r.
     case r of None \<Rightarrow> panic ''unknown apicid'' | Some i \<Rightarrow> return i))"

definition cpuid :: "('a machine_scheme, nat) kmon" where
  "cpuid = mycpu"

definition upd_cpu :: "nat \<Rightarrow> (cpu \<Rightarrow> cpu) \<Rightarrow> ('a machine_scheme, unit) kmon" where
  "upd_cpu i f = modify (\<lambda>s. s\<lparr>cpus := (cpus s)[i := f (cpus s ! i)]\<rparr>)"

definition cli :: "('a machine_scheme, unit) kmon" where
  "cli = modify (\<lambda>s. s\<lparr>if_flag := False\<rparr>)"

definition sti :: "('a machine_scheme, unit) kmon" where
  "sti = modify (\<lambda>s. s\<lparr>if_flag := True\<rparr>)"

definition pushcli :: "('a machine_scheme, unit) kmon" where
  "pushcli =
     bind (gets if_flag) (\<lambda>eflags.
     bind cli (\<lambda>_.
     bind mycpu (\<lambda>c.
     bind (gets (\<lambda>s. ncli (cpus s ! c))) (\<lambda>n.
     bind (cwhen (n = 0) (upd_cpu c (\<lambda>k. k\<lparr>intena := eflags\<rparr>))) (\<lambda>_.
     upd_cpu c (\<lambda>k. k\<lparr>ncli := ncli k + 1\<rparr>))))))"

definition popcli :: "('a machine_scheme, unit) kmon" where
  "popcli =
     bind (gets if_flag) (\<lambda>fl.
     if fl then panic ''popcli - interruptible''
     else bind mycpu (\<lambda>c.
     bind (upd_cpu c (\<lambda>k. k\<lparr>ncli := ncli k - 1\<rparr>)) (\<lambda>_.
     bind (gets (\<lambda>s. cpus s ! c)) (\<lambda>k.
     if ncli k < 0 then panic ''popcli''
     else cwhen (ncli k = 0 \<and> intena k) sti))))"

definition myproc :: "('a machine_scheme, nat option) kmon" where
  "myproc =
     bind pushcli (\<lambda>_.
     bind mycpu (\<lambda>c.
     bind (gets (\<lambda>s. cproc (cpus s ! c))) (\<lambda>p.
     bind popcli (\<lambda>_.
     return p))))"

section \<open>Spinlocks\<close>

definition set_lock :: "lockid \<Rightarrow> spinlock \<Rightarrow> ('a machine_scheme, unit) kmon" where
  "set_lock l v = modify (\<lambda>s. s\<lparr>locks := (locks s)(l := v)\<rparr>)"

definition initlock :: "lockid \<Rightarrow> ('a machine_scheme, unit) kmon" where
  "initlock l = set_lock l \<lparr>locked = False, lk_cpu = None\<rparr>"

definition holding :: "lockid \<Rightarrow> ('a machine_scheme, bool) kmon" where
  "holding l =
     bind pushcli (\<lambda>_.
     bind mycpu (\<lambda>c.
     bind (gets (\<lambda>s. locked (locks s l) \<and> lk_cpu (locks s l) = Some c)) (\<lambda>r.
     bind popcli (\<lambda>_.
     return r))))"

text \<open>
  The loop around \<open>xchg\<close> is left with the lock taken when the lock is free; on a lock that
  another CPU holds the executing CPU spins. The interleaving of several CPUs in this loop
  is the subject of the theory \<open>Spinlock_SMP\<close>.
\<close>

definition acquire :: "lockid \<Rightarrow> ('a machine_scheme, unit) kmon" where
  "acquire l =
     bind pushcli (\<lambda>_.
     bind (holding l) (\<lambda>h.
     if h then panic ''acquire''
     else bind (gets (\<lambda>s. locked (locks s l))) (\<lambda>busy.
     if busy then fail Spin
     else bind mycpu (\<lambda>c.
     set_lock l \<lparr>locked = True, lk_cpu = Some c\<rparr>))))"

definition release :: "lockid \<Rightarrow> ('a machine_scheme, unit) kmon" where
  "release l =
     bind (holding l) (\<lambda>h.
     if \<not> h then panic ''release''
     else bind (set_lock l \<lparr>locked = False, lk_cpu = None\<rparr>) (\<lambda>_.
     popcli))"

section \<open>Effect on the machine\<close>

text \<open>
  \<open>this_cpu\<close> is the index of the executing CPU, \<open>cpu_ok\<close> the invariant of the interrupt
  nesting: the APIC id is known, the depth is not negative, and interrupts are off while it
  is positive. \<open>cli_enter\<close> and \<open>cli_leave\<close> are the net effect of \<open>pushcli\<close> and \<open>popcli\<close>.
\<close>

definition this_cpu :: "'a machine_scheme \<Rightarrow> nat" where
  "this_cpu s = the (cpu_index (cpus s) (lapic_id s) 0)"

definition cur :: "'a machine_scheme \<Rightarrow> cpu" where
  "cur s = cpus s ! this_cpu s"

definition set_cur :: "cpu \<Rightarrow> 'a machine_scheme \<Rightarrow> 'a machine_scheme" where
  "set_cur k s = s\<lparr>cpus := (cpus s)[this_cpu s := k]\<rparr>"

definition cpu_ok :: "'a machine_scheme \<Rightarrow> bool" where
  "cpu_ok s \<longleftrightarrow> cpu_index (cpus s) (lapic_id s) 0 \<noteq> None \<and>
     0 \<le> ncli (cur s) \<and> (0 < ncli (cur s) \<longrightarrow> \<not> if_flag s)"

definition cpu_enter :: "bool \<Rightarrow> cpu \<Rightarrow> cpu" where
  "cpu_enter fl k = k\<lparr>ncli := ncli k + 1, intena := (if ncli k = 0 then fl else intena k)\<rparr>"

definition cpu_leave :: "cpu \<Rightarrow> cpu" where
  "cpu_leave k = k\<lparr>ncli := ncli k - 1\<rparr>"

definition cpu_touch :: "bool \<Rightarrow> cpu \<Rightarrow> cpu" where
  "cpu_touch fl k = k\<lparr>intena := (if ncli k = 0 then fl else intena k)\<rparr>"

definition cli_enter :: "'a machine_scheme \<Rightarrow> 'a machine_scheme" where
  "cli_enter s = (set_cur (cpu_enter (if_flag s) (cur s)) s)\<lparr>if_flag := False\<rparr>"

definition cli_leave :: "'a machine_scheme \<Rightarrow> 'a machine_scheme" where
  "cli_leave s = (set_cur (cpu_leave (cur s)) s)\<lparr>if_flag := (ncli (cur s) = 1 \<and> intena (cur s))\<rparr>"

definition cli_touch :: "'a machine_scheme \<Rightarrow> 'a machine_scheme" where
  "cli_touch s = set_cur (cpu_touch (if_flag s) (cur s)) s"

lemma cpu_index_bounds:
  "cpu_index cs a i = Some j \<Longrightarrow> i \<le> j \<and> j < i + length cs \<and> apicid (cs ! (j - i)) = a"
proof (induction cs arbitrary: i)
  case Nil
  then show ?case by simp
next
  case (Cons c cs)
  show ?case
  proof (cases "apicid c = a")
    case True
    with Cons.prems show ?thesis by simp
  next
    case False
    with Cons.prems have "cpu_index cs a (Suc i) = Some j" by simp
    from Cons.IH [OF this] show ?thesis
      by (auto simp: nth_Cons' le_diff_conv Suc_diff_le)
  qed
qed

lemma cpu_index_apicids:
  "map apicid cs = map apicid ds \<Longrightarrow> cpu_index cs a i = cpu_index ds a i"
proof (induction cs arbitrary: ds i)
  case Nil
  then show ?case by simp
next
  case (Cons c cs)
  then obtain d ds' where "ds = d # ds'" "apicid d = apicid c" "map apicid cs = map apicid ds'"
    by (auto simp: Cons_eq_map_conv)
  with Cons.IH show ?case by simp
qed

lemma cpu_index_upd [simp]:
  assumes "apicid c = apicid (cs ! i)"
  shows "cpu_index (cs[i := c]) a j = cpu_index cs a j"
proof (rule cpu_index_apicids)
  show "map apicid (cs[i := c]) = map apicid cs"
    using assms by (metis list_update_id map_update)
qed

lemma this_cpu_less: "cpu_ok s \<Longrightarrow> this_cpu s < length (cpus s)"
  using cpu_index_bounds [of "cpus s" "lapic_id s" 0] by (auto simp: cpu_ok_def this_cpu_def)

lemma this_cpu_Some: "cpu_ok s \<Longrightarrow> cpu_index (cpus s) (lapic_id s) 0 = Some (this_cpu s)"
  by (auto simp: cpu_ok_def this_cpu_def)


lemma cpu_effects [simp]:
  "apicid (cpu_enter fl k) = apicid k" "ncli (cpu_enter fl k) = ncli k + 1"
  "cproc (cpu_enter fl k) = cproc k"
  "ts_esp0 (cpu_enter fl k) = ts_esp0 k" "cr3 (cpu_enter fl k) = cr3 k"
  "ts_esp0 (cpu_leave k) = ts_esp0 k" "cr3 (cpu_leave k) = cr3 k"
  "ts_esp0 (cpu_touch fl k) = ts_esp0 k" "cr3 (cpu_touch fl k) = cr3 k"
  "intena (cpu_enter fl k) = (if ncli k = 0 then fl else intena k)"
  "apicid (cpu_leave k) = apicid k" "ncli (cpu_leave k) = ncli k - 1"
  "cproc (cpu_leave k) = cproc k" "intena (cpu_leave k) = intena k"
  "apicid (cpu_touch fl k) = apicid k" "ncli (cpu_touch fl k) = ncli k"
  "cproc (cpu_touch fl k) = cproc k"
  "intena (cpu_touch fl k) = (if ncli k = 0 then fl else intena k)"
  by (simp_all add: cpu_enter_def cpu_leave_def cpu_touch_def)

lemma cpu_effect_laws [simp]:
  "cpu_leave (cpu_enter fl k) = cpu_touch fl k"
  "cpu_touch fl (cpu_touch fl k) = cpu_touch fl k"
  "cpu_enter fl (cpu_touch fl k) = cpu_enter fl k"
  "0 < ncli k \<Longrightarrow> cpu_touch fl k = k"
  by (cases k, simp add: cpu_enter_def cpu_leave_def cpu_touch_def)+

text \<open>Which CPU executes does not depend on the fields the lock routines write.\<close>

lemma this_cpu_upd [simp]:
  "this_cpu (s\<lparr>locks := L\<rparr>) = this_cpu s"
  "this_cpu (s\<lparr>if_flag := b\<rparr>) = this_cpu s"
  "this_cpu (s\<lparr>switches := n\<rparr>) = this_cpu s"
  by (simp_all add: this_cpu_def)

lemma cur_upd [simp]:
  "cur (s\<lparr>locks := L\<rparr>) = cur s"
  "cur (s\<lparr>if_flag := b\<rparr>) = cur s"
  "cur (s\<lparr>switches := n\<rparr>) = cur s"
  by (simp_all add: cur_def)

lemma cpu_ok_upd [simp]:
  "cpu_ok (s\<lparr>locks := L\<rparr>) = cpu_ok s"
  "cpu_ok (s\<lparr>switches := n\<rparr>) = cpu_ok s"
  by (simp_all add: cpu_ok_def)

lemma this_cpu_set_cur [simp]: "apicid k = apicid (cur s) \<Longrightarrow> this_cpu (set_cur k s) = this_cpu s"
  by (simp add: set_cur_def this_cpu_def cur_def)

lemma cur_set_cur [simp]:
  "apicid k = apicid (cur s) \<Longrightarrow> cpu_ok s \<Longrightarrow> cur (set_cur k s) = k"
  using this_cpu_set_cur [of k s] this_cpu_less [of s]
  by (simp add: cur_def set_cur_def)

lemma set_cur_twice [simp]:
  "apicid k = apicid (cur s) \<Longrightarrow> set_cur j (set_cur k s) = set_cur j s"
  using this_cpu_set_cur [of k s] by (simp add: set_cur_def)

lemma set_cur_same [simp]: "set_cur (cur s) s = s"
  by (simp add: set_cur_def cur_def)

lemma set_cur_fields [simp]:
  "locks (set_cur k s) = locks s" "if_flag (set_cur k s) = if_flag s"
  "lapic_id (set_cur k s) = lapic_id s" "switches (set_cur k s) = switches s"
  "set_cur k (s\<lparr>locks := L\<rparr>) = (set_cur k s)\<lparr>locks := L\<rparr>"
  "set_cur k (s\<lparr>if_flag := b\<rparr>) = (set_cur k s)\<lparr>if_flag := b\<rparr>"
  "set_cur k (s\<lparr>switches := n\<rparr>) = (set_cur k s)\<lparr>switches := n\<rparr>"
  by (simp_all add: set_cur_def)

lemma cpu_index_set_cur [simp]:
  "apicid k = apicid (cur s) \<Longrightarrow> cpu_index (cpus (set_cur k s)) a 0 = cpu_index (cpus s) a 0"
  by (simp add: set_cur_def cur_def)

lemmas cli_defs = cli_enter_def cli_leave_def cli_touch_def

lemma this_cpu_cli [simp]:
  "this_cpu (cli_enter s) = this_cpu s"
  "this_cpu (cli_leave s) = this_cpu s"
  "this_cpu (cli_touch s) = this_cpu s"
  by (simp_all add: cli_defs)

lemma cur_cli:
  "cpu_ok s \<Longrightarrow> cur (cli_enter s) = cpu_enter (if_flag s) (cur s)"
  "cpu_ok s \<Longrightarrow> cur (cli_leave s) = cpu_leave (cur s)"
  "cpu_ok s \<Longrightarrow> cur (cli_touch s) = cpu_touch (if_flag s) (cur s)"
  by (simp_all add: cli_defs)

lemma cli_fields [simp]:
  "if_flag (cli_enter s) = False"
  "if_flag (cli_touch s) = if_flag s"
  "locks (cli_enter s) = locks s"
  "locks (cli_leave s) = locks s"
  "locks (cli_touch s) = locks s"
  "switches (cli_enter s) = switches s"
  "switches (cli_leave s) = switches s"
  "switches (cli_touch s) = switches s"
  "cli_enter (s\<lparr>locks := L\<rparr>) = (cli_enter s)\<lparr>locks := L\<rparr>"
  "cli_leave (s\<lparr>locks := L\<rparr>) = (cli_leave s)\<lparr>locks := L\<rparr>"
  "cli_touch (s\<lparr>locks := L\<rparr>) = (cli_touch s)\<lparr>locks := L\<rparr>"
  by (simp_all add: cli_defs)

lemma locks_same [simp]: "locks s = L \<Longrightarrow> s\<lparr>locks := L\<rparr> = s"
  by (cases s) simp

lemma cpu_ok_ncli: "cpu_ok s \<Longrightarrow> 0 \<le> ncli (cur s)"
  by (simp add: cpu_ok_def)

lemma cpu_ok_cli [simp]:
  "cpu_ok s \<Longrightarrow> cpu_ok (cli_enter s)"
  "cpu_ok s \<Longrightarrow> 0 < ncli (cur s) \<Longrightarrow> cpu_ok (cli_leave s)"
  "cpu_ok s \<Longrightarrow> cpu_ok (cli_touch s)"
  by (simp_all add: cpu_ok_def [of "cli_enter s"] cpu_ok_def [of "cli_leave s"]
      cpu_ok_def [of "cli_touch s"] cur_cli)
    (auto simp: cpu_ok_def cli_defs)

lemma ncli_cli [simp]:
  "cpu_ok s \<Longrightarrow> ncli (cur (cli_enter s)) = ncli (cur s) + 1"
  "cpu_ok s \<Longrightarrow> ncli (cur (cli_leave s)) = ncli (cur s) - 1"
  "cpu_ok s \<Longrightarrow> ncli (cur (cli_touch s)) = ncli (cur s)"
  by (simp_all add: cur_cli)

lemma cproc_cli [simp]:
  "cpu_ok s \<Longrightarrow> cproc (cur (cli_enter s)) = cproc (cur s)"
  "cpu_ok s \<Longrightarrow> cproc (cur (cli_leave s)) = cproc (cur s)"
  "cpu_ok s \<Longrightarrow> cproc (cur (cli_touch s)) = cproc (cur s)"
  by (simp_all add: cur_cli)

text \<open>A matched pair leaves the nesting depth and the interrupt flag as they were.\<close>

lemma cli_leave_enter [simp]:
  assumes ok: "cpu_ok s"
  shows "cli_leave (cli_enter s) = cli_touch s"
proof -
  have "(ncli (cur s) + 1 = 1 \<and> (if ncli (cur s) = 0 then if_flag s else intena (cur s))) = if_flag s"
    using ok by (auto simp: cpu_ok_def)
  then show ?thesis
    using ok by (simp add: cli_leave_def cur_cli) (simp add: cli_enter_def cli_touch_def)
qed

lemma cli_touch_idem [simp]: "cpu_ok s \<Longrightarrow> cli_touch (cli_touch s) = cli_touch s"
  by (simp add: cli_touch_def)

lemma cli_touch_nested [simp]: "0 < ncli (cur s) \<Longrightarrow> cli_touch s = s"
  by (simp add: cli_touch_def)

lemma cli_enter_touch [simp]: "cpu_ok s \<Longrightarrow> cli_enter (cli_touch s) = cli_enter s"
  by (simp add: cli_enter_def cli_touch_def)

lemma cli_touch_enter [simp]: "cpu_ok s \<Longrightarrow> cli_touch (cli_enter s) = cli_enter s"
  using cpu_ok_ncli [of s] by (intro cli_touch_nested) simp

section \<open>Running the routines\<close>

lemma mycpu_exec [exec_simps]: "cpu_ok s \<Longrightarrow> \<not> if_flag s \<Longrightarrow> mycpu s = Done (this_cpu s) s"
  by (simp add: mycpu_def exec_simps this_cpu_Some)

lemma mycpu_cli_exec: "cpu_ok s \<Longrightarrow> mycpu (s\<lparr>if_flag := False\<rparr>) = Done (this_cpu s) (s\<lparr>if_flag := False\<rparr>)"
  by (simp add: mycpu_def exec_simps this_cpu_Some)

lemma upd_cpu_exec: "upd_cpu (this_cpu s) f s = Done () (set_cur (f (cur s)) s)"
  by (simp add: upd_cpu_def exec_simps set_cur_def cur_def)

lemma pushcli_exec [exec_simps]:
  assumes ok: "cpu_ok s"
  shows "pushcli s = Done () (cli_enter s)"
proof -
  let ?t = "s\<lparr>if_flag := False\<rparr>"
  let ?k = "if ncli (cur s) = 0 then (cur s)\<lparr>intena := if_flag s\<rparr> else cur s"
  have k: "?k\<lparr>ncli := ncli ?k + 1\<rparr> = cpu_enter (if_flag s) (cur s)"
    by (cases "cur s") (simp add: cpu_enter_def)
  have n: "ncli (cpus ?t ! this_cpu s) = ncli (cur s)"
    by (simp add: cur_def)
  have c: "cwhen (ncli (cur s) = 0) (upd_cpu (this_cpu s) (\<lambda>k. k\<lparr>intena := if_flag s\<rparr>)) ?t
      = Done () (set_cur ?k ?t)"
    using upd_cpu_exec [of ?t] by (auto simp: exec_simps)
  have w: "cpu_ok ?t" using ok by (simp add: cpu_ok_def)
  have u: "upd_cpu (this_cpu s) (\<lambda>k. k\<lparr>ncli := ncli k + 1\<rparr>) (set_cur ?k ?t)
      = Done () (set_cur (?k\<lparr>ncli := ncli ?k + 1\<rparr>) ?t)"
    using upd_cpu_exec [of "set_cur ?k ?t" "\<lambda>k. k\<lparr>ncli := ncli k + 1\<rparr>"] ok w by simp
  have "pushcli s = Done () (set_cur (?k\<lparr>ncli := ncli ?k + 1\<rparr>) ?t)"
    unfolding pushcli_def cli_def using mycpu_cli_exec [OF ok] n c u by (simp add: exec_simps)
  then show ?thesis by (simp only: k cli_enter_def set_cur_fields)
qed

lemma popcli_exec [exec_simps]:
  assumes ok: "cpu_ok s" and n: "0 < ncli (cur s)"
  shows "popcli s = Done () (cli_leave s)"
proof -
  let ?t = "set_cur (cpu_leave (cur s)) s"
  have f: "\<not> if_flag s" using ok n by (simp add: cpu_ok_def)
  have u: "upd_cpu (this_cpu s) (\<lambda>k. k\<lparr>ncli := ncli k - 1\<rparr>) s = Done () ?t"
    by (simp add: upd_cpu_exec cpu_leave_def)
  have "cpus ?t ! this_cpu s = cur ?t"
    by (simp add: cur_def [of ?t])
  then have k: "cpus ?t ! this_cpu s = cpu_leave (cur s)"
    using ok by simp
  have "popcli s = (if ncli (cur s) = 1 \<and> intena (cur s) then sti ?t else Done () ?t)"
    unfolding popcli_def using f mycpu_exec [OF ok f] u k n
    by (simp add: exec_simps)
  moreover have "if_flag ?t = False" using f by simp
  ultimately show ?thesis
    by (auto simp: sti_def exec_simps cli_leave_def)
qed

lemma myproc_exec [exec_simps]:
  assumes ok: "cpu_ok s"
  shows "myproc s = Done (cproc (cur s)) (cli_touch s)"
  using ok cpu_ok_ncli [OF ok] by (simp add: myproc_def exec_simps cur_def [symmetric]
      cur_def [of "cli_enter s", symmetric, simplified])

lemma holding_exec [exec_simps]:
  assumes ok: "cpu_ok s"
  shows "holding l s
    = Done (locked (locks s l) \<and> lk_cpu (locks s l) = Some (this_cpu s)) (cli_touch s)"
  using ok cpu_ok_ncli [OF ok] by (simp add: holding_def exec_simps)

text \<open>\<open>acquire\<close>: the three cases of a lock that is free, held by this CPU, and held by another.\<close>

abbreviation free_lock :: spinlock where
  "free_lock \<equiv> \<lparr>locked = False, lk_cpu = None\<rparr>"

abbreviation held_by :: "nat \<Rightarrow> spinlock" where
  "held_by c \<equiv> \<lparr>locked = True, lk_cpu = Some c\<rparr>"

lemma acquire_exec [exec_simps]:
  assumes ok: "cpu_ok s" and free: "\<not> locked (locks s l)"
  shows "acquire l s = Done () ((cli_enter s)\<lparr>locks := (locks s)(l := held_by (this_cpu s))\<rparr>)"
  using ok free cpu_ok_ncli [OF ok] by (simp add: acquire_def exec_simps set_lock_def)

lemma acquire_held_exec:
  assumes ok: "cpu_ok s" and held: "locked (locks s l)" "lk_cpu (locks s l) = Some (this_cpu s)"
  shows "acquire l s = Fail (Panic ''acquire'')"
  using ok held by (simp add: acquire_def exec_simps)

lemma acquire_spin_exec:
  assumes ok: "cpu_ok s" and busy: "locked (locks s l)" "lk_cpu (locks s l) \<noteq> Some (this_cpu s)"
  shows "acquire l s = Fail Spin"
  using ok busy by (simp add: acquire_def exec_simps)

lemma release_exec [exec_simps]:
  assumes ok: "cpu_ok s" and n: "0 < ncli (cur s)"
    and held: "locked (locks s l)" "lk_cpu (locks s l) = Some (this_cpu s)"
  shows "release l s = Done () ((cli_leave s)\<lparr>locks := (locks s)(l := free_lock)\<rparr>)"
  using ok n held by (simp add: release_def exec_simps set_lock_def)

lemma release_not_held_exec:
  assumes ok: "cpu_ok s" and "\<not> (locked (locks s l) \<and> lk_cpu (locks s l) = Some (this_cpu s))"
  shows "release l s = Fail (Panic ''release'')"
  using assms by (simp add: release_def exec_simps)

lemma acquire_release_exec:
  assumes "cpu_ok s" "\<not> locked (locks s l)"
  shows "seqs [acquire l, release l] s
    = Done () ((cli_touch s)\<lparr>locks := (locks s)(l := free_lock)\<rparr>)"
  using assms cpu_ok_ncli [OF assms(1)] by (simp add: exec_simps)

end
