(* ===== verification/Spinlock_SMP.thy ===== *)
theory Spinlock_SMP
  imports Spinlock
begin

text \<open>
  Several CPUs that contend for one spinlock. The theory \<open>Spinlock\<close> runs \<open>acquire\<close> and
  \<open>release\<close> from the point of view of one CPU; here their steps on the shared lock words are
  interleaved. A step is one access that other CPUs can observe: the check in \<open>holding\<close>, the
  atomic \<open>xchg\<close>, the write of \<open>lk->cpu\<close>, and the store that clears \<open>lk->locked\<close>.
\<close>

section \<open>Steps of acquire and release\<close>

text \<open>
  Where a CPU is: outside, in the \<open>xchg\<close> loop, past it, in the critical section, in \<open>release\<close>
  with \<open>lk->cpu\<close> cleared, or stopped by the \<open>panic\<close> of \<open>acquire\<close> or \<open>release\<close>.
\<close>

datatype pc = Outside | Spinning | Taken | Critical | Cleared | Panicked

record lock_state =
  lock :: spinlock
  pcs :: "nat \<Rightarrow> pc"

definition goto :: "nat \<Rightarrow> pc \<Rightarrow> lock_state \<Rightarrow> lock_state" where
  "goto c p s = s\<lparr>pcs := (pcs s)(c := p)\<rparr>"

definition holds :: "nat \<Rightarrow> lock_state \<Rightarrow> bool" where
  "holds c s \<longleftrightarrow> locked (lock s) \<and> lk_cpu (lock s) = Some c"

inductive lock_step :: "lock_state \<Rightarrow> nat \<Rightarrow> lock_state \<Rightarrow> bool" where
  enter: "pcs s c = Outside \<Longrightarrow> \<not> holds c s \<Longrightarrow> lock_step s c (goto c Spinning s)"
| enter_panic: "pcs s c = Outside \<Longrightarrow> holds c s \<Longrightarrow> lock_step s c (goto c Panicked s)"
| xchg_busy: "pcs s c = Spinning \<Longrightarrow> locked (lock s) \<Longrightarrow> lock_step s c s"
| xchg_free: "pcs s c = Spinning \<Longrightarrow> \<not> locked (lock s) \<Longrightarrow>
    lock_step s c (goto c Taken (s\<lparr>lock := (lock s)\<lparr>locked := True\<rparr>\<rparr>))"
| record_cpu: "pcs s c = Taken \<Longrightarrow>
    lock_step s c (goto c Critical (s\<lparr>lock := (lock s)\<lparr>lk_cpu := Some c\<rparr>\<rparr>))"
| leave: "pcs s c = Critical \<Longrightarrow> holds c s \<Longrightarrow>
    lock_step s c (goto c Cleared (s\<lparr>lock := (lock s)\<lparr>lk_cpu := None\<rparr>\<rparr>))"
| leave_panic: "pcs s c = Critical \<Longrightarrow> \<not> holds c s \<Longrightarrow> lock_step s c (goto c Panicked s)"
| store: "pcs s c = Cleared \<Longrightarrow>
    lock_step s c (goto c Outside (s\<lparr>lock := (lock s)\<lparr>locked := False\<rparr>\<rparr>))"

text \<open>\<open>initlock\<close>: the lock is free and no CPU is using it.\<close>

definition lock_init_state :: lock_state where
  "lock_init_state = \<lparr>lock = free_lock, pcs = (\<lambda>_. Outside)\<rparr>"

inductive lock_reachable :: "lock_state \<Rightarrow> bool" where
  start: "lock_reachable lock_init_state"
| step: "lock_reachable s \<Longrightarrow> lock_step s c t \<Longrightarrow> lock_reachable t"

inductive_simps lock_step_simps: "lock_step s c t"
inductive_cases lock_stepE: "lock_step s c t"

section \<open>Mutual exclusion\<close>

definition owner :: "pc \<Rightarrow> bool" where
  "owner p \<longleftrightarrow> p \<in> {Taken, Critical, Cleared}"

text \<open>
  The lock word is set exactly while some CPU owns the lock, no two CPUs own it, \<open>lk->cpu\<close>
  names a CPU exactly while that one is in its critical section, and nobody has panicked.
\<close>

definition lock_inv :: "lock_state \<Rightarrow> bool" where
  "lock_inv s \<longleftrightarrow>
     (if locked (lock s) then \<exists>d. \<forall>c. owner (pcs s c) \<longleftrightarrow> c = d else \<forall>c. \<not> owner (pcs s c)) \<and>
     (\<forall>c. lk_cpu (lock s) = Some c \<longleftrightarrow> pcs s c = Critical) \<and>
     (\<forall>c. pcs s c \<noteq> Panicked)"

lemma owner_simps [simp]:
  "\<not> owner Outside" "\<not> owner Spinning" "owner Taken" "owner Critical" "owner Cleared" "\<not> owner Panicked"
  by (simp_all add: owner_def)

lemma lock_inv_start: "lock_inv lock_init_state"
  by (simp add: lock_inv_def lock_init_state_def)

lemma lock_inv_cases:
  assumes "lock_inv s"
  obtains (free) "\<not> locked (lock s)" "\<forall>c. \<not> owner (pcs s c)"
  | (taken) d where "locked (lock s)" "\<forall>c. owner (pcs s c) \<longleftrightarrow> c = d"
  using assms by (auto simp: lock_inv_def split: if_splits)

lemma lock_inv_holds: "lock_inv s \<Longrightarrow> holds c s \<longleftrightarrow> pcs s c = Critical"
  by (auto simp: lock_inv_def holds_def split: if_splits) (metis owner_simps(4))

lemma lock_inv_step:
  assumes inv: "lock_inv s" and step: "lock_step s c t"
  shows "lock_inv t"
proof -
  have cpu: "\<forall>c. lk_cpu (lock s) = Some c \<longleftrightarrow> pcs s c = Critical" "\<forall>c. pcs s c \<noteq> Panicked"
    using inv by (auto simp: lock_inv_def)
  note holds = lock_inv_holds [OF inv, of c]
  show ?thesis
    using inv
  proof (cases rule: lock_inv_cases)
    case free
    from free(2) have "pcs s c \<notin> {Taken, Critical, Cleared}" by (auto simp: owner_def)
    with step free cpu holds show ?thesis
      by (auto simp: lock_step_simps lock_inv_def goto_def owner_def split: if_splits)
  next
    case (taken d)
    then have "pcs s c \<in> {Taken, Critical, Cleared} \<longleftrightarrow> c = d" by (auto simp: owner_def)
    moreover have "lk_cpu (lock s) = None" if "pcs s d \<noteq> Critical"
      using that taken cpu(1) by (metis not_Some_eq owner_simps(4))
    ultimately show ?thesis
      using step taken cpu holds
      by (cases "c = d") (auto simp: lock_step_simps lock_inv_def goto_def split: if_splits)
  qed
qed

lemma lock_reachable_inv: "lock_reachable s \<Longrightarrow> lock_inv s"
  by (induction rule: lock_reachable.induct) (auto intro: lock_inv_start lock_inv_step)

lemma lock_mutual_exclusion:
  "lock_reachable s \<Longrightarrow> owner (pcs s c) \<Longrightarrow> owner (pcs s d) \<Longrightarrow> c = d"
  using lock_reachable_inv [of s] by (auto simp: lock_inv_def split: if_splits)

lemma lock_no_panic: "lock_reachable s \<Longrightarrow> pcs s c \<noteq> Panicked"
  using lock_reachable_inv [of s] by (auto simp: lock_inv_def)

text \<open>Whenever the lock is wanted, some CPU can take a step that is not a failed \<open>xchg\<close>.\<close>

lemma lock_progress:
  assumes r: "lock_reachable s" and w: "pcs s c = Spinning"
  shows "\<exists>d t. lock_step s d t \<and> pcs t d \<noteq> pcs s d"
proof (cases "locked (lock s)")
  case False
  then have "lock_step s c (goto c Taken (s\<lparr>lock := (lock s)\<lparr>locked := True\<rparr>\<rparr>))"
    using w by (simp add: lock_step_simps)
  then show ?thesis using w by (intro exI) (auto simp: goto_def)
next
  case True
  then obtain d where d: "owner (pcs s d)" using lock_reachable_inv [OF r] by (auto elim: lock_inv_cases)
  then consider "pcs s d = Taken" | "pcs s d = Critical" | "pcs s d = Cleared" by (auto simp: owner_def)
  then show ?thesis
  proof cases
    case 1
    from lock_step.record_cpu [OF 1] 1 show ?thesis by (intro exI) (auto simp: goto_def)
  next
    case 2
    then have "holds d s" using lock_inv_holds [OF lock_reachable_inv [OF r]] by simp
    from lock_step.leave [OF 2 this] 2 show ?thesis by (intro exI) (auto simp: goto_def)
  next
    case 3
    from lock_step.store [OF 3] 3 show ?thesis by (intro exI) (auto simp: goto_def)
  qed
qed

section \<open>Exclusion and availability\<close>

text \<open>
  C31. Mutual exclusion: whatever the interleaving of the CPUs, while one of them owns the lock
  no other does, and no CPU runs into the panics of \<open>acquire\<close> and \<open>release\<close>.
\<close>

theorem lock_exclusive:
  assumes "lock_reachable s" "owner (pcs s c)"
  shows "{d. owner (pcs s d)} = {c} \<and> Panicked \<notin> range (pcs s)"
proof -
  have "pcs s d \<noteq> Panicked" for d using assms(1) by (rule lock_no_panic)
  then have "Panicked \<notin> range (pcs s)" by (metis rangeE)
  with lock_mutual_exclusion [OF assms(1)] assms(2) show ?thesis by auto
qed

inductive lock_steps :: "lock_state \<Rightarrow> lock_state \<Rightarrow> bool" where
  stay: "lock_steps s s"
| further: "lock_step s c t \<Longrightarrow> lock_steps t u \<Longrightarrow> lock_steps s u"

lemma lock_steps_reachable: "lock_steps s t \<Longrightarrow> lock_reachable s \<Longrightarrow> lock_reachable t"
  by (induction rule: lock_steps.induct) (auto intro: lock_reachable.step)

lemma lock_steps_trans: "lock_steps s t \<Longrightarrow> lock_steps t u \<Longrightarrow> lock_steps s u"
  by (induction rule: lock_steps.induct) (auto intro: lock_steps.further)

lemma lock_steps_one: "lock_step s c t \<Longrightarrow> lock_steps s t"
  by (auto intro: lock_steps.intros)

lemma goto_pcs [simp]: "pcs (goto c p s) = (pcs s)(c := p)" "lock (goto c p s) = lock s"
  by (simp_all add: goto_def)

text \<open>The owner of the lock gives it up in at most three steps of its own.\<close>

lemma lock_drained:
  assumes "lock_reachable s" "owner (pcs s d)"
  shows "\<exists>t. lock_steps s t \<and> pcs t = (pcs s)(d := Outside) \<and> \<not> locked (lock t)"
proof -
  have store: "\<exists>t. lock_steps u t \<and> pcs t = (pcs u)(d := Outside) \<and> \<not> locked (lock t)" if "pcs u d = Cleared" for u
    using lock_steps_one [OF lock_step.store [OF that]] by (intro exI) auto
  have leave: "\<exists>t. lock_steps u t \<and> pcs t = (pcs u)(d := Outside) \<and> \<not> locked (lock t)"
    if "lock_reachable u" "pcs u d = Critical" for u
  proof -
    have "holds d u" using lock_inv_holds [OF lock_reachable_inv [OF that(1)]] that(2) by simp
    from lock_step.leave [OF that(2) this] obtain v where v: "lock_step u d v" "pcs v = (pcs u)(d := Cleared)" by auto
    with store [of v] show ?thesis by (auto intro: lock_steps.further)
  qed
  consider "pcs s d = Taken" | "pcs s d = Critical" | "pcs s d = Cleared" using assms(2) by (auto simp: owner_def)
  then show ?thesis
  proof cases
    case 1
    from lock_step.record_cpu [OF 1] obtain v where v: "lock_step s d v" "pcs v = (pcs s)(d := Critical)" by auto
    with leave [of v] lock_reachable.step [OF assms(1) v(1)] show ?thesis by (auto intro: lock_steps.further)
  qed (use leave [OF assms(1)] store in auto)
qed

text \<open>
  C32. From every reachable state a CPU that waits in the loop of \<open>acquire\<close> can still get the
  lock: there are finitely many steps of the CPUs after which it is in its critical section.
\<close>

theorem lock_obtainable:
  assumes "lock_reachable s" "pcs s c = Spinning"
  shows "\<exists>t. lock_steps s t \<and> pcs t c = Critical"
proof -
  have "\<exists>t. lock_steps s t \<and> pcs t c = Spinning \<and> \<not> locked (lock t)"
  proof (cases "locked (lock s)")
    case True
    then obtain d where d: "owner (pcs s d)" using lock_reachable_inv [OF assms(1)] by (auto elim: lock_inv_cases)
    then have "d \<noteq> c" using assms(2) by auto
    with lock_drained [OF assms(1) d] assms(2) show ?thesis by auto
  qed (use assms(2) in \<open>auto intro: lock_steps.stay\<close>)
  then obtain t where t: "lock_steps s t" "pcs t c = Spinning" "\<not> locked (lock t)" by blast
  from lock_step.xchg_free [OF t(2,3)] obtain u where u: "lock_step t c u" "pcs u c = Taken" by auto
  from lock_step.record_cpu [OF u(2)] obtain v where v: "lock_step u c v" "pcs v c = Critical" by auto
  have "lock_steps t v" by (rule lock_steps.further [OF u(1) lock_steps_one [OF v(1)]])
  with t(1) v(2) show ?thesis by (blast intro: lock_steps_trans)
qed

definition contended :: lock_state where
  "contended = \<lparr>lock = \<lparr>locked = True, lk_cpu = Some 0\<rparr>, pcs = (\<lambda>_. Outside)(0 := Critical, 1 := Spinning)\<rparr>"

lemma contended_reachable: "lock_reachable contended"
proof -
  let ?a = "goto 0 Spinning lock_init_state"
  let ?b = "goto 0 Taken (?a\<lparr>lock := (lock ?a)\<lparr>locked := True\<rparr>\<rparr>)"
  let ?c = "goto 0 Critical (?b\<lparr>lock := (lock ?b)\<lparr>lk_cpu := Some 0\<rparr>\<rparr>)"
  let ?d = "goto 1 Spinning ?c"
  have "lock_reachable ?a" by (rule lock_reachable.step [OF lock_reachable.start lock_step.enter]) (simp_all add: lock_init_state_def holds_def)
  then have "lock_reachable ?b" by (rule lock_reachable.step [OF _ lock_step.xchg_free]) (simp_all add: lock_init_state_def)
  then have "lock_reachable ?c" by (rule lock_reachable.step [OF _ lock_step.record_cpu]) simp
  then have "lock_reachable ?d" by (rule lock_reachable.step [OF _ lock_step.enter]) (simp_all add: lock_init_state_def holds_def)
  moreover have "?d = contended" by (simp add: contended_def goto_def lock_init_state_def)
  ultimately show ?thesis by simp
qed

lemma lock_exclusive_witness: "lock_reachable contended \<and> {d. owner (pcs contended d)} = {0}"
  using lock_exclusive [OF contended_reachable, of 0] contended_reachable by (simp add: contended_def)

lemma lock_obtainable_witness: "pcs contended 1 = Spinning \<and> (\<exists>t. lock_steps contended t \<and> pcs t 1 = Critical)"
  using lock_obtainable [OF contended_reachable, of 1] by (simp add: contended_def)

end
