(* ===== verification/Kstate.thy ===== *)
theory Kstate
  imports Spinlock
begin

text \<open>
  The data of the process subsystem: \<open>struct proc\<close> and \<open>struct cpu_avg\<close>
  (\<open>kernel/sched/proc.h\<close>, \<open>kernel/sched/sched.c\<close>), \<open>struct pqueue\<close>
  (\<open>kernel/data/queue.h\<close>), the constants of \<open>kernel/defs/param.h\<close> and the global variables of
  these files, as the record \<open>kernel\<close> that extends \<open>machine\<close>. Pointers to processes are
  indices into \<open>ptable.proc\<close>, with \<open>None\<close> for the null pointer.
\<close>

section \<open>Constants\<close>

abbreviation (input) NPROC :: nat where "NPROC \<equiv> 64"
abbreviation (input) NCPU :: nat where "NCPU \<equiv> 8"
abbreviation (input) NOFILE :: nat where "NOFILE \<equiv> 16"
abbreviation (input) NOCPU :: nat where "NOCPU \<equiv> 777"
abbreviation (input) IN_QUEUE :: "32 word" where "IN_QUEUE \<equiv> 1"
abbreviation (input) URGENT :: "8 word" where "URGENT \<equiv> 1"
abbreviation (input) TOP_PRIORITY :: "8 word" where "TOP_PRIORITY \<equiv> 10"
abbreviation (input) MED_USER_PRIORITY :: "8 word" where "MED_USER_PRIORITY \<equiv> 3"
abbreviation (input) LOW_USER_PRIORITY :: "8 word" where "LOW_USER_PRIORITY \<equiv> 1"
abbreviation (input) DEFAULT_USER_TIME_QUANTUM :: int where "DEFAULT_USER_TIME_QUANTUM \<equiv> 45"
abbreviation (input) KERNEL_PROC :: int where "KERNEL_PROC \<equiv> 1"
abbreviation (input) USER_PROC :: int where "USER_PROC \<equiv> 2"
abbreviation (input) CHILD_SAME_PRI :: int where "CHILD_SAME_PRI \<equiv> 0"

section \<open>Processes\<close>

datatype procstate =
    UNUSED | EMBRYO | SLEEPING | RUNNABLE | RUNNING | ZOMBIE | WAIT | PREEMPTED

text \<open>
  \<open>context\<close>, the saved kernel registers, has no field: what they resume is modelled by the
  routine that called \<open>swtch\<close>. Wait channels are addresses of kernel objects: a process table slot, the tick counter, the
  log, a buffer, a semaphore, the two counters of a pipe, the console input and the sleep
  lock that contains a given spinlock.
\<close>

datatype chan =
    ChProc nat | ChTicks | ChLog | ChBuf nat | ChSem nat | ChPipeRead nat | ChPipeWrite nat
  | ChInput | ChSleep lockid

record trapframe =
  eax :: "32 word"
  esp :: "32 word"
  eip :: "32 word"
  eflags :: "32 word"
  cs :: "32 word"
  ds :: "32 word"
  es :: "32 word"
  ss :: "32 word"
  trapno :: nat

record proc =
  sz :: "32 word"
  stack_base :: "32 word"
  p_sig :: "32 word"
  signal_handler :: "32 word"
  p_ign :: "32 word"
  p_pri :: "8 word"          \<comment> \<open>\<open>char\<close>, signed\<close>
  p_time_quantum :: int
  p_cpu_usage :: int
  p_flag :: "8 word"
  queue_mask :: "32 word"
  space_flag :: int
  child_pri :: int
  pgdir :: "32 word"
  kstack :: "32 word"
  state :: procstate
  pid :: int
  parent :: "nat option"
  tf :: trapframe
  chan :: "chan option"
  killed :: bool
  ofile :: "nat \<Rightarrow> nat option"
  cwd :: "(nat \<times> nat) option"   \<comment> \<open>an entry of one of the two inode caches\<close>
  pname :: string
  nxt :: "nat option"
  prv :: "nat option"
  curr_cpu :: nat
  curr :: "qid option"

record pqueue =
  head :: "nat option"
  tail :: "nat option"
  len :: int

record cpu_avg =
  total_cpu_time :: "32 word"
  n_procs :: "32 word"
  avg :: "32 word"

record kernel = machine +
  ptable :: "nat \<Rightarrow> proc"
  queues :: "qid \<Rightarrow> pqueue"
  nextpid :: int
  initproc :: "nat option"
  c_avg :: cpu_avg
  ticks :: "32 word"
  kpgdir :: "32 word"

section \<open>Access\<close>

definition proc_at :: "nat \<Rightarrow> ('a kernel_scheme, proc) kmon" where
  "proc_at p = gets (\<lambda>s. ptable s p)"

definition upd_proc :: "nat \<Rightarrow> (proc \<Rightarrow> proc) \<Rightarrow> ('a kernel_scheme, unit) kmon" where
  "upd_proc p f = modify (\<lambda>s. s\<lparr>ptable := (ptable s)(p := f (ptable s p))\<rparr>)"

definition queue_at :: "qid \<Rightarrow> ('a kernel_scheme, pqueue) kmon" where
  "queue_at q = gets (\<lambda>s. queues s q)"

definition upd_queue :: "qid \<Rightarrow> (pqueue \<Rightarrow> pqueue) \<Rightarrow> ('a kernel_scheme, unit) kmon" where
  "upd_queue q f = modify (\<lambda>s. s\<lparr>queues := (queues s)(q := f (queues s q))\<rparr>)"

text \<open>\<open>runqueue\<close> has \<open>NCPU\<close> entries; an address beyond it belongs to no queue.\<close>

fun valid_qid :: "qid \<Rightarrow> bool" where
  "valid_qid (RunQ i) = (i < NCPU)"
| "valid_qid SleepQ = True"
| "valid_qid ReadyQ = True"

definition check_qid :: "qid \<Rightarrow> ('a kernel_scheme, unit) kmon" where
  "check_qid q = (if valid_qid q then return () else fail Bad_Access)"

lemma access_exec [exec_simps]:
  "proc_at p s = Done (ptable s p) s"
  "upd_proc p f s = Done () (s\<lparr>ptable := (ptable s)(p := f (ptable s p))\<rparr>)"
  "queue_at q s = Done (queues s q) s"
  "upd_queue q g s = Done () (s\<lparr>queues := (queues s)(q := g (queues s q))\<rparr>)"
  "check_qid q s = (if valid_qid q then Done () s else Fail Bad_Access)"
  by (simp_all add: proc_at_def upd_proc_def queue_at_def upd_queue_def check_qid_def exec_simps)

text \<open>The lock routines and the process data do not touch each other's fields.\<close>

lemma set_cur_kernel [simp]:
  "ptable (set_cur k s) = ptable s" "queues (set_cur k s) = queues s"
  "nextpid (set_cur k s) = nextpid s" "initproc (set_cur k s) = initproc s"
  "c_avg (set_cur k s) = c_avg s" "ticks (set_cur k s) = ticks s"
  "kpgdir (set_cur k s) = kpgdir s"
  by (simp_all add: set_cur_def)

lemma cli_kernel [simp]:
  "ptable (cli_enter s) = ptable s" "queues (cli_enter s) = queues s"
  "ptable (cli_leave s) = ptable s" "queues (cli_leave s) = queues s"
  "ptable (cli_touch s) = ptable s" "queues (cli_touch s) = queues s"
  "nextpid (cli_enter s) = nextpid s" "initproc (cli_enter s) = initproc s"
  "nextpid (cli_leave s) = nextpid s" "initproc (cli_leave s) = initproc s"
  "nextpid (cli_touch s) = nextpid s" "initproc (cli_touch s) = initproc s"
  "c_avg (cli_enter s) = c_avg s" "ticks (cli_enter s) = ticks s"
  "c_avg (cli_leave s) = c_avg s" "ticks (cli_leave s) = ticks s"
  "c_avg (cli_touch s) = c_avg s" "ticks (cli_touch s) = ticks s"
  "kpgdir (cli_enter s) = kpgdir s" "kpgdir (cli_leave s) = kpgdir s"
  "kpgdir (cli_touch s) = kpgdir s"
  by (simp_all add: cli_defs)

lemma this_cpu_kernel [simp]:
  "this_cpu (s\<lparr>ptable := T\<rparr>) = this_cpu s" "this_cpu (s\<lparr>queues := R\<rparr>) = this_cpu s"
  "this_cpu (s\<lparr>nextpid := n\<rparr>) = this_cpu s" "this_cpu (s\<lparr>initproc := i\<rparr>) = this_cpu s"
  "this_cpu (s\<lparr>c_avg := a\<rparr>) = this_cpu s" "this_cpu (s\<lparr>ticks := w\<rparr>) = this_cpu s"
  "this_cpu (s\<lparr>kpgdir := w\<rparr>) = this_cpu s"
  by (simp_all add: this_cpu_def)

lemma cur_kernel [simp]:
  "cur (s\<lparr>ptable := T\<rparr>) = cur s" "cur (s\<lparr>queues := R\<rparr>) = cur s"
  "cur (s\<lparr>nextpid := n\<rparr>) = cur s" "cur (s\<lparr>initproc := i\<rparr>) = cur s"
  "cur (s\<lparr>c_avg := a\<rparr>) = cur s" "cur (s\<lparr>ticks := w\<rparr>) = cur s"
  "cur (s\<lparr>kpgdir := w\<rparr>) = cur s"
  by (simp_all add: cur_def)

lemma cpu_ok_kernel [simp]:
  "cpu_ok (s\<lparr>ptable := T\<rparr>) = cpu_ok s" "cpu_ok (s\<lparr>queues := R\<rparr>) = cpu_ok s"
  "cpu_ok (s\<lparr>nextpid := n\<rparr>) = cpu_ok s" "cpu_ok (s\<lparr>initproc := i\<rparr>) = cpu_ok s"
  "cpu_ok (s\<lparr>c_avg := a\<rparr>) = cpu_ok s" "cpu_ok (s\<lparr>ticks := w\<rparr>) = cpu_ok s"
  "cpu_ok (s\<lparr>kpgdir := w\<rparr>) = cpu_ok s"
  by (simp_all add: cpu_ok_def)

lemma set_cur_kernel_upd [simp]:
  "set_cur k (s\<lparr>ptable := T\<rparr>) = (set_cur k s)\<lparr>ptable := T\<rparr>"
  "set_cur k (s\<lparr>queues := R\<rparr>) = (set_cur k s)\<lparr>queues := R\<rparr>"
  "set_cur k (s\<lparr>nextpid := n\<rparr>) = (set_cur k s)\<lparr>nextpid := n\<rparr>"
  "set_cur k (s\<lparr>initproc := i\<rparr>) = (set_cur k s)\<lparr>initproc := i\<rparr>"
  "set_cur k (s\<lparr>c_avg := a\<rparr>) = (set_cur k s)\<lparr>c_avg := a\<rparr>"
  "set_cur k (s\<lparr>ticks := w\<rparr>) = (set_cur k s)\<lparr>ticks := w\<rparr>"
  by (simp_all add: set_cur_def)

lemma cli_kernel_upd [simp]:
  "cli_enter (s\<lparr>ptable := T\<rparr>) = (cli_enter s)\<lparr>ptable := T\<rparr>"
  "cli_leave (s\<lparr>ptable := T\<rparr>) = (cli_leave s)\<lparr>ptable := T\<rparr>"
  "cli_touch (s\<lparr>ptable := T\<rparr>) = (cli_touch s)\<lparr>ptable := T\<rparr>"
  "cli_enter (s\<lparr>queues := R\<rparr>) = (cli_enter s)\<lparr>queues := R\<rparr>"
  "cli_leave (s\<lparr>queues := R\<rparr>) = (cli_leave s)\<lparr>queues := R\<rparr>"
  "cli_touch (s\<lparr>queues := R\<rparr>) = (cli_touch s)\<lparr>queues := R\<rparr>"
  "cli_enter (s\<lparr>nextpid := x\<rparr>) = (cli_enter s)\<lparr>nextpid := x\<rparr>"
  "cli_leave (s\<lparr>nextpid := x\<rparr>) = (cli_leave s)\<lparr>nextpid := x\<rparr>"
  "cli_touch (s\<lparr>nextpid := x\<rparr>) = (cli_touch s)\<lparr>nextpid := x\<rparr>"
  "cli_enter (s\<lparr>initproc := i\<rparr>) = (cli_enter s)\<lparr>initproc := i\<rparr>"
  "cli_leave (s\<lparr>initproc := i\<rparr>) = (cli_leave s)\<lparr>initproc := i\<rparr>"
  "cli_touch (s\<lparr>initproc := i\<rparr>) = (cli_touch s)\<lparr>initproc := i\<rparr>"
  "cli_enter (s\<lparr>c_avg := a\<rparr>) = (cli_enter s)\<lparr>c_avg := a\<rparr>"
  "cli_leave (s\<lparr>c_avg := a\<rparr>) = (cli_leave s)\<lparr>c_avg := a\<rparr>"
  "cli_touch (s\<lparr>c_avg := a\<rparr>) = (cli_touch s)\<lparr>c_avg := a\<rparr>"
  "cli_enter (s\<lparr>ticks := w\<rparr>) = (cli_enter s)\<lparr>ticks := w\<rparr>"
  "cli_leave (s\<lparr>ticks := w\<rparr>) = (cli_leave s)\<lparr>ticks := w\<rparr>"
  "cli_touch (s\<lparr>ticks := w\<rparr>) = (cli_touch s)\<lparr>ticks := w\<rparr>"
  by (simp_all add: cli_defs)

end
