(* ===== verification/Queue.thy ===== *)
theory Queue
  imports Kstate "HOL-Library.Signed_Division"
begin

text \<open>
  The process queues of \<open>kernel/data/queue.c\<close>: doubly linked lists threaded through the
  process table. The definitions follow the C functions; the lemmas show that on a
  well-formed queue they implement operations on the list of queued processes.
\<close>

section \<open>The routines of queue.c\<close>

text \<open>\<open>lock_init\<close> is a global that is initialised to 0 and never written.\<close>

definition lock_init :: int where
  "lock_init = 0"

definition initprocqueue :: "qid \<Rightarrow> ('a kernel_scheme, unit) kmon" where
  "initprocqueue q =
     bind (check_qid q) (\<lambda>_.
     seqs [
       cwhen (lock_init = 0) (initlock CheckLock),
       initlock (QLock q),
       upd_queue q (\<lambda>x. x\<lparr>head := None\<rparr>),
       upd_queue q (\<lambda>x. x\<lparr>tail := None\<rparr>),
       upd_queue q (\<lambda>x. x\<lparr>len := 0\<rparr>)])"

definition is_queue_empty :: "qid \<Rightarrow> ('a kernel_scheme, bool) kmon" where
  "is_queue_empty q = bind (check_qid q) (\<lambda>_. bind (queue_at q) (\<lambda>x. return (head x = None)))"

definition is_proc_alone_in_queue :: "nat \<Rightarrow> qid \<Rightarrow> ('a kernel_scheme, bool) kmon" where
  "is_proc_alone_in_queue p q =
     bind (check_qid q) (\<lambda>_.
     bind (queue_at q) (\<lambda>x.
     if head x = Some p then bind (proc_at p) (\<lambda>pp. return (nxt pp = None))
     else return False))"

definition is_proc_queued :: "nat \<Rightarrow> qid option \<Rightarrow> ('a kernel_scheme, bool) kmon" where
  "is_proc_queued p pq =
     bind (proc_at p) (\<lambda>pp. return (curr pp \<noteq> None \<and> curr pp = pq))"

text \<open>\<open>this\<close> is overtaken by \<open>new\<close> in the loop of \<open>insert_proc_into_queue\<close>.\<close>

definition overtakes :: "proc \<Rightarrow> proc \<Rightarrow> bool" where
  "overtakes new this \<longleftrightarrow>
     state this = RUNNABLE \<and> (p_pri this <s p_pri new \<or> p_flag new = URGENT)"

definition link_before :: "nat \<Rightarrow> nat \<Rightarrow> qid \<Rightarrow> ('a kernel_scheme, unit) kmon" where
  "link_before new this q =
     bind (proc_at this) (\<lambda>t.
     bind (upd_proc new (\<lambda>x. x\<lparr>prv := prv t\<rparr>)) (\<lambda>_.
     bind (upd_proc new (\<lambda>x. x\<lparr>nxt := Some this\<rparr>)) (\<lambda>_.
     bind (proc_at this) (\<lambda>t.
     bind (case prv t of
         Some b \<Rightarrow> upd_proc b (\<lambda>x. x\<lparr>nxt := Some new\<rparr>)
       | None \<Rightarrow> upd_queue q (\<lambda>x. x\<lparr>head := Some new\<rparr>)) (\<lambda>_.
     seqs [
       upd_proc this (\<lambda>x. x\<lparr>prv := Some new\<rparr>),
       upd_queue q (\<lambda>x. x\<lparr>len := len x + 1\<rparr>),
       upd_proc new (\<lambda>x. x\<lparr>curr := Some q\<rparr>),
       release (QLock q)])))))"

text \<open>
  The loop over the queue; it returns whether the process was linked in. A queue holds at
  most \<open>NPROC\<close> processes, which bounds the fuel.
\<close>

primrec insert_scan :: "nat \<Rightarrow> nat \<Rightarrow> qid \<Rightarrow> nat option \<Rightarrow> ('a kernel_scheme, bool) kmon" where
  "insert_scan 0 new q this = fail Diverge"
| "insert_scan (Suc fuel) new q this =
     (case this of
        None \<Rightarrow> return False
      | Some t \<Rightarrow>
          bind (proc_at t) (\<lambda>pt.
          bind (proc_at new) (\<lambda>pn.
          if overtakes pn pt then bind (link_before new t q) (\<lambda>_. return True)
          else insert_scan fuel new q (nxt pt))))"

definition insert_proc_into_queue :: "nat \<Rightarrow> qid option \<Rightarrow> ('a kernel_scheme, unit) kmon" where
  "insert_proc_into_queue new procqueue =
     (case procqueue of
        None \<Rightarrow> return ()
      | Some q \<Rightarrow>
          bind (proc_at new) (\<lambda>pn.
          if state pn = RUNNING then panic ''Inserting running proc''
          else bind (is_proc_queued new procqueue) (\<lambda>queued.
          if queued then return ()
          else bind (check_qid q) (\<lambda>_.
          bind (acquire (QLock q)) (\<lambda>_.
          bind (queue_at q) (\<lambda>pq.
          case head pq of
            None \<Rightarrow> seqs [
              upd_queue q (\<lambda>x. x\<lparr>head := Some new\<rparr>),
              upd_proc new (\<lambda>x. x\<lparr>nxt := None\<rparr>),
              upd_proc new (\<lambda>x. x\<lparr>prv := None\<rparr>),
              upd_queue q (\<lambda>x. x\<lparr>len := len x + 1\<rparr>),
              upd_proc new (\<lambda>x. x\<lparr>curr := Some q\<rparr>),
              release (QLock q)]
          | Some h \<Rightarrow>
              bind (proc_at h) (\<lambda>ph.
              if nxt ph = None then seqs [
                upd_queue q (\<lambda>x. x\<lparr>tail := Some new\<rparr>),
                upd_proc new (\<lambda>x. x\<lparr>nxt := None\<rparr>),
                upd_proc new (\<lambda>x. x\<lparr>prv := Some h\<rparr>),
                upd_proc h (\<lambda>x. x\<lparr>nxt := Some new\<rparr>),
                upd_queue q (\<lambda>x. x\<lparr>len := len x + 1\<rparr>),
                upd_proc new (\<lambda>x. x\<lparr>curr := Some q\<rparr>),
                release (QLock q)]
              else bind (insert_scan (Suc NPROC) new q (nxt ph)) (\<lambda>linked.
              if linked then return ()
              else bind (queue_at q) (\<lambda>pq.
              deref (tail pq) (\<lambda>t. seqs [
                upd_proc t (\<lambda>x. x\<lparr>nxt := Some new\<rparr>),
                upd_proc new (\<lambda>x. x\<lparr>prv := Some t\<rparr>),
                upd_proc new (\<lambda>x. x\<lparr>nxt := None\<rparr>),
                upd_queue q (\<lambda>x. x\<lparr>tail := Some new\<rparr>),
                upd_queue q (\<lambda>x. x\<lparr>len := len x + 1\<rparr>),
                upd_proc new (\<lambda>x. x\<lparr>curr := Some q\<rparr>),
                release (QLock q)]))))))))))"

definition claim_proc :: "nat \<Rightarrow> nat \<Rightarrow> ('a kernel_scheme, bool) kmon" where
  "claim_proc p c =
     bind (acquire CheckLock) (\<lambda>_.
     bind (proc_at p) (\<lambda>pp.
     bind (if queue_mask pp AND IN_QUEUE = 0
           then bind (upd_proc p (\<lambda>x. x\<lparr>queue_mask := queue_mask x OR IN_QUEUE\<rparr>)) (\<lambda>_.
                bind (upd_proc p (\<lambda>x. x\<lparr>curr_cpu := c\<rparr>)) (\<lambda>_.
                return True))
           else return False) (\<lambda>result.
     bind (release CheckLock) (\<lambda>_.
     return result))))"

definition unclaim_proc :: "nat \<Rightarrow> ('a kernel_scheme, bool) kmon" where
  "unclaim_proc p =
     bind (acquire CheckLock) (\<lambda>_.
     bind (proc_at p) (\<lambda>pp.
     bind (if queue_mask pp AND IN_QUEUE \<noteq> 0
           then bind (upd_proc p (\<lambda>x. x\<lparr>queue_mask := queue_mask x AND NOT IN_QUEUE\<rparr>)) (\<lambda>_.
                bind (upd_proc p (\<lambda>x. x\<lparr>curr_cpu := NOCPU\<rparr>)) (\<lambda>_.
                bind (upd_proc p (\<lambda>x. x\<lparr>curr := None\<rparr>)) (\<lambda>_.
                return True)))
           else return False) (\<lambda>result.
     bind (release CheckLock) (\<lambda>_.
     return result))))"

definition unlink_found :: "nat \<Rightarrow> qid \<Rightarrow> ('a kernel_scheme, unit) kmon" where
  "unlink_found this q =
     bind (proc_at this) (\<lambda>pt.
     bind (case prv pt of
         Some b \<Rightarrow> upd_proc b (\<lambda>x. x\<lparr>nxt := nxt pt\<rparr>)
       | None \<Rightarrow> return ()) (\<lambda>_.
     bind (proc_at this) (\<lambda>pt.
     bind (case nxt pt of
         Some a \<Rightarrow> upd_proc a (\<lambda>x. x\<lparr>prv := prv pt\<rparr>)
       | None \<Rightarrow> upd_queue q (\<lambda>x. x\<lparr>tail := prv pt\<rparr>)) (\<lambda>_.
     seqs [
       upd_queue q (\<lambda>x. x\<lparr>len := len x - 1\<rparr>),
       upd_proc this (\<lambda>x. x\<lparr>nxt := None\<rparr>),
       upd_proc this (\<lambda>x. x\<lparr>prv := None\<rparr>),
       bind (unclaim_proc this) (\<lambda>_. return ()),
       release (QLock q)]))))"

text \<open>
  The search of \<open>remove_proc_from_queue\<close>. When the process is not found the loop ends, and
  the function returns with the queue lock still held.
\<close>

primrec remove_scan :: "nat \<Rightarrow> nat \<Rightarrow> qid \<Rightarrow> nat option \<Rightarrow> ('a kernel_scheme, unit) kmon" where
  "remove_scan 0 old q this = fail Diverge"
| "remove_scan (Suc fuel) old q this =
     (case this of
        None \<Rightarrow> return ()
      | Some t \<Rightarrow>
          if t = old then unlink_found t q
          else bind (proc_at t) (\<lambda>pt. remove_scan fuel old q (nxt pt)))"

definition remove_proc_from_queue :: "nat \<Rightarrow> qid option \<Rightarrow> ('a kernel_scheme, unit) kmon" where
  "remove_proc_from_queue old procqueue =
     (case procqueue of
        None \<Rightarrow> return ()
      | Some q \<Rightarrow>
          bind (check_qid q) (\<lambda>_.
          bind (queue_at q) (\<lambda>pq.
          if head pq = None then panic ''proc not in queue''
          else bind (proc_at old) (\<lambda>po.
          if state po = RUNNING then panic ''Removing running proc''
          else bind (acquire (QLock q)) (\<lambda>_.
          bind (queue_at q) (\<lambda>pq.
          if head pq = Some old then
            bind (proc_at old) (\<lambda>po.
            bind (upd_queue q (\<lambda>x. x\<lparr>head := nxt po\<rparr>)) (\<lambda>_.
            bind (case nxt po of
                Some h \<Rightarrow> upd_proc h (\<lambda>x. x\<lparr>prv := None\<rparr>)
              | None \<Rightarrow> upd_queue q (\<lambda>x. x\<lparr>tail := None\<rparr>)) (\<lambda>_.
            seqs [
              upd_queue q (\<lambda>x. x\<lparr>len := len x - 1\<rparr>),
              upd_proc old (\<lambda>x. x\<lparr>nxt := None\<rparr>),
              upd_proc old (\<lambda>x. x\<lparr>prv := None\<rparr>),
              bind (unclaim_proc old) (\<lambda>_. return ()),
              release (QLock q)])))
          else remove_scan (Suc NPROC) old q (head pq)))))))"

primrec purge_loop :: "nat \<Rightarrow> qid \<Rightarrow> nat option \<Rightarrow> ('a kernel_scheme, unit) kmon" where
  "purge_loop 0 q pointer = fail Diverge"
| "purge_loop (Suc fuel) q pointer =
     (case pointer of
        None \<Rightarrow> return ()
      | Some p \<Rightarrow>
          bind (proc_at p) (\<lambda>pp.
          bind (cwhen (state pp \<noteq> RUNNABLE) (seqs [
              release (QLock q),
              remove_proc_from_queue p (Some q),
              acquire (QLock q)])) (\<lambda>_.
          bind (proc_at p) (\<lambda>pp.
          purge_loop fuel q (nxt pp)))))"

definition purge_queue :: "qid \<Rightarrow> ('a kernel_scheme, unit) kmon" where
  "purge_queue q =
     bind (check_qid q) (\<lambda>_.
     bind (acquire (QLock q)) (\<lambda>_.
     bind (queue_at q) (\<lambda>pq.
     bind (purge_loop (Suc NPROC) q (head pq)) (\<lambda>_.
     release (QLock q)))))"

definition shift_queue :: "qid \<Rightarrow> ('a kernel_scheme, unit) kmon" where
  "shift_queue q =
     bind (check_qid q) (\<lambda>_.
     bind (queue_at q) (\<lambda>pq.
     bind (case head pq of
         None \<Rightarrow> return False
       | Some h \<Rightarrow> bind (proc_at h) (\<lambda>ph. return (state ph = RUNNING))) (\<lambda>running.
     if running then panic ''Removing running proc''
     else bind (acquire (QLock q)) (\<lambda>_.
     bind (queue_at q) (\<lambda>pq.
     case head pq of
       None \<Rightarrow> release (QLock q)
     | Some old_head \<Rightarrow>
         bind (proc_at old_head) (\<lambda>po.
         case nxt po of
           None \<Rightarrow> seqs [
             bind (unclaim_proc old_head) (\<lambda>_. return ()),
             bind (queue_at q) (\<lambda>pq.
               deref (head pq) (\<lambda>h. remove_proc_from_queue h (Some q))),
             release (QLock q)]
         | Some new_head \<Rightarrow> seqs [
             cwhen (state po = RUNNABLE) (insert_proc_into_queue old_head (Some ReadyQ)),
             upd_proc new_head (\<lambda>x. x\<lparr>prv := None\<rparr>),
             upd_queue q (\<lambda>x. x\<lparr>head := Some new_head\<rparr>),
             upd_proc old_head (\<lambda>x. x\<lparr>nxt := None\<rparr>),
             bind (unclaim_proc old_head) (\<lambda>_. return ()),
             release (QLock q),
             bind (proc_at old_head) (\<lambda>po.
               cwhen (state po = RUNNABLE) (insert_proc_into_queue old_head (Some ReadyQ))),
             bind (queue_at q) (\<lambda>pq.
               if head pq \<noteq> None \<and> head pq = tail pq then panic ''head eq tail''
               else return ())]))))))"

section \<open>Balancing\<close>

definition num_cpus :: "('a kernel_scheme, nat) kmon" where
  "num_cpus = gets (\<lambda>s. length (cpus s))"

text \<open>
  Division by zero, with no CPU detected, traps, and \<open>runqueue\<close> is indexed by CPU number.
\<close>

definition ideal_queue_len :: "int list \<Rightarrow> int" where
  "ideal_queue_len tasks = sum_list tasks sdiv int (length tasks)"

definition padded_ideal :: "int list \<Rightarrow> int" where
  "padded_ideal tasks = (ideal_queue_len tasks * 125) sdiv 100"

definition unbalanced_rq_mask :: "int list \<Rightarrow> 8 word" where
  "unbalanced_rq_mask tasks =
     fold (\<lambda>i m. if tasks ! i > padded_ideal tasks then m OR push_bit i 1 else m)
       [0..<length tasks] 0"

definition queues_need_balance :: "('a kernel_scheme, 8 word) kmon" where
  "queues_need_balance =
     bind num_cpus (\<lambda>n.
     if n = 0 \<or> NCPU < n then fail Bad_Access
     else bind (gets (\<lambda>s. map (\<lambda>i. len (queues s (RunQ i))) [0..<n])) (\<lambda>tasks.
     return (unbalanced_rq_mask tasks)))"

primrec balance_loop :: "8 word \<Rightarrow> nat list \<Rightarrow> ('a kernel_scheme, unit) kmon" where
  "balance_loop rq_mask [] = return ()"
| "balance_loop rq_mask (i # is) =
     bind (cwhen (rq_mask AND push_bit i 1 \<noteq> 0)
       (bind (check_qid (RunQ i)) (\<lambda>_.
        bind (queue_at (RunQ i)) (\<lambda>pq.
        case tail pq of
          None \<Rightarrow> return ()
        | Some p2migrate \<Rightarrow>
            bind (proc_at p2migrate) (\<lambda>pp.
            bind (remove_proc_from_queue p2migrate (curr pp)) (\<lambda>_.
            insert_proc_into_queue p2migrate (Some ReadyQ))))))) (\<lambda>_.
     balance_loop rq_mask is)"

definition do_balance :: "8 word \<Rightarrow> ('a kernel_scheme, unit) kmon" where
  "do_balance rq_mask = bind num_cpus (\<lambda>n. balance_loop rq_mask [0..<n])"

section \<open>Linked lists in the process table\<close>

text \<open>
  \<open>seg T p xs e\<close>: the processes \<open>xs\<close> are linked in this order in the table \<open>T\<close>, the first
  one has predecessor \<open>p\<close> and the last one has successor \<open>e\<close>.
\<close>

definition fst_or :: "nat list \<Rightarrow> nat option \<Rightarrow> nat option" where
  "fst_or xs e = (case xs of [] \<Rightarrow> e | x # _ \<Rightarrow> Some x)"

definition lst_or :: "nat list \<Rightarrow> nat option \<Rightarrow> nat option" where
  "lst_or xs p = (if xs = [] then p else Some (last xs))"

primrec seg :: "(nat \<Rightarrow> proc) \<Rightarrow> nat option \<Rightarrow> nat list \<Rightarrow> nat option \<Rightarrow> bool" where
  "seg T p [] e = True"
| "seg T p (x # xs) e = (prv (T x) = p \<and> nxt (T x) = fst_or xs e \<and> seg T (Some x) xs e)"

lemma fst_or_simps [simp]:
  "fst_or [] e = e" "fst_or (x # xs) e = Some x"
  "fst_or (xs @ ys) e = fst_or xs (fst_or ys e)"
  by (simp_all add: fst_or_def split: list.split)

lemma lst_or_simps [simp]:
  "lst_or [] p = p" "lst_or (x # xs) p = lst_or xs (Some x)"
  "lst_or (xs @ ys) p = lst_or ys (lst_or xs p)"
  by (simp_all add: lst_or_def)

lemma seg_append [simp]:
  "seg T p (xs @ ys) e \<longleftrightarrow> seg T p xs (fst_or ys e) \<and> seg T (lst_or xs p) ys e"
  by (induction xs arbitrary: p) auto

lemma seg_cong:
  "\<forall>x \<in> set xs. prv (T x) = prv (U x) \<and> nxt (T x) = nxt (U x) \<Longrightarrow> seg T p xs e = seg U p xs e"
  by (induction xs arbitrary: p) auto

lemma seg_upd_other [simp]: "x \<notin> set xs \<Longrightarrow> seg (T(x := v)) p xs e = seg T p xs e"
  by (rule seg_cong) auto

lemma seg_upd_data:
  "prv v = prv (T x) \<Longrightarrow> nxt v = nxt (T x) \<Longrightarrow> seg (T(x := v)) p xs e = seg T p xs e"
  by (rule seg_cong) auto

text \<open>
  \<open>qrep T Q xs\<close>: the queue record \<open>Q\<close> represents the list \<open>xs\<close> of distinct table slots. The
  code keeps \<open>tail\<close> up to date only for queues of two and more processes; on a queue of one
  it is null or that process, and on an empty queue it is null.
\<close>

definition qrep :: "(nat \<Rightarrow> proc) \<Rightarrow> pqueue \<Rightarrow> nat list \<Rightarrow> bool" where
  "qrep T Q xs \<longleftrightarrow> distinct xs \<and> set xs \<subseteq> {..<NPROC} \<and> seg T None xs None \<and>
     head Q = fst_or xs None \<and> len Q = int (length xs) \<and>
     (if 2 \<le> length xs then tail Q = Some (last xs) else tail Q = None \<or> tail Q = lst_or xs None)"

text \<open>The abstract insertion: behind the first process, before the first one it overtakes.\<close>

primrec insert_overtaking :: "(nat \<Rightarrow> bool) \<Rightarrow> nat \<Rightarrow> nat list \<Rightarrow> nat list" where
  "insert_overtaking ov new [] = [new]"
| "insert_overtaking ov new (t # ts) =
     (if ov t then new # t # ts else t # insert_overtaking ov new ts)"

fun enqueue :: "(nat \<Rightarrow> bool) \<Rightarrow> nat \<Rightarrow> nat list \<Rightarrow> nat list" where
  "enqueue ov new [] = [new]"
| "enqueue ov new [h] = [h, new]"
| "enqueue ov new (h # t # ts) = h # insert_overtaking ov new (t # ts)"

lemma length_qrep: "qrep T Q xs \<Longrightarrow> length xs \<le> NPROC"
  using card_mono [of "{..<NPROC}" "set xs"] by (auto simp: qrep_def distinct_card)

lemma insert_overtaking_append:
  "(\<forall>u \<in> set us. \<not> ov u) \<Longrightarrow> insert_overtaking ov new (us @ ts) = us @ insert_overtaking ov new ts"
  by (induction us) auto

lemma split_overtaken:
  obtains "\<forall>t \<in> set ts. \<not> ov t" | us t vs where "ts = us @ t # vs" "\<forall>u \<in> set us. \<not> ov u" "ov t"
  by (metis split_list_first_prop)

section \<open>Claiming\<close>

lemma claim_proc_exec [exec_simps]:
  assumes "cpu_ok s" "locks s CheckLock = free_lock"
  shows "claim_proc p c s = (if queue_mask (ptable s p) AND IN_QUEUE = 0
    then Done True ((cli_touch s)\<lparr>ptable := (ptable s)(p := (ptable s p)\<lparr>
      queue_mask := queue_mask (ptable s p) OR IN_QUEUE, curr_cpu := c\<rparr>)\<rparr>)
    else Done False (cli_touch s))"
  using assms cpu_ok_ncli [OF assms(1)]
  by (simp add: claim_proc_def exec_simps fun_upd_idem)

definition unclaimed :: "proc \<Rightarrow> proc" where
  "unclaimed p = (if queue_mask p AND IN_QUEUE \<noteq> 0
     then p\<lparr>queue_mask := queue_mask p AND NOT IN_QUEUE, curr_cpu := NOCPU, curr := None\<rparr> else p)"

lemma unclaim_proc_exec [exec_simps]:
  assumes "cpu_ok s" "locks s CheckLock = free_lock"
  shows "unclaim_proc p s = Done (queue_mask (ptable s p) AND IN_QUEUE \<noteq> 0)
    ((cli_touch s)\<lparr>ptable := (ptable s)(p := unclaimed (ptable s p))\<rparr>)"
  using assms cpu_ok_ncli [OF assms(1)]
  by (simp add: unclaim_proc_def exec_simps fun_upd_idem unclaimed_def)

lemma unclaimed_simps [simp]:
  "nxt (unclaimed p) = nxt p" "prv (unclaimed p) = prv p" "state (unclaimed p) = state p"
  "unclaimed (p\<lparr>nxt := a\<rparr>) = (unclaimed p)\<lparr>nxt := a\<rparr>"
  "unclaimed (p\<lparr>prv := a\<rparr>) = (unclaimed p)\<lparr>prv := a\<rparr>"
  by (cases p, simp add: unclaimed_def)+

section \<open>Insertion\<close>

definition unlinked :: "proc \<Rightarrow> proc" where
  "unlinked p = p\<lparr>nxt := None, prv := None\<rparr>"

lemma unlinked_simps [simp]:
  "unlinked (p\<lparr>nxt := a\<rparr>) = unlinked p" "unlinked (p\<lparr>prv := a\<rparr>) = unlinked p"
  "unlinked (p\<lparr>curr := c\<rparr>) = (unlinked p)\<lparr>curr := c\<rparr>"
  by (cases p, simp add: unlinked_def)+

text \<open>The locked state in which the body of a queue operation runs.\<close>

abbreviation in_section :: "qid \<Rightarrow> 'a kernel_scheme \<Rightarrow> 'a kernel_scheme" where
  "in_section q s \<equiv> (cli_enter s)\<lparr>locks := (locks s)(QLock q := held_by (this_cpu s))\<rparr>"

lemma insert_scan_none:
  "\<lbrakk>seg (ptable s) p ts None; \<forall>t \<in> set ts. \<not> overtakes (ptable s new) (ptable s t);
    length ts < fuel\<rbrakk>
   \<Longrightarrow> insert_scan fuel new q (fst_or ts None) s = Done False s"
proof (induction fuel arbitrary: p ts)
  case 0
  then show ?case by simp
next
  case (Suc fuel)
  show ?case
  proof (cases ts)
    case Nil
    then show ?thesis by (simp add: exec_simps)
  next
    case (Cons t us)
    with Suc.prems Suc.IH [of "Some t" us] show ?thesis by (simp add: exec_simps)
  qed
qed

lemma insert_scan_some:
  "\<lbrakk>seg (ptable s) p (us @ t # vs) None; \<forall>u \<in> set us. \<not> overtakes (ptable s new) (ptable s u);
    overtakes (ptable s new) (ptable s t); length us < fuel\<rbrakk>
   \<Longrightarrow> insert_scan fuel new q (fst_or (us @ t # vs) None) s
     = bind (link_before new t q) (\<lambda>_. return True) s"
proof (induction fuel arbitrary: p us)
  case 0
  then show ?case by simp
next
  case (Suc fuel)
  show ?case
  proof (cases us)
    case Nil
    with Suc.prems show ?thesis by (simp add: exec_simps split: outcome.split)
  next
    case (Cons u ws)
    with Suc.prems Suc.IH [of "Some u" ws] show ?thesis by (simp add: exec_simps)
  qed
qed

lemma link_before_exec:
  assumes ok: "cpu_ok s" and free: "locks s (QLock q) = free_lock"
    and t: "prv (ptable s t) = Some b" and ne: "new \<noteq> t" "new \<noteq> b" "b \<noteq> t"
  shows "link_before new t q (in_section q s) = Done () ((cli_touch s)\<lparr>
      ptable := (ptable s)(new := (ptable s new)\<lparr>prv := Some b, nxt := Some t, curr := Some q\<rparr>,
        b := (ptable s b)\<lparr>nxt := Some new\<rparr>, t := (ptable s t)\<lparr>prv := Some new\<rparr>),
      queues := (queues s)(q := (queues s q)\<lparr>len := len (queues s q) + 1\<rparr>)\<rparr>)"
  using assms cpu_ok_ncli [OF ok]
  by (simp add: link_before_def exec_simps fun_upd_idem fun_upd_twist)

lemma qrep_insert_empty:
  assumes "qrep T Q []" "new < NPROC" "prv v = None" "nxt v = None"
  shows "qrep (T(new := v)) (Q\<lparr>head := Some new, len := len Q + 1\<rparr>) [new]"
  using assms by (auto simp: qrep_def)

lemma qrep_insert_last:
  assumes "qrep T Q (as @ [b])" "new < NPROC" "new \<notin> set (as @ [b])"
    and "prv v = Some b" "nxt v = None" "prv w = prv (T b)" "nxt w = Some new"
  shows "qrep (T(b := w, new := v)) (Q\<lparr>tail := Some new, len := len Q + 1\<rparr>) (as @ [b, new])"
  using assms by (auto simp: qrep_def)

lemma qrep_insert_mid:
  assumes "qrep T Q (as @ b # t # vs)" "new < NPROC" "new \<notin> set (as @ b # t # vs)"
    and "prv v = Some b" "nxt v = Some t" "prv w = prv (T b)" "nxt w = Some new"
    and "prv u = Some new" "nxt u = nxt (T t)"
  shows "qrep (T(new := v, b := w, t := u)) (Q\<lparr>len := len Q + 1\<rparr>) (as @ b # new # t # vs)"
  using assms by (auto simp: qrep_def)

text \<open>The precondition shared by the insertion lemmas.\<close>

definition can_insert :: "nat \<Rightarrow> qid \<Rightarrow> 'a kernel_scheme \<Rightarrow> bool" where
  "can_insert new q s \<longleftrightarrow> cpu_ok s \<and> locks s (QLock q) = free_lock \<and> valid_qid q \<and>
     new < NPROC \<and> state (ptable s new) \<noteq> RUNNING \<and> curr (ptable s new) \<noteq> Some q"

lemma insert_empty_exec:
  assumes "can_insert new q s" "head (queues s q) = None"
  shows "insert_proc_into_queue new (Some q) s = Done () ((cli_touch s)\<lparr>
    ptable := (ptable s)(new := (ptable s new)\<lparr>nxt := None, prv := None, curr := Some q\<rparr>),
    queues := (queues s)(q := (queues s q)\<lparr>head := Some new, len := len (queues s q) + 1\<rparr>)\<rparr>)"
  using assms cpu_ok_ncli [of s]
  by (simp add: insert_proc_into_queue_def can_insert_def is_proc_queued_def exec_simps
      fun_upd_idem fun_upd_twist)

lemma insert_second_exec:
  assumes "can_insert new q s" "head (queues s q) = Some h" "nxt (ptable s h) = None" "h \<noteq> new"
  shows "insert_proc_into_queue new (Some q) s = Done () ((cli_touch s)\<lparr>
    ptable := (ptable s)(h := (ptable s h)\<lparr>nxt := Some new\<rparr>,
      new := (ptable s new)\<lparr>nxt := None, prv := Some h, curr := Some q\<rparr>),
    queues := (queues s)(q := (queues s q)\<lparr>tail := Some new, len := len (queues s q) + 1\<rparr>)\<rparr>)"
  using assms cpu_ok_ncli [of s]
  by (simp add: insert_proc_into_queue_def can_insert_def is_proc_queued_def exec_simps
      fun_upd_idem fun_upd_twist)

lemma insert_scanning_exec:
  assumes "can_insert new q s" "head (queues s q) = Some h" "nxt (ptable s h) = Some t"
  shows "insert_proc_into_queue new (Some q) s =
    (case insert_scan (Suc NPROC) new q (Some t) (in_section q s) of
       Done linked u \<Rightarrow> (if linked then Done () u else
         bind (queue_at q) (\<lambda>pq. deref (tail pq) (\<lambda>t. seqs [
           upd_proc t (\<lambda>x. x\<lparr>nxt := Some new\<rparr>),
           upd_proc new (\<lambda>x. x\<lparr>prv := Some t\<rparr>),
           upd_proc new (\<lambda>x. x\<lparr>nxt := None\<rparr>),
           upd_queue q (\<lambda>x. x\<lparr>tail := Some new\<rparr>),
           upd_queue q (\<lambda>x. x\<lparr>len := len x + 1\<rparr>),
           upd_proc new (\<lambda>x. x\<lparr>curr := Some q\<rparr>),
           release (QLock q)])) u)
     | Fail e \<Rightarrow> Fail e | Blocked u \<Rightarrow> Blocked u)"
  using assms
  by (simp add: insert_proc_into_queue_def can_insert_def is_proc_queued_def exec_simps
      del: insert_scan.simps split: outcome.split)

lemma insert_last_exec:
  assumes can: "can_insert new q s" and q: "qrep (ptable s) (queues s q) (h # us @ [b])"
    and new: "new \<notin> set (h # us @ [b])"
    and none: "\<forall>t \<in> set (us @ [b]). \<not> overtakes (ptable s new) (ptable s t)"
  shows "insert_proc_into_queue new (Some q) s = Done () ((cli_touch s)\<lparr>
    ptable := (ptable s)(b := (ptable s b)\<lparr>nxt := Some new\<rparr>,
      new := (ptable s new)\<lparr>prv := Some b, nxt := None, curr := Some q\<rparr>),
    queues := (queues s)(q := (queues s q)\<lparr>tail := Some new, len := len (queues s q) + 1\<rparr>)\<rparr>)"
proof -
  let ?t = "in_section q s"
  obtain t where t: "fst_or (us @ [b]) None = Some t" by (cases us) auto
  have h: "head (queues s q) = Some h" "nxt (ptable s h) = Some t"
    "tail (queues s q) = Some b" "seg (ptable s) (Some h) (us @ [b]) None"
    using q t by (auto simp: qrep_def)
  have "insert_scan (Suc NPROC) new q (fst_or (us @ [b]) None) ?t = Done False ?t"
    by (rule insert_scan_none [where p = "Some h"])
       (use h none length_qrep [OF q] in auto)
  then have "insert_scan (Suc NPROC) new q (Some t) ?t = Done False ?t"
    by (simp only: t)
  moreover have "b \<noteq> new" using new by auto
  ultimately show ?thesis
    using can h cpu_ok_ncli [of s]
    by (simp add: insert_scanning_exec [OF can h(1,2)] can_insert_def exec_simps
        fun_upd_idem fun_upd_twist del: insert_scan.simps)
qed

lemma insert_mid_exec:
  assumes can: "can_insert new q s" and q: "qrep (ptable s) (queues s q) (as @ b # t # vs)"
    and as: "as @ [b] = h # us"
    and new: "new \<notin> set (as @ b # t # vs)"
    and none: "\<forall>u \<in> set us. \<not> overtakes (ptable s new) (ptable s u)"
    and ov: "overtakes (ptable s new) (ptable s t)"
  shows "insert_proc_into_queue new (Some q) s = Done () ((cli_touch s)\<lparr>
    ptable := (ptable s)(new := (ptable s new)\<lparr>prv := Some b, nxt := Some t, curr := Some q\<rparr>,
      b := (ptable s b)\<lparr>nxt := Some new\<rparr>, t := (ptable s t)\<lparr>prv := Some new\<rparr>),
    queues := (queues s)(q := (queues s q)\<lparr>len := len (queues s q) + 1\<rparr>)\<rparr>)"
proof -
  let ?u = "in_section q s"
  have xs: "as @ b # t # vs = h # us @ t # vs" using as by (metis append.assoc append_Cons append_Nil)
  obtain t' where t': "fst_or (us @ t # vs) None = Some t'" by (cases us) auto
  have h: "head (queues s q) = Some h" "nxt (ptable s h) = Some t'"
    "seg (ptable s) (Some h) (us @ t # vs) None"
    using q t' by (auto simp: qrep_def xs)
  have "prv (ptable s t) = Some b" "b \<noteq> t" using q by (auto simp: qrep_def)
  moreover have "new \<noteq> t" "new \<noteq> b" using new by auto
  moreover have "length us < Suc NPROC" using length_qrep [OF q] xs by simp
  then have "insert_scan (Suc NPROC) new q (fst_or (us @ t # vs) None) ?u
      = bind (link_before new t q) (\<lambda>_. return True) ?u"
    by (intro insert_scan_some [where p = "Some h"]) (use h none ov in auto)
  then have "insert_scan (Suc NPROC) new q (Some t') ?u
      = bind (link_before new t q) (\<lambda>_. return True) ?u"
    by (simp only: t')
  ultimately show ?thesis
    using can by (simp add: insert_scanning_exec [OF can h(1,2)] can_insert_def exec_simps
        link_before_exec del: insert_scan.simps)
qed

lemma queue_refinesI:
  "\<lbrakk>m = Done () (t\<lparr>ptable := T, queues := R(q := Q)\<rparr>); qrep T Q ys; P T; P' T\<rbrakk>
   \<Longrightarrow> \<exists>T Q. m = Done () (t\<lparr>ptable := T, queues := R(q := Q)\<rparr>) \<and> qrep T Q ys \<and> P T \<and> P' T"
  by blast

lemma insert_proc_into_queue_refines:
  assumes can: "can_insert new q s" and q: "qrep (ptable s) (queues s q) xs" and new: "new \<notin> set xs"
  shows "\<exists>T Q. insert_proc_into_queue new (Some q) s
      = Done () ((cli_touch s)\<lparr>ptable := T, queues := (queues s)(q := Q)\<rparr>)
    \<and> qrep T Q (enqueue (\<lambda>t. overtakes (ptable s new) (ptable s t)) new xs)
    \<and> (\<forall>p. unlinked (T p) =
         (if p = new then (unlinked (ptable s p))\<lparr>curr := Some q\<rparr> else unlinked (ptable s p)))
    \<and> (\<forall>p. p \<notin> set xs \<longrightarrow> p \<noteq> new \<longrightarrow> T p = ptable s p)"
proof (cases xs)
  case Nil
  then have h: "head (queues s q) = None" using q by (simp add: qrep_def)
  show ?thesis
    by (rule queue_refinesI [OF insert_empty_exec [OF can h]])
       (use can q Nil in \<open>auto simp: can_insert_def intro!: qrep_insert_empty\<close>)
next
  case (Cons h ts)
  have bound: "new < NPROC" using can by (simp add: can_insert_def)
  let ?ov = "\<lambda>t. overtakes (ptable s new) (ptable s t)"
  consider "ts = []" | us b where "ts = us @ [b]" "\<forall>t \<in> set ts. \<not> ?ov t"
    | us t vs where "ts = us @ t # vs" "\<forall>u \<in> set us. \<not> ?ov u" "?ov t"
    using split_overtaken [of ts ?ov] rev_exhaust [of ts] by metis
  then show ?thesis
  proof cases
    case 1
    then have h: "head (queues s q) = Some h" "nxt (ptable s h) = None" "h \<noteq> new"
      using q new Cons by (auto simp: qrep_def)
    show ?thesis
      by (rule queue_refinesI [OF insert_second_exec [OF can h]])
         (use 1 q new Cons bound qrep_insert_last [of "ptable s" "queues s q" "[]" h new] in auto)
  next
    case (2 us b)
    then have "enqueue ?ov new xs = (h # us) @ [b, new]"
      using Cons insert_overtaking_append [of "us @ [b]" ?ov new "[]"] by (cases us) auto
    moreover have "insert_proc_into_queue new (Some q) s = Done () ((cli_touch s)\<lparr>
      ptable := (ptable s)(b := (ptable s b)\<lparr>nxt := Some new\<rparr>,
        new := (ptable s new)\<lparr>prv := Some b, nxt := None, curr := Some q\<rparr>),
      queues := (queues s)(q := (queues s q)\<lparr>tail := Some new, len := len (queues s q) + 1\<rparr>)\<rparr>)"
      using insert_last_exec [OF can, of h us b] q new Cons 2 by simp
    ultimately show ?thesis
      using q new Cons 2 bound qrep_insert_last [of "ptable s" "queues s q" "h # us" b new]
      by (intro queue_refinesI) auto
  next
    case (3 us t vs)
    obtain as b where as: "as @ [b] = h # us" by (metis rev_exhaust list.distinct(1))
    then have xs: "xs = as @ b # t # vs"
      using Cons 3 by (metis append.assoc append_Cons append_Nil)
    have "enqueue ?ov new xs = h # us @ new # t # vs"
      using Cons 3 insert_overtaking_append [of us ?ov new "t # vs"] by (cases us) auto
    also have "\<dots> = as @ b # new # t # vs"
      using as by (metis append.assoc append_Cons append_Nil)
    finally have "enqueue ?ov new xs = as @ b # new # t # vs" .
    moreover have "insert_proc_into_queue new (Some q) s = Done () ((cli_touch s)\<lparr>
      ptable := (ptable s)(new := (ptable s new)\<lparr>prv := Some b, nxt := Some t, curr := Some q\<rparr>,
        b := (ptable s b)\<lparr>nxt := Some new\<rparr>, t := (ptable s t)\<lparr>prv := Some new\<rparr>),
      queues := (queues s)(q := (queues s q)\<lparr>len := len (queues s q) + 1\<rparr>)\<rparr>)"
      using insert_mid_exec [OF can, of as b t vs h us] as q new xs 3 by simp
    ultimately show ?thesis
      using q new xs 3 bound qrep_insert_mid [of "ptable s" "queues s q" as b t vs new]
      by (intro queue_refinesI) auto
  qed
qed

section \<open>Removal\<close>

lemma remove_scan_found:
  "\<lbrakk>seg (ptable s) p (us @ old # vs) None; old \<notin> set us; length us < fuel\<rbrakk>
   \<Longrightarrow> remove_scan fuel old q (fst_or (us @ old # vs) None) s = unlink_found old q s"
proof (induction fuel arbitrary: p us)
  case 0
  then show ?case by simp
next
  case (Suc fuel)
  show ?case
  proof (cases us)
    case Nil
    then show ?thesis by simp
  next
    case (Cons u ws)
    with Suc.prems Suc.IH [of "Some u" ws] show ?thesis by (simp add: exec_simps)
  qed
qed

lemma remove_scan_missing:
  "\<lbrakk>seg (ptable s) p us None; old \<notin> set us; length us < fuel\<rbrakk>
   \<Longrightarrow> remove_scan fuel old q (fst_or us None) s = Done () s"
proof (induction fuel arbitrary: p us)
  case 0
  then show ?case by simp
next
  case (Suc fuel)
  show ?case
  proof (cases us)
    case Nil
    then show ?thesis by (simp add: exec_simps)
  next
    case (Cons u ws)
    with Suc.prems Suc.IH [of "Some u" ws] show ?thesis by (auto simp: exec_simps)
  qed
qed

text \<open>The precondition shared by the removal lemmas.\<close>

definition can_remove :: "nat \<Rightarrow> qid \<Rightarrow> 'a kernel_scheme \<Rightarrow> bool" where
  "can_remove old q s \<longleftrightarrow> cpu_ok s \<and> locks s (QLock q) = free_lock \<and>
     locks s CheckLock = free_lock \<and> valid_qid q \<and> state (ptable s old) \<noteq> RUNNING"

lemma unlink_found_exec:
  assumes "can_remove t q s" and "prv (ptable s t) = Some b" "b \<noteq> t" "nxt (ptable s t) \<noteq> Some t"
    "nxt (ptable s t) \<noteq> Some b"
  shows "unlink_found t q (in_section q s) = Done () ((cli_touch s)\<lparr>
    ptable := (case nxt (ptable s t) of
        None \<Rightarrow> (ptable s)(b := (ptable s b)\<lparr>nxt := None\<rparr>)
      | Some a \<Rightarrow> (ptable s)(b := (ptable s b)\<lparr>nxt := Some a\<rparr>, a := (ptable s a)\<lparr>prv := Some b\<rparr>))
        (t := (unclaimed (ptable s t))\<lparr>nxt := None, prv := None\<rparr>),
    queues := (queues s)(q := (if nxt (ptable s t) = None
      then (queues s q)\<lparr>tail := Some b, len := len (queues s q) - 1\<rparr>
      else (queues s q)\<lparr>len := len (queues s q) - 1\<rparr>))\<rparr>)"
  using assms cpu_ok_ncli [of s]
  by (cases "nxt (ptable s t)")
     (simp_all add: unlink_found_def can_remove_def exec_simps fun_upd_idem [of "locks s"])

lemma remove_head_exec:
  assumes "can_remove old q s" "head (queues s q) = Some old" "nxt (ptable s old) \<noteq> Some old"
  shows "remove_proc_from_queue old (Some q) s = Done () ((cli_touch s)\<lparr>
    ptable := (case nxt (ptable s old) of
        None \<Rightarrow> ptable s
      | Some a \<Rightarrow> (ptable s)(a := (ptable s a)\<lparr>prv := None\<rparr>))
        (old := (unclaimed (ptable s old))\<lparr>nxt := None, prv := None\<rparr>),
    queues := (queues s)(q := (if nxt (ptable s old) = None
      then (queues s q)\<lparr>head := None, tail := None, len := len (queues s q) - 1\<rparr>
      else (queues s q)\<lparr>head := nxt (ptable s old), len := len (queues s q) - 1\<rparr>))\<rparr>)"
  using assms cpu_ok_ncli [of s]
  by (cases "nxt (ptable s old)")
     (simp_all add: remove_proc_from_queue_def can_remove_def exec_simps fun_upd_idem [of "locks s"])

lemma remove_mid_exec:
  assumes can: "can_remove old q s" and q: "qrep (ptable s) (queues s q) (as @ b # old # vs)"
  shows "remove_proc_from_queue old (Some q) s = unlink_found old q (in_section q s)"
proof -
  let ?t = "in_section q s"
  have d: "old \<notin> set (as @ [b])" "length (as @ [b]) < Suc NPROC"
    using q length_qrep [OF q] by (auto simp: qrep_def)
  have h: "head (queues s q) = fst_or ((as @ [b]) @ old # vs) None" "head (queues s q) \<noteq> Some old"
    "seg (ptable s) None ((as @ [b]) @ old # vs) None"
    using q by (cases as; auto simp: qrep_def)+
  obtain h' where h': "head (queues s q) = Some h'" using h(1) by (cases as) auto
  have "remove_scan (Suc NPROC) old q (fst_or ((as @ [b]) @ old # vs) None) ?t = unlink_found old q ?t"
    by (rule remove_scan_found [where p = None]) (use d h in auto)
  then have "remove_scan (Suc NPROC) old q (Some h') ?t = unlink_found old q ?t"
    by (simp only: h(1) [symmetric] h')
  then show ?thesis
    using can h(2) h' by (simp add: remove_proc_from_queue_def can_remove_def exec_simps
        del: remove_scan.simps)
qed

lemma qrep_remove_head:
  assumes "qrep T Q (old # xs)" "prv v = None" "nxt v = None"
  shows "qrep ((case nxt (T old) of None \<Rightarrow> T | Some a \<Rightarrow> T(a := (T a)\<lparr>prv := None\<rparr>))(old := v))
    (if nxt (T old) = None then Q\<lparr>head := None, tail := None, len := len Q - 1\<rparr>
     else Q\<lparr>head := nxt (T old), len := len Q - 1\<rparr>) xs"
  using assms by (cases xs; cases "tl xs") (auto simp: qrep_def lst_or_def)

lemma qrep_remove_mid:
  assumes "qrep T Q (as @ b # old # vs)" "prv v = None" "nxt v = None"
  shows "qrep ((case nxt (T old) of
        None \<Rightarrow> T(b := (T b)\<lparr>nxt := None\<rparr>)
      | Some a \<Rightarrow> T(b := (T b)\<lparr>nxt := Some a\<rparr>, a := (T a)\<lparr>prv := Some b\<rparr>))(old := v))
    (if nxt (T old) = None then Q\<lparr>tail := Some b, len := len Q - 1\<rparr>
     else Q\<lparr>len := len Q - 1\<rparr>) (as @ b # vs)"
  using assms by (cases vs; cases as) (auto simp: qrep_def)

lemma unlinked_unclaimed: "unlinked (unclaimed p) = unclaimed (unlinked p)"
  by (simp add: unlinked_def)

lemma remove_proc_from_queue_refines:
  assumes can: "can_remove old q s" and q: "qrep (ptable s) (queues s q) xs" and old: "old \<in> set xs"
  shows "\<exists>T Q. remove_proc_from_queue old (Some q) s
      = Done () ((cli_touch s)\<lparr>ptable := T, queues := (queues s)(q := Q)\<rparr>)
    \<and> qrep T Q (remove1 old xs)
    \<and> T old = (unclaimed (ptable s old))\<lparr>nxt := None, prv := None\<rparr>
    \<and> ((\<forall>p. p \<noteq> old \<longrightarrow> unlinked (T p) = unlinked (ptable s p))
       \<and> (\<forall>p. p \<notin> set xs \<longrightarrow> T p = ptable s p))"
proof (cases "\<exists>ys. xs = old # ys")
  case True
  then obtain ys where xs: "xs = old # ys" by blast
  have h: "head (queues s q) = Some old" "nxt (ptable s old) \<noteq> Some old"
    using q xs by (cases ys; auto simp: qrep_def)+
  have frame: "\<forall>a. nxt (ptable s old) = Some a \<longrightarrow> a \<in> set ys"
    using q xs by (cases ys) (auto simp: qrep_def)
  show ?thesis
    by (rule queue_refinesI [OF remove_head_exec [OF can h]])
       (use q xs frame qrep_remove_head [of "ptable s" "queues s q" old ys
          "(unclaimed (ptable s old))\<lparr>nxt := None, prv := None\<rparr>"]
        in \<open>auto split: option.split\<close>)
next
  case False
  then obtain as b vs where xs: "xs = as @ b # old # vs"
    using old by (metis split_list append_Nil append_butlast_last_id append.assoc append_Cons)
  have d: "prv (ptable s old) = Some b" "b \<noteq> old" "nxt (ptable s old) \<noteq> Some old"
    "nxt (ptable s old) \<noteq> Some b" "old \<notin> set as"
    using q xs by (cases vs; auto simp: qrep_def)+
  have frame: "\<forall>a. nxt (ptable s old) = Some a \<longrightarrow> a \<in> set vs"
    using q xs by (cases vs) (auto simp: qrep_def)
  have r: "remove1 old xs = as @ b # vs"
    using xs d by (simp add: remove1_append)
  have e: "remove_proc_from_queue old (Some q) s = unlink_found old q (in_section q s)"
    using remove_mid_exec [OF can] q xs by simp
  show ?thesis
    unfolding e
    by (rule queue_refinesI [OF unlink_found_exec [OF can d(1-4)]])
       (use q xs r frame qrep_remove_mid [of "ptable s" "queues s q" as b old vs
          "(unclaimed (ptable s old))\<lparr>nxt := None, prv := None\<rparr>"]
        in \<open>auto split: option.split\<close>)
qed

text \<open>
  A process that is not in a non-empty queue: nothing is removed, and the function returns
  with the queue lock held and interrupts off.
\<close>

lemma remove_missing_exec:
  assumes can: "can_remove old q s" and q: "qrep (ptable s) (queues s q) (h # xs)"
    and old: "old \<notin> set (h # xs)"
  shows "remove_proc_from_queue old (Some q) s = Done () (in_section q s)"
proof -
  let ?t = "in_section q s"
  have h: "head (queues s q) = Some h" "h \<noteq> old" "seg (ptable s) None (h # xs) None"
    using q old by (auto simp: qrep_def)
  have "remove_scan (Suc NPROC) old q (fst_or (h # xs) None) ?t = Done () ?t"
    by (rule remove_scan_missing [where p = None]) (use h old length_qrep [OF q] in auto)
  then show ?thesis
    using can h by (simp add: remove_proc_from_queue_def can_remove_def exec_simps
        del: remove_scan.simps)
qed

end
