(* ===== verification/Queue_Inv.thy ===== *)
theory Queue_Inv
  imports Queue
begin

text \<open>
  The process queues together: the invariant \<open>qinv\<close> over all queues, the order in which
  processes wait, the behaviour of \<open>purge_queue\<close>, \<open>shift_queue\<close> and the balancing of run
  queues, and the interface \<open>process_queues\<close> through which the scheduler uses them.
\<close>

section \<open>All queues together\<close>

text \<open>
  \<open>qinv s R\<close>: every queue \<open>q\<close> represents the list \<open>R q\<close>, and the processes in it record that
  they are there. A process is thus in at most one queue.
\<close>

definition qinv :: "'a kernel_scheme \<Rightarrow> (qid \<Rightarrow> nat list) \<Rightarrow> bool" where
  "qinv s R \<longleftrightarrow> (\<forall>q. valid_qid q \<longrightarrow> qrep (ptable s) (queues s q) (R q)
     \<and> (\<forall>p \<in> set (R q). curr (ptable s p) = Some q))"

definition queued :: "(qid \<Rightarrow> nat list) \<Rightarrow> nat \<Rightarrow> bool" where
  "queued R p \<longleftrightarrow> (\<exists>q. valid_qid q \<and> p \<in> set (R q))"

lemma qinv_disjoint:
  "\<lbrakk>qinv s R; valid_qid q; valid_qid q'; p \<in> set (R q); p \<in> set (R q')\<rbrakk> \<Longrightarrow> q = q'"
  unfolding qinv_def by (metis option.inject)

lemma qrep_cong:
  assumes "\<forall>p \<in> set xs. prv (T p) = prv (U p) \<and> nxt (T p) = nxt (U p)"
  shows "qrep T Q xs = qrep U Q xs"
  using seg_cong [OF assms] by (simp add: qrep_def)

lemma curr_unlinked: "curr (unlinked p) = curr p"
  by (cases p) (simp add: unlinked_def)

lemma set_insert_overtaking: "set (insert_overtaking ov new xs) = insert new (set xs)"
  by (induction xs) auto

lemma set_enqueue: "set (enqueue ov new xs) = insert new (set xs)"
  by (cases "(ov, new, xs)" rule: enqueue.cases) (auto simp: set_insert_overtaking)

text \<open>
  When an operation on queue \<open>q\<close> keeps the tables of the processes outside the queue and the
  recorded queue of all others, the invariant is kept.
\<close>

lemma qinv_upd:
  assumes inv: "qinv s R" and q: "valid_qid q" "qrep T Q ys"
    and frame: "\<forall>p. p \<notin> set (R q) \<longrightarrow> p \<noteq> x \<longrightarrow> T p = ptable s p"
    and x: "\<forall>q'. valid_qid q' \<longrightarrow> q' \<noteq> q \<longrightarrow> x \<notin> set (R q')"
    and ys: "\<forall>p \<in> set ys. curr (T p) = Some q"
    and t: "ptable t = T" "queues t = (queues s)(q := Q)"
  shows "qinv t (R(q := ys))"
  unfolding qinv_def
proof (intro allI impI)
  fix q' assume q': "valid_qid q'"
  show "qrep (ptable t) (queues t q') ((R(q := ys)) q')
      \<and> (\<forall>p \<in> set ((R(q := ys)) q'). curr (ptable t p) = Some q')"
  proof (cases "q' = q")
    case True
    with q ys t show ?thesis by simp
  next
    case False
    have same: "\<forall>p \<in> set (R q'). T p = ptable s p"
      using frame x q' False qinv_disjoint [OF inv q' q(1)] by metis
    then have "qrep T (queues s q') (R q')"
      using inv q' qrep_cong [of "R q'" T "ptable s"] by (simp add: qinv_def)
    then show ?thesis using same inv q' t False by (simp add: qinv_def)
  qed
qed

lemma insert_qinv:
  assumes inv: "qinv s R" and can: "can_insert new q s" and new: "\<not> queued R new"
  shows "\<exists>T Q t. insert_proc_into_queue new (Some q) s = Done () t
    \<and> t = (cli_touch s)\<lparr>ptable := T, queues := (queues s)(q := Q)\<rparr>
    \<and> qinv t (R(q := enqueue (\<lambda>t. overtakes (ptable s new) (ptable s t)) new (R q)))
    \<and> (\<forall>p. unlinked (T p) =
         (if p = new then (unlinked (ptable s p))\<lparr>curr := Some q\<rparr> else unlinked (ptable s p)))"
proof -
  have q: "valid_qid q" "qrep (ptable s) (queues s q) (R q)" "new \<notin> set (R q)"
    using inv can new by (auto simp: qinv_def can_insert_def queued_def)
  obtain T Q where e: "insert_proc_into_queue new (Some q) s
      = Done () ((cli_touch s)\<lparr>ptable := T, queues := (queues s)(q := Q)\<rparr>)"
    and r: "qrep T Q (enqueue (\<lambda>t. overtakes (ptable s new) (ptable s t)) new (R q))"
    and u: "\<forall>p. unlinked (T p) =
         (if p = new then (unlinked (ptable s p))\<lparr>curr := Some q\<rparr> else unlinked (ptable s p))"
    and f: "\<forall>p. p \<notin> set (R q) \<longrightarrow> p \<noteq> new \<longrightarrow> T p = ptable s p"
    using insert_proc_into_queue_refines [OF can q(2,3)] by blast
  have c: "curr (T p) = (if p = new then Some q else curr (ptable s p))" for p
    using u [rule_format, of p] curr_unlinked [of "T p"] curr_unlinked [of "ptable s p"]
    by (auto split: if_splits)
  have "qinv ((cli_touch s)\<lparr>ptable := T, queues := (queues s)(q := Q)\<rparr>)
      (R(q := enqueue (\<lambda>t. overtakes (ptable s new) (ptable s t)) new (R q)))"
    by (rule qinv_upd [OF inv q(1) r f])
       (use new inv q(1) in \<open>auto simp: queued_def set_enqueue c qinv_def\<close>)
  with e u show ?thesis by blast
qed

lemma remove_qinv:
  assumes inv: "qinv s R" and can: "can_remove old q s" and old: "old \<in> set (R q)"
  shows "\<exists>T Q t. remove_proc_from_queue old (Some q) s = Done () t
    \<and> t = (cli_touch s)\<lparr>ptable := T, queues := (queues s)(q := Q)\<rparr>
    \<and> qinv t (R(q := remove1 old (R q)))
    \<and> T old = (unclaimed (ptable s old))\<lparr>nxt := None, prv := None\<rparr>
    \<and> (\<forall>p. p \<noteq> old \<longrightarrow> unlinked (T p) = unlinked (ptable s p))"
proof -
  have q: "valid_qid q" "qrep (ptable s) (queues s q) (R q)" "distinct (R q)"
    using inv can by (auto simp: qinv_def can_remove_def qrep_def)
  obtain T Q where e: "remove_proc_from_queue old (Some q) s
      = Done () ((cli_touch s)\<lparr>ptable := T, queues := (queues s)(q := Q)\<rparr>)"
    and r: "qrep T Q (remove1 old (R q))"
    and o: "T old = (unclaimed (ptable s old))\<lparr>nxt := None, prv := None\<rparr>"
    and u: "\<forall>p. p \<noteq> old \<longrightarrow> unlinked (T p) = unlinked (ptable s p)"
    and f: "\<forall>p. p \<notin> set (R q) \<longrightarrow> T p = ptable s p"
    using remove_proc_from_queue_refines [OF can q(2) old] by blast
  have c: "p \<noteq> old \<Longrightarrow> curr (T p) = curr (ptable s p)" for p
    using u curr_unlinked by metis
  have "qinv ((cli_touch s)\<lparr>ptable := T, queues := (queues s)(q := Q)\<rparr>) (R(q := remove1 old (R q)))"
    by (rule qinv_upd [OF inv q(1) r, where x = old])
       (use f q inv old in \<open>auto simp: c qinv_def dest: qinv_disjoint [OF inv]\<close>)
  with e o u show ?thesis by blast
qed

section \<open>Order of the queue\<close>

lemma enqueue_distinct: "distinct xs \<Longrightarrow> new \<notin> set xs \<Longrightarrow> distinct (enqueue ov new xs)"
proof -
  have "distinct ys \<Longrightarrow> new \<notin> set ys \<Longrightarrow> distinct (insert_overtaking ov new ys)" for ys
    by (induction ys) (auto simp: set_insert_overtaking)
  then show "distinct xs \<Longrightarrow> new \<notin> set xs \<Longrightarrow> distinct (enqueue ov new xs)"
    by (cases "(ov, new, xs)" rule: enqueue.cases) (auto simp: set_insert_overtaking)
qed

lemma enqueue_keeps_order:
  assumes "new \<notin> set xs"
  shows "filter (\<lambda>p. p \<noteq> new) (enqueue ov new xs) = xs"
proof -
  have i: "new \<notin> set ys \<Longrightarrow> filter (\<lambda>p. p \<noteq> new) (insert_overtaking ov new ys) = ys" for ys
    by (induction ys) (auto simp: filter_id_conv)
  show ?thesis
    using assms i by (cases "(ov, new, xs)" rule: enqueue.cases) (auto simp del: insert_overtaking.simps)
qed

text \<open>Behind the first process a queue is sorted by falling priority.\<close>

definition pri_sorted :: "(nat \<Rightarrow> proc) \<Rightarrow> nat list \<Rightarrow> bool" where
  "pri_sorted T xs \<longleftrightarrow> sorted_wrt (\<lambda>a b. p_pri (T b) \<le>s p_pri (T a)) xs"

lemma insert_overtaking_sorted:
  assumes "pri_sorted T xs" "\<forall>t. ov t \<longleftrightarrow> p_pri (T t) <s p_pri (T new)"
  shows "pri_sorted T (insert_overtaking ov new xs)"
  using assms
proof (induction xs)
  case Nil
  then show ?case by (simp add: pri_sorted_def)
next
  case (Cons t ts)
  then show ?case
    by (auto simp: pri_sorted_def set_insert_overtaking word_sless_alt word_sle_eq intro: order_trans)
qed

lemma enqueue_sorted:
  assumes "pri_sorted T (tl xs)" "\<forall>t. ov t \<longleftrightarrow> p_pri (T t) <s p_pri (T new)"
  shows "pri_sorted T (tl (enqueue ov new xs))"
proof (cases "(ov, new, xs)" rule: enqueue.cases)
  case (3 ov' new' h t ts)
  then show ?thesis using insert_overtaking_sorted [OF assms] by simp
qed (simp_all add: pri_sorted_def)

section \<open>Purging\<close>

lemma purge_loop_runnable:
  "\<lbrakk>seg (ptable s) p us e; \<forall>u \<in> set us. state (ptable s u) = RUNNABLE; length us \<le> fuel\<rbrakk>
   \<Longrightarrow> purge_loop fuel q (fst_or us e) s = purge_loop (fuel - length us) q e s"
proof (induction us arbitrary: p fuel)
  case Nil
  then show ?case by simp
next
  case (Cons u us)
  then obtain f where f: "fuel = Suc f" by (cases fuel) auto
  with Cons.prems Cons.IH [of "Some u" f] show ?case by (simp add: exec_simps)
qed

lemma in_section_cycle:
  assumes "can_remove p q s" "remove_proc_from_queue p (Some q) (cli_touch s) = Done () t"
    "cpu_ok t" "locks t = locks s"
  shows "seqs [release (QLock q), remove_proc_from_queue p (Some q), acquire (QLock q)] (in_section q s)
    = Done () (in_section q t)"
  using assms cpu_ok_ncli [of s] by (simp add: can_remove_def exec_simps fun_upd_idem)

text \<open>Every process is runnable: nothing happens.\<close>

lemma purge_queue_all_runnable:
  assumes ok: "cpu_ok s" "locks s (QLock q) = free_lock" "valid_qid q"
    and q: "qrep (ptable s) (queues s q) xs" and r: "\<forall>x \<in> set xs. state (ptable s x) = RUNNABLE"
  shows "purge_queue q s = Done () (cli_touch s)"
proof -
  have "purge_loop (Suc NPROC) q (fst_or xs None) (in_section q s)
      = purge_loop (Suc NPROC - length xs) q None (in_section q s)"
    by (rule purge_loop_runnable [where p = None]) (use q r length_qrep [OF q] in \<open>auto simp: qrep_def\<close>)
  moreover obtain k where "Suc NPROC - length xs = Suc k"
    using length_qrep [OF q] by (metis Suc_diff_le)
  ultimately show ?thesis
    using ok q cpu_ok_ncli [OF ok(1)]
    by (simp add: purge_queue_def exec_simps fun_upd_idem qrep_def del: purge_loop.simps(2))
       (simp add: exec_simps fun_upd_idem)
qed

text \<open>
  Otherwise the first process that is not runnable is removed. Its links are cleared by the
  removal, which ends the loop: the processes behind it are not looked at.
\<close>

lemma purge_queue_first:
  assumes ok: "cpu_ok s" "locks s (QLock q) = free_lock" "locks s CheckLock = free_lock" "valid_qid q"
    and q: "qrep (ptable s) (queues s q) (us @ p # vs)"
    and r: "\<forall>u \<in> set us. state (ptable s u) = RUNNABLE" "state (ptable s p) \<notin> {RUNNABLE, RUNNING}"
  shows "\<exists>T Q. purge_queue q s = Done () ((cli_touch s)\<lparr>ptable := T, queues := (queues s)(q := Q)\<rparr>)
    \<and> qrep T Q (us @ vs)
    \<and> T p = (unclaimed (ptable s p))\<lparr>nxt := None, prv := None\<rparr>
    \<and> ((\<forall>x. x \<noteq> p \<longrightarrow> unlinked (T x) = unlinked (ptable s x))
       \<and> (\<forall>x. x \<notin> set (us @ p # vs) \<longrightarrow> T x = ptable s x))"
proof -
  let ?s = "cli_touch s"
  have can: "can_remove p q s" "can_remove p q ?s" using ok r by (auto simp: can_remove_def)
  have rm: "remove1 p (us @ p # vs) = us @ vs" using q by (simp add: qrep_def remove1_append)
  obtain T Q where e: "remove_proc_from_queue p (Some q) ?s
      = Done () (?s\<lparr>ptable := T, queues := (queues s)(q := Q)\<rparr>)"
    and r2: "qrep T Q (us @ vs)" "T p = (unclaimed (ptable s p))\<lparr>nxt := None, prv := None\<rparr>"
      "\<forall>x. x \<noteq> p \<longrightarrow> unlinked (T x) = unlinked (ptable s x)"
      "\<forall>x. x \<notin> set (us @ p # vs) \<longrightarrow> T x = ptable s x"
    using remove_proc_from_queue_refines [OF can(2), of "us @ p # vs"] q rm ok by auto
  let ?t = "?s\<lparr>ptable := T, queues := (queues s)(q := Q)\<rparr>"
  have c: "seqs [release (QLock q), remove_proc_from_queue p (Some q), acquire (QLock q)] (in_section q s)
      = Done () (in_section q ?t)"
    by (rule in_section_cycle [OF can(1) e]) (use ok in simp_all)
  have l: "purge_loop (Suc NPROC) q (fst_or us (Some p)) (in_section q s)
      = purge_loop (Suc NPROC - length us) q (Some p) (in_section q s)"
    by (rule purge_loop_runnable [where p = None]) (use q r length_qrep [OF q] in \<open>auto simp: qrep_def\<close>)
  obtain k where k: "Suc NPROC - length us = Suc (Suc k)"
    using length_qrep [OF q] by (intro that [of "NPROC - 1 - length us"]) auto
  have "purge_loop (Suc NPROC) q (fst_or us (Some p)) (in_section q s) = Done () (in_section q ?t)"
    unfolding l k using c r r2 by (simp add: exec_simps del: seqs.simps)
  moreover have "head (queues s q) = fst_or us (Some p)" using q by (simp add: qrep_def)
  ultimately have "purge_queue q s = Done () ?t"
    using ok cpu_ok_ncli [OF ok(1)]
    by (simp add: purge_queue_def exec_simps fun_upd_idem del: purge_loop.simps)
  with r2 show ?thesis by (intro exI [of _ T] exI [of _ Q]) simp
qed

section \<open>Shifting\<close>

lemma shift_empty_exec:
  assumes "cpu_ok s" "locks s (QLock q) = free_lock" "valid_qid q" "head (queues s q) = None"
  shows "shift_queue q s = Done () (cli_touch s)"
  using assms cpu_ok_ncli [OF assms(1)] by (simp add: shift_queue_def exec_simps fun_upd_idem)

lemma shift_running_exec:
  assumes "valid_qid q" "head (queues s q) = Some h" "state (ptable s h) = RUNNING"
  shows "shift_queue q s = Fail (Panic ''Removing running proc'')"
  using assms by (simp add: shift_queue_def exec_simps)

lemma shift_single_exec:
  assumes "can_remove h q s" "head (queues s q) = Some h" "nxt (ptable s h) = None"
  shows "shift_queue q s = Fail (Panic ''acquire'')"
  using assms cpu_ok_ncli [of s]
  by (simp add: can_remove_def shift_queue_def exec_simps fun_upd_idem remove_proc_from_queue_def
      acquire_held_exec)

lemma shift_long_exec:
  assumes "can_remove h q s" "head (queues s q) = Some h" "nxt (ptable s h) = Some n" "h \<noteq> n"
    "state (ptable s h) \<noteq> RUNNABLE"
  shows "shift_queue q s = (if tail (queues s q) = Some n then Fail (Panic ''head eq tail'')
    else Done () ((cli_touch s)\<lparr>
      ptable := (ptable s)(n := (ptable s n)\<lparr>prv := None\<rparr>,
        h := unclaimed ((ptable s h)\<lparr>nxt := None\<rparr>)),
      queues := (queues s)(q := (queues s q)\<lparr>head := Some n\<rparr>)\<rparr>))"
  using assms cpu_ok_ncli [of s]
  by (simp add: can_remove_def shift_queue_def exec_simps fun_upd_idem [of "locks s"])

section \<open>The queues as an interface\<close>

text \<open>
  What the scheduler relies on: insertion and removal act on the lists of queued processes,
  and leave everything a process does not use for queueing as it was (\<open>frame\<close>). \<open>hint p s\<close> is
  the queue that the process records; an insertion into that queue is refused.
\<close>

locale process_queues =
  fixes ins rem :: "nat \<Rightarrow> qid \<Rightarrow> ('s, unit) kmon"
    and lists :: "'s \<Rightarrow> (qid \<Rightarrow> nat list) \<Rightarrow> bool"
    and usable :: "nat \<Rightarrow> 's \<Rightarrow> bool"
    and hint :: "nat \<Rightarrow> 's \<Rightarrow> qid option"
    and ahead :: "'s \<Rightarrow> nat \<Rightarrow> nat \<Rightarrow> bool"
    and frame :: "'s \<Rightarrow> 's \<Rightarrow> bool"
  assumes ins_lists: "\<lbrakk>lists s R; usable p s; valid_qid q; \<not> queued R p; hint p s \<noteq> Some q\<rbrakk>
      \<Longrightarrow> \<exists>t. ins p q s = Done () t \<and> lists t (R(q := enqueue (ahead s p) p (R q)))
        \<and> hint p t = Some q \<and> frame s t"
    and rem_lists: "\<lbrakk>lists s R; usable p s; valid_qid q; p \<in> set (R q)\<rbrakk>
      \<Longrightarrow> \<exists>t. rem p q s = Done () t \<and> lists t (R(q := remove1 p (R q)))
        \<and> hint p t \<in> {None, Some q} \<and> frame s t"
    and once: "\<lbrakk>lists s R; valid_qid q; valid_qid q'; p \<in> set (R q); p \<in> set (R q')\<rbrakk> \<Longrightarrow> q = q'"
    and distinct_lists: "lists s R \<Longrightarrow> valid_qid q \<Longrightarrow> distinct (R q)"
    and frame_usable: "frame s t \<Longrightarrow> usable p s \<Longrightarrow> usable p t"
    and frame_ahead: "frame s t \<Longrightarrow> ahead t = ahead s"
    and frame_trans: "frame s t \<Longrightarrow> frame t u \<Longrightarrow> frame s u"
begin

lemma not_queued_removed:
  assumes "lists s R" "valid_qid q" "p \<in> set (R q)"
  shows "\<not> queued (R(q := remove1 p (R q))) p"
proof
  assume "queued (R(q := remove1 p (R q))) p"
  then obtain q' where q': "valid_qid q'" "p \<in> set ((R(q := remove1 p (R q))) q')"
    by (auto simp: queued_def)
  then show False
    using assms distinct_lists [OF assms(1,2)] once [OF assms(1) q'(1) assms(2), of p]
    by (cases "q' = q") auto
qed

text \<open>Removal followed by insertion elsewhere moves the process; no process is lost or doubled.\<close>

lemma move:
  assumes s: "lists s R" "usable p s" and q: "valid_qid q" "valid_qid q'" "q \<noteq> q'" "p \<in> set (R q)"
  shows "\<exists>t. bind (rem p q) (\<lambda>_. ins p q') s = Done () t
    \<and> lists t (R(q := remove1 p (R q), q' := enqueue (ahead s p) p (R q')))
    \<and> hint p t = Some q' \<and> frame s t"
proof -
  obtain u where u: "rem p q s = Done () u" "lists u (R(q := remove1 p (R q)))"
    "hint p u \<in> {None, Some q}" "frame s u"
    using rem_lists [OF s q(1,4)] by blast
  have h: "hint p u \<noteq> Some q'" using u(3) q(3) by auto
  obtain t where t: "ins p q' u = Done () t"
    "lists t ((R(q := remove1 p (R q)))(q' := enqueue (ahead u p) p ((R(q := remove1 p (R q))) q')))"
    "hint p t = Some q'" "frame u t"
    using ins_lists [OF u(2) frame_usable [OF u(4) s(2)] q(2) not_queued_removed [OF s(1) q(1,4)] h]
    by blast
  show ?thesis
    using u t q(3) frame_ahead [OF u(4)] frame_trans [OF u(4) t(4)] by (simp add: bind_def)
qed

lemma move_queued:
  assumes "p \<in> set (R q)" "valid_qid q" "valid_qid q'"
  shows "queued (R(q := remove1 p (R q), q' := enqueue ov p (R q'))) x \<longleftrightarrow> queued R x"
  using assms by (auto simp: queued_def set_enqueue split: if_splits dest: notin_set_remove1)
    (metis in_set_remove1)+

end

text \<open>The model's own operations: what is kept of a process when it changes queues.\<close>

definition proc_data :: "proc \<Rightarrow> proc" where
  "proc_data p = p\<lparr>queue_mask := 0, nxt := None, prv := None, curr_cpu := 0, curr := None\<rparr>"

definition queue_frame :: "'a kernel_scheme \<Rightarrow> 'a kernel_scheme \<Rightarrow> bool" where
  "queue_frame s t \<longleftrightarrow> cpu_ok s \<and> (\<exists>T Q. t = (cli_touch s)\<lparr>ptable := T, queues := Q\<rparr>
     \<and> (\<forall>p. proc_data (T p) = proc_data (ptable s p))
     \<and> (\<forall>p. curr_cpu (T p) = curr_cpu (ptable s p) \<or> curr_cpu (T p) = NOCPU))"

definition movable :: "nat \<Rightarrow> 'a kernel_scheme \<Rightarrow> bool" where
  "movable p s \<longleftrightarrow> cpu_ok s \<and> locks s CheckLock = free_lock
     \<and> (\<forall>q. valid_qid q \<longrightarrow> locks s (QLock q) = free_lock)
     \<and> p < NPROC \<and> state (ptable s p) \<noteq> RUNNING"

lemma proc_data_eqD:
  assumes "proc_data p = proc_data p'"
  shows "state p = state p'" "p_pri p = p_pri p'" "p_flag p = p_flag p'" "chan p = chan p'"
    "pid p = pid p'" "parent p = parent p'" "killed p = killed p'"
    "kstack p = kstack p'" "pgdir p = pgdir p'"
  using assms by (cases p; cases p'; simp add: proc_data_def)+

lemma proc_data_simps [simp]:
  "proc_data (p\<lparr>curr := c\<rparr>) = proc_data p" "proc_data (p\<lparr>nxt := n\<rparr>) = proc_data p"
  "proc_data (p\<lparr>prv := n\<rparr>) = proc_data p" "proc_data (unclaimed p) = proc_data p"
  "proc_data (unlinked p) = proc_data p"
  by (cases p, simp add: proc_data_def unclaimed_def unlinked_def)+

lemma proc_data_upd [simp]:
  "proc_data (p\<lparr>sz := x0\<rparr>) = (proc_data p)\<lparr>sz := x0\<rparr>"
  "proc_data (p\<lparr>p_sig := x1\<rparr>) = (proc_data p)\<lparr>p_sig := x1\<rparr>"
  "proc_data (p\<lparr>p_ign := x2\<rparr>) = (proc_data p)\<lparr>p_ign := x2\<rparr>"
  "proc_data (p\<lparr>p_pri := x3\<rparr>) = (proc_data p)\<lparr>p_pri := x3\<rparr>"
  "proc_data (p\<lparr>p_time_quantum := x4\<rparr>) = (proc_data p)\<lparr>p_time_quantum := x4\<rparr>"
  "proc_data (p\<lparr>p_cpu_usage := x5\<rparr>) = (proc_data p)\<lparr>p_cpu_usage := x5\<rparr>"
  "proc_data (p\<lparr>p_flag := x6\<rparr>) = (proc_data p)\<lparr>p_flag := x6\<rparr>"
  "proc_data (p\<lparr>pgdir := x7\<rparr>) = (proc_data p)\<lparr>pgdir := x7\<rparr>"
  "proc_data (p\<lparr>kstack := x8\<rparr>) = (proc_data p)\<lparr>kstack := x8\<rparr>"
  "proc_data (p\<lparr>state := x9\<rparr>) = (proc_data p)\<lparr>state := x9\<rparr>"
  "proc_data (p\<lparr>pid := x10\<rparr>) = (proc_data p)\<lparr>pid := x10\<rparr>"
  "proc_data (p\<lparr>parent := x11\<rparr>) = (proc_data p)\<lparr>parent := x11\<rparr>"
  "proc_data (p\<lparr>tf := x12\<rparr>) = (proc_data p)\<lparr>tf := x12\<rparr>"
  "proc_data (p\<lparr>chan := x13\<rparr>) = (proc_data p)\<lparr>chan := x13\<rparr>"
  "proc_data (p\<lparr>killed := x14\<rparr>) = (proc_data p)\<lparr>killed := x14\<rparr>"
  "proc_data (p\<lparr>ofile := x15\<rparr>) = (proc_data p)\<lparr>ofile := x15\<rparr>"
  "proc_data (p\<lparr>cwd := x16\<rparr>) = (proc_data p)\<lparr>cwd := x16\<rparr>"
  "proc_data (p\<lparr>pname := x17\<rparr>) = (proc_data p)\<lparr>pname := x17\<rparr>"
  by (cases p, simp add: proc_data_def)+

lemma unlinked_curr_cpu: "curr_cpu (unlinked p) = curr_cpu p" "curr_cpu (p\<lparr>curr := c\<rparr>) = curr_cpu p"
  by (simp_all add: unlinked_def)

lemma proc_data_unlinked: "unlinked p = unlinked p' \<Longrightarrow> proc_data p = proc_data p'"
  using proc_data_simps(5) by metis

lemma proc_data_queueing [simp]:
  "proc_data (p\<lparr>queue_mask := m\<rparr>) = proc_data p" "proc_data (p\<lparr>curr_cpu := c\<rparr>) = proc_data p"
  by (cases p, simp add: proc_data_def)+

lemma queue_frame_trans:
  assumes "queue_frame s t" "queue_frame t u"
  shows "queue_frame s u"
proof -
  obtain T Q where t: "cpu_ok s" "t = (cli_touch s)\<lparr>ptable := T, queues := Q\<rparr>"
    "\<forall>p. proc_data (T p) = proc_data (ptable s p)"
    "\<forall>p. curr_cpu (T p) = curr_cpu (ptable s p) \<or> curr_cpu (T p) = NOCPU"
    using assms(1) unfolding queue_frame_def by blast
  obtain U V where u: "u = (cli_touch t)\<lparr>ptable := U, queues := V\<rparr>"
    "\<forall>p. proc_data (U p) = proc_data (ptable t p)"
    "\<forall>p. curr_cpu (U p) = curr_cpu (ptable t p) \<or> curr_cpu (U p) = NOCPU"
    using assms(2) unfolding queue_frame_def by blast
  have "u = (cli_touch s)\<lparr>ptable := U, queues := V\<rparr>" using t(1,2) u(1) by simp
  moreover have "curr_cpu (U p) = curr_cpu (ptable s p) \<or> curr_cpu (U p) = NOCPU" for p
    using u(3) [rule_format, of p] t(4) [rule_format, of p] t(2) by auto
  ultimately show ?thesis
    unfolding queue_frame_def using t(1-3) u(2) by (intro conjI exI [of _ U] exI [of _ V]) simp_all
qed

lemma queue_frame_nestedE:
  assumes "queue_frame s t" "0 < ncli (cur s)"
  obtains T Q where "t = s\<lparr>ptable := T, queues := Q\<rparr>"
    "\<forall>p. proc_data (T p) = proc_data (ptable s p)"
    "\<forall>p. curr_cpu (T p) = curr_cpu (ptable s p) \<or> curr_cpu (T p) = NOCPU"
  using assms unfolding queue_frame_def by auto

lemma overtakes_data:
  "proc_data a = proc_data a' \<Longrightarrow> proc_data b = proc_data b' \<Longrightarrow> overtakes a b = overtakes a' b'"
  using proc_data_eqD(1-3) [of a a'] proc_data_eqD(1-3) [of b b'] by (simp add: overtakes_def)

lemma queue_frame_data: "queue_frame s t \<Longrightarrow> proc_data (ptable t p) = proc_data (ptable s p)"
  by (auto simp: queue_frame_def)

lemma queue_frame_overtakes:
  "queue_frame s t \<Longrightarrow> overtakes (ptable t p) (ptable t x) = overtakes (ptable s p) (ptable s x)"
  by (intro overtakes_data queue_frame_data)

lemma queue_frame_movable: "queue_frame s t \<Longrightarrow> movable p s \<Longrightarrow> movable p t"
  using proc_data_eqD(1) [OF queue_frame_data [of s t p]] by (auto simp: queue_frame_def movable_def)

lemma movable_can:
  "movable p s \<Longrightarrow> valid_qid q \<Longrightarrow> can_remove p q s"
  "movable p s \<Longrightarrow> valid_qid q \<Longrightarrow> curr (ptable s p) \<noteq> Some q \<Longrightarrow> can_insert p q s"
  by (auto simp: movable_def can_insert_def can_remove_def)

interpretation kq: process_queues
  "\<lambda>p q. insert_proc_into_queue p (Some q)" "\<lambda>p q. remove_proc_from_queue p (Some q)"
  qinv movable "\<lambda>p s. curr (ptable s p)" "\<lambda>s p x. overtakes (ptable s p) (ptable s x)" queue_frame
proof (unfold_locales, goal_cases)
  case (1 s R p q)
  obtain T Q t where t: "insert_proc_into_queue p (Some q) s = Done () t"
    "t = (cli_touch s)\<lparr>ptable := T, queues := (queues s)(q := Q)\<rparr>"
    "qinv t (R(q := enqueue (\<lambda>t. overtakes (ptable s p) (ptable s t)) p (R q)))"
    and u: "\<forall>x. unlinked (T x) =
      (if x = p then (unlinked (ptable s x))\<lparr>curr := Some q\<rparr> else unlinked (ptable s x))"
    using insert_qinv [OF 1(1) movable_can(2) [OF 1(2,3,5)] 1(4)] by blast
  have d: "\<forall>x. proc_data (T x) = proc_data (ptable s x)"
    using u proc_data_simps(1,5) by metis
  have c: "curr (T p) = Some q"
    using u [rule_format, of p] curr_unlinked [of "T p"] by simp
  have k: "\<forall>x. curr_cpu (T x) = curr_cpu (ptable s x)"
    using u by (metis unlinked_curr_cpu)
  show ?case using t d c k 1(2) by (auto simp: queue_frame_def movable_def)
next
  case (2 s R p q)
  obtain T Q t where t: "remove_proc_from_queue p (Some q) s = Done () t"
    "t = (cli_touch s)\<lparr>ptable := T, queues := (queues s)(q := Q)\<rparr>"
    "qinv t (R(q := remove1 p (R q)))"
    and o: "T p = (unclaimed (ptable s p))\<lparr>nxt := None, prv := None\<rparr>"
    and u: "\<forall>x. x \<noteq> p \<longrightarrow> unlinked (T x) = unlinked (ptable s x)"
    using remove_qinv [OF 2(1) movable_can(1) [OF 2(2,3)] 2(4)] by blast
  have "\<forall>x. proc_data (T x) = proc_data (ptable s x)"
    using o u proc_data_unlinked proc_data_simps by metis
  moreover have "curr (ptable s p) = Some q" using 2(1,3,4) by (simp add: qinv_def)
  moreover have "curr_cpu (T x) = curr_cpu (ptable s x) \<or> curr_cpu (T x) = NOCPU" for x
    using o u unlinked_curr_cpu(1) [of "T x"] unlinked_curr_cpu(1) [of "ptable s x"]
    by (cases "x = p") (simp_all add: unclaimed_def)
  ultimately show ?case using t o 2(2)
    by (auto simp: queue_frame_def movable_def unclaimed_def)
next
  case (3 s R q q' p)
  then show ?case by (rule qinv_disjoint)
next
  case (4 s R q)
  then show ?case by (simp add: qinv_def qrep_def)
next
  case (5 s t p)
  then show ?case by (rule queue_frame_movable)
next
  case (6 s t)
  then show ?case by (intro ext) (rule queue_frame_overtakes)
next
  case (7 s t u)
  then show ?case by (rule queue_frame_trans)
qed

section \<open>Balancing\<close>

lemma bit_mask_fold:
  fixes P :: "nat \<Rightarrow> bool"
  assumes "n \<le> 8"
  shows "bit (fold (\<lambda>i m. if P i then m OR push_bit i 1 else m) [0..<n] (0 :: 8 word)) i
    \<longleftrightarrow> i < n \<and> P i"
  using assms
proof (induction n)
  case 0
  then show ?case by simp
next
  case (Suc n)
  then show ?case by (auto simp: bit_simps less_Suc_eq)
qed

lemma unbalanced_rq_mask_bit:
  "length tasks \<le> NCPU \<Longrightarrow>
   bit (unbalanced_rq_mask tasks) i \<longleftrightarrow> i < length tasks \<and> padded_ideal tasks < tasks ! i"
  unfolding unbalanced_rq_mask_def
  using bit_mask_fold [of "length tasks" "\<lambda>i. padded_ideal tasks < tasks ! i" i] by simp

text \<open>
  \<open>do_balance\<close> on queues of processes that are not running: the last process of every marked
  run queue moves to the ready queue, and no process is lost or doubled.
\<close>

definition rq_moved :: "8 word \<Rightarrow> nat list \<Rightarrow> (qid \<Rightarrow> nat list) \<Rightarrow> (qid \<Rightarrow> nat list) \<Rightarrow> bool" where
  "rq_moved m is R R' \<longleftrightarrow> (\<forall>x. queued R' x = queued R x) \<and>
     (\<forall>i. let xs = R (RunQ i); ys = R' (RunQ i) in
        if i \<in> set is \<and> bit m i then ys = butlast xs \<or> (ys = xs \<and> length xs < 2) else ys = xs)"

lemma marked_iff: "m AND 2 ^ i = 0 \<longleftrightarrow> \<not> bit (m :: 8 word) i"
  using bit_iff_and_push_bit_not_eq_0 [of m i] by (simp add: push_bit_eq_mult)

lemma qinv_qrep: "qinv s R \<Longrightarrow> valid_qid q \<Longrightarrow> qrep (ptable s) (queues s q) (R q)"
  by (simp add: qinv_def)

lemma tail_is_last:
  assumes "qrep T Q xs" "tail Q = Some p"
  shows "xs \<noteq> []" "p = last xs" "remove1 p xs = butlast xs"
proof -
  show xs: "xs \<noteq> []" and p: "p = last xs"
    using assms by (auto simp: qrep_def lst_or_def split: if_splits)
  have "distinct xs" using assms by (simp add: qrep_def)
  then show "remove1 p xs = butlast xs"
    using xs p by (cases xs rule: rev_cases) (auto simp: remove1_append)
qed

lemma balance_step:
  assumes inv: "qinv s R" and mv: "\<forall>p. queued R p \<longrightarrow> movable p s" and i: "i < NCPU"
    and tail: "tail (queues s (RunQ i)) = Some p"
  shows "\<exists>t. bind (remove_proc_from_queue p (curr (ptable s p))) (\<lambda>_.
      insert_proc_into_queue p (Some ReadyQ)) s = Done () t
    \<and> qinv t (R(RunQ i := butlast (R (RunQ i)),
        ReadyQ := enqueue (\<lambda>x. overtakes (ptable s p) (ptable s x)) p (R ReadyQ)))
    \<and> queue_frame s t
    \<and> (\<forall>x. queued (R(RunQ i := butlast (R (RunQ i)),
        ReadyQ := enqueue (\<lambda>x. overtakes (ptable s p) (ptable s x)) p (R ReadyQ))) x = queued R x)"
proof -
  have v: "valid_qid (RunQ i)" "valid_qid ReadyQ" using i by simp_all
  have q: "qrep (ptable s) (queues s (RunQ i)) (R (RunQ i))"
    using inv v by (simp add: qinv_def)
  note last = tail_is_last [OF q tail]
  have p: "p \<in> set (R (RunQ i))" using last by simp
  then have c: "curr (ptable s p) = Some (RunQ i)" and m: "movable p s"
    using inv v mv unfolding qinv_def queued_def by blast+
  show ?thesis
    using kq.move [OF inv m v(1,2) _ p] kq.move_queued [where R = R, OF p v(1,2)] last(3)
    by (auto simp: c)
qed

lemma rq_moved_skip:
  assumes mv: "rq_moved m js R R'" and i: "i \<notin> set js" "bit m i \<longrightarrow> length (R (RunQ i)) < 2"
  shows "rq_moved m (i # js) R R'"
  unfolding rq_moved_def
proof (intro conjI allI)
  show "queued R' x = queued R x" for x using mv by (simp add: rq_moved_def)
  fix k
  show "let xs = R (RunQ k); zs = R' (RunQ k) in
      if k \<in> set (i # js) \<and> bit m k then zs = butlast xs \<or> (zs = xs \<and> length xs < 2) else zs = xs"
    using mv i unfolding rq_moved_def
    by (cases "k = i") (auto simp: Let_def dest!: spec [of _ k] split: if_splits)
qed

lemma rq_moved_Cons:
  assumes mv: "rq_moved m js (R(RunQ i := butlast (R (RunQ i)), ReadyQ := ys)) R'"
    and i: "i \<notin> set js" "bit m i"
    and q: "\<forall>x. queued (R(RunQ i := butlast (R (RunQ i)), ReadyQ := ys)) x = queued R x"
  shows "rq_moved m (i # js) R R'"
  unfolding rq_moved_def
proof (intro conjI allI)
  show "queued R' x = queued R x" for x using mv q by (simp add: rq_moved_def)
  fix k
  show "let xs = R (RunQ k); zs = R' (RunQ k) in
      if k \<in> set (i # js) \<and> bit m k then zs = butlast xs \<or> (zs = xs \<and> length xs < 2) else zs = xs"
    using mv i unfolding rq_moved_def
    by (cases "k = i") (auto simp: Let_def dest!: spec [of _ k] split: if_splits)
qed

lemma balance_loop_lists:
  assumes "qinv s R" "\<forall>p. queued R p \<longrightarrow> movable p s" "set is \<subseteq> {..<NCPU}" "distinct is"
  shows "\<exists>t R'. balance_loop m is s = Done () t \<and> qinv t R' \<and> (t = s \<or> queue_frame s t)
    \<and> rq_moved m is R R'"
  using assms
proof (induction "is" arbitrary: s R)
  case Nil
  then show ?case by (auto simp: rq_moved_def exec_simps)
next
  case (Cons i js)
  show ?case
  proof (cases "bit m i \<and> tail (queues s (RunQ i)) \<noteq> None")
    case False
    have "tail (queues s (RunQ i)) = None \<Longrightarrow> length (R (RunQ i)) < 2"
      using qinv_qrep [OF Cons.prems(1), of "RunQ i"] Cons.prems(3)
      by (auto simp: qrep_def split: if_splits)
    then have short: "bit m i \<longrightarrow> length (R (RunQ i)) < 2" using False by blast
    have "balance_loop m (i # js) s = balance_loop m js s"
      using False Cons.prems(3) by (auto simp: exec_simps marked_iff split: option.split)
    moreover obtain t R' where "balance_loop m js s = Done () t" "qinv t R'"
      "t = s \<or> queue_frame s t" "rq_moved m js R R'"
      using Cons.IH [of s R] Cons.prems by auto
    ultimately show ?thesis
      using rq_moved_skip [of m js R R' i] short Cons.prems(4) by (intro exI) auto
  next
    case True
    then obtain p where p: "tail (queues s (RunQ i)) = Some p" by auto
    have i: "i < NCPU" using Cons.prems(3) by simp
    let ?R = "R(RunQ i := butlast (R (RunQ i)),
        ReadyQ := enqueue (\<lambda>x. overtakes (ptable s p) (ptable s x)) p (R ReadyQ))"
    obtain u where u: "bind (remove_proc_from_queue p (curr (ptable s p))) (\<lambda>_.
        insert_proc_into_queue p (Some ReadyQ)) s = Done () u"
      and r: "qinv u ?R" "queue_frame s u" "\<forall>x. queued ?R x = queued R x"
      using balance_step [OF Cons.prems(1,2) i p] by blast
    have mv: "\<forall>x. queued ?R x \<longrightarrow> movable x u"
      using Cons.prems(2) r queue_frame_movable by blast
    have js: "set js \<subseteq> {..<NCPU}" "distinct js" using Cons.prems(3,4) by simp_all
    obtain t R' where t: "balance_loop m js u = Done () t" "qinv t R'" "t = u \<or> queue_frame u t"
      "rq_moved m js ?R R'"
      using Cons.IH [OF r(1) mv js] by blast
    have "balance_loop m (i # js) s = Done () t"
      using True p u t(1) i by (simp add: exec_simps marked_iff)
    moreover have "rq_moved m (i # js) R R'"
      by (rule rq_moved_Cons [OF t(4) _ _ r(3)]) (use Cons.prems(4) True in simp_all)
    ultimately show ?thesis using t r queue_frame_trans by blast
  qed
qed

lemma do_balance_lists:
  assumes "qinv s R" "\<forall>p. queued R p \<longrightarrow> movable p s" "length (cpus s) \<le> NCPU"
  shows "\<exists>t R'. do_balance m s = Done () t \<and> qinv t R' \<and> (t = s \<or> queue_frame s t)
    \<and> rq_moved m [0..<length (cpus s)] R R'"
  using balance_loop_lists [OF assms(1,2), of "[0..<length (cpus s)]" m] assms(3)
  by (simp add: do_balance_def num_cpus_def exec_simps subset_iff)

end
