(* ===== verification/Sched.thy ===== *)
theory Sched
  imports Queue_Inv
begin

text \<open>
  The scheduler of \<open>kernel/sched/sched.c\<close>, the signals of \<open>kernel/sched/signals.c\<close> and
  \<open>switchuvm\<close>, \<open>switchkvm\<close> of \<open>kernel/arch/x86_32/mem/vm.c\<close>.

  \<open>swtch\<close> gives the CPU to another kernel thread. What the rest of the system does until the
  caller runs again is the parameter \<open>env\<close> of the routines that may switch: \<open>env n s\<close> is the
  state in which the caller continues, where \<open>n\<close> further switches of it are to come. The field
  \<open>switches\<close> counts them; when it is 0 the thread is never scheduled again (\<open>Blocked\<close>).
\<close>

type_synonym 's environment = "nat \<Rightarrow> 's \<Rightarrow> 's"

section \<open>Address spaces and context switches\<close>

definition V2P :: "32 word \<Rightarrow> 32 word" where
  "V2P a = a - 0x80000000"

definition lcr3 :: "32 word \<Rightarrow> ('a machine_scheme, unit) kmon" where
  "lcr3 w = modify (\<lambda>s. set_cur ((cur s)\<lparr>cr3 := w\<rparr>) s)"

definition switchkvm :: "('a kernel_scheme, unit) kmon" where
  "switchkvm = bind (gets kpgdir) (\<lambda>d. lcr3 (V2P d))"

text \<open>The descriptor of the task state segment, which is the same for all processes, is left out.\<close>

definition switchuvm :: "nat option \<Rightarrow> ('a kernel_scheme, unit) kmon" where
  "switchuvm p =
     (case p of
        None \<Rightarrow> panic ''switchuvm: no process''
      | Some i \<Rightarrow>
          bind (proc_at i) (\<lambda>pp.
          if kstack pp = 0 then panic ''switchuvm: no kstack''
          else if pgdir pp = 0 then panic ''switchuvm: no pgdir''
          else seqs [
            pushcli,
            bind mycpu (\<lambda>c. upd_cpu c (\<lambda>k. k\<lparr>ts_esp0 := kstack pp + 4096\<rparr>)),
            lcr3 (V2P (pgdir pp)),
            popcli]))"

definition swtch :: "'a machine_scheme environment \<Rightarrow> ('a machine_scheme, unit) kmon" where
  "swtch env = (\<lambda>s. case switches s of
     0 \<Rightarrow> Blocked s
   | Suc n \<Rightarrow> Done () ((env n (s\<lparr>switches := n\<rparr>))\<lparr>switches := n\<rparr>))"

section \<open>Average CPU usage\<close>

definition init_cpu_avg_counter :: "('a kernel_scheme, unit) kmon" where
  "init_cpu_avg_counter = modify (\<lambda>s. s\<lparr>c_avg := \<lparr>total_cpu_time = 0, n_procs = 0, avg = 25\<rparr>\<rparr>)"

text \<open>The unsigned additions wrap around; a division by zero traps.\<close>

definition update_cpu_avg :: "32 word \<Rightarrow> ('a kernel_scheme, unit) kmon" where
  "update_cpu_avg t =
     bind (gets c_avg) (\<lambda>a.
     if n_procs a + 1 = 0 then fail Bad_Access
     else modify (\<lambda>s. s\<lparr>c_avg := \<lparr>
       total_cpu_time = total_cpu_time a + t,
       n_procs = n_procs a + 1,
       avg = (total_cpu_time a + t) div (n_procs a + 1)\<rparr>\<rparr>))"

definition get_cpu_avg :: "('a kernel_scheme, 32 word) kmon" where
  "get_cpu_avg = gets (\<lambda>s. avg (c_avg s))"

section \<open>Giving up the CPU\<close>

definition requeue_ready :: "nat \<Rightarrow> ('a kernel_scheme, unit) kmon" where
  "requeue_ready p =
     bind (proc_at p) (\<lambda>pp.
     if state pp = PREEMPTED then seqs [
       upd_proc p (\<lambda>x. x\<lparr>p_pri := LOW_USER_PRIORITY\<rparr>),
       upd_proc p (\<lambda>x. x\<lparr>state := RUNNABLE\<rparr>),
       upd_proc p (\<lambda>x. x\<lparr>curr := None\<rparr>),
       insert_proc_into_queue p (Some ReadyQ)]
     else if state pp = RUNNABLE \<and> curr pp \<noteq> None then seqs [
       remove_proc_from_queue p (curr pp),
       insert_proc_into_queue p (Some ReadyQ)]
     else cwhen (state pp = RUNNABLE) (insert_proc_into_queue p (Some ReadyQ)))"

definition sched :: "'a kernel_scheme environment \<Rightarrow> ('a kernel_scheme, unit) kmon" where
  "sched env =
     bind myproc (\<lambda>mp.
     bind cpuid (\<lambda>_.
     bind (holding PtableLock) (\<lambda>h.
     if \<not> h then panic ''sched ptable.lock''
     else bind mycpu (\<lambda>c.
     bind (gets (\<lambda>s. cpus s ! c)) (\<lambda>k.
     if ncli k \<noteq> 1 then panic ''sched locks''
     else deref mp (\<lambda>p.
     bind (proc_at p) (\<lambda>pp.
     if state pp = RUNNING then panic ''sched running''
     else bind (gets if_flag) (\<lambda>fl.
     if fl then panic ''sched interruptible''
     else bind mycpu (\<lambda>c.
     bind (gets (\<lambda>s. intena (cpus s ! c))) (\<lambda>saved.
     bind (cwhen (curr_cpu pp \<noteq> NOCPU) (seqs [
         bind (unclaim_proc p) (\<lambda>_. return ()),
         bind (proc_at p) (\<lambda>pp. remove_proc_from_queue p (Some (RunQ (curr_cpu pp))))])) (\<lambda>_.
     bind (requeue_ready p) (\<lambda>_.
     bind mycpu (\<lambda>_.
     bind (swtch env) (\<lambda>_.
     bind mycpu (\<lambda>c. upd_cpu c (\<lambda>k. k\<lparr>intena := saved\<rparr>))))))))))))))))"

definition yield :: "'a kernel_scheme environment \<Rightarrow> ('a kernel_scheme, unit) kmon" where
  "yield env = seqs [
     acquire PtableLock,
     bind cpuid (\<lambda>c.
       bind myproc (\<lambda>mp. deref mp (\<lambda>p. seqs [
         upd_proc p (\<lambda>x. x\<lparr>state := RUNNABLE\<rparr>),
         purge_queue (RunQ c)]))),
     sched env,
     release PtableLock]"

definition preempt :: "'a kernel_scheme environment \<Rightarrow> ('a kernel_scheme, unit) kmon" where
  "preempt env = seqs [
     acquire PtableLock,
     bind myproc (\<lambda>mp.
       bind cpuid (\<lambda>c. deref mp (\<lambda>p. seqs [
         upd_proc p (\<lambda>x. x\<lparr>state := PREEMPTED\<rparr>),
         purge_queue (RunQ c)]))),
     sched env,
     release PtableLock]"

section \<open>Signals\<close>

abbreviation (input) SIGHUP :: "32 word" where "SIGHUP \<equiv> 1"
abbreviation (input) SIGINT :: "32 word" where "SIGINT \<equiv> 2"
abbreviation (input) SIGSEG :: "32 word" where "SIGSEG \<equiv> 4"
abbreviation (input) SIGKILL :: "32 word" where "SIGKILL \<equiv> 8"
abbreviation (input) SIGPIPE :: "32 word" where "SIGPIPE \<equiv> 16"
abbreviation (input) SIGSYS :: "32 word" where "SIGSYS \<equiv> 32"
abbreviation (input) SIGCPU :: "32 word" where "SIGCPU \<equiv> 64"

definition signals_pending :: "nat \<Rightarrow> ('a kernel_scheme, bool) kmon" where
  "signals_pending p = bind (proc_at p) (\<lambda>pp. return (p_sig pp \<noteq> 0))"

definition handle_signals :: "'a kernel_scheme environment \<Rightarrow> nat \<Rightarrow> ('a kernel_scheme, unit) kmon" where
  "handle_signals env p =
     bind (proc_at p) (\<lambda>pp.
     bind (cwhen (p_sig pp AND SIGKILL \<noteq> 0 \<or> p_sig pp AND SIGSEG \<noteq> 0 \<or> p_sig pp AND SIGPIPE \<noteq> 0)
       (upd_proc p (\<lambda>x. x\<lparr>killed := True\<rparr>))) (\<lambda>_.
     bind (cwhen (p_sig pp AND SIGCPU \<noteq> 0) (seqs [
         upd_proc p (\<lambda>x. x\<lparr>p_sig := p_sig x AND NOT SIGCPU\<rparr>),
         release PtableLock,
         yield env])) (\<lambda>_.
     bind (proc_at p) (\<lambda>pp.
     if p_ign pp = 0 then upd_proc p (\<lambda>x. x\<lparr>killed := True\<rparr>)
     else if p_ign pp AND p_sig pp \<noteq> 0 then upd_proc p (\<lambda>x. x\<lparr>p_sig := 0\<rparr>)
     else upd_proc p (\<lambda>x. x\<lparr>killed := True\<rparr>)))))"

section \<open>The scheduler loop\<close>

definition set_cproc :: "nat \<Rightarrow> nat option \<Rightarrow> ('a machine_scheme, unit) kmon" where
  "set_cproc c p = upd_cpu c (\<lambda>k. k\<lparr>cproc := p\<rparr>)"

text \<open>What the scheduler does when a process has switched back to it.\<close>

definition end_slice :: "nat \<Rightarrow> ('a kernel_scheme, bool) kmon" where
  "end_slice c =
     bind (shift_queue (RunQ c)) (\<lambda>_.
     bind switchkvm (\<lambda>_.
     bind (set_cproc c None) (\<lambda>_.
     bind (release PtableLock) (\<lambda>_.
     return True))))"

text \<open>
  From the label \<open>sched\<close> to the end of the loop body, with \<open>c\<close> the CPU of the scheduler; the
  result tells whether the loop goes through its head (\<open>True\<close>) or through \<open>goto main\<close>.
\<close>

definition run_head :: "'a kernel_scheme environment \<Rightarrow> nat \<Rightarrow> ('a kernel_scheme, bool) kmon" where
  "run_head env c =
     bind (is_queue_empty (RunQ c)) (\<lambda>empty.
     if empty then return False
     else bind (queue_at (RunQ c)) (\<lambda>rq.
     bind (set_cproc c (head rq)) (\<lambda>_.
     bind (switchuvm (head rq)) (\<lambda>_.
     bind (acquire PtableLock) (\<lambda>_.
     bind (queue_at (RunQ c)) (\<lambda>rq.
     bind (deref (head rq) (\<lambda>h. upd_proc h (\<lambda>x. x\<lparr>state := RUNNING\<rparr>))) (\<lambda>_.
     bind (swtch env) (\<lambda>_.
     end_slice c))))))))"

text \<open>From the label \<open>main\<close> to the end of the loop body.\<close>

definition scheduler_pass :: "'a kernel_scheme environment \<Rightarrow> nat \<Rightarrow> ('a kernel_scheme, bool) kmon" where
  "scheduler_pass env c =
     bind (is_queue_empty ReadyQ) (\<lambda>ready_empty.
     bind (if ready_empty then is_queue_empty (RunQ c) else return False) (\<lambda>idle.
     if idle then
       bind queues_need_balance (\<lambda>qmask.
       bind (cwhen (0 < qmask) (do_balance qmask)) (\<lambda>_.
       return False))
     else if ready_empty then run_head env c
     else bind (queue_at ReadyQ) (\<lambda>rq.
     deref (head rq) (\<lambda>p.
     bind (signals_pending p) (\<lambda>pending.
     bind (cwhen pending (handle_signals env p)) (\<lambda>_.
     bind (proc_at p) (\<lambda>pp.
     bind (if curr pp = Some ReadyQ then claim_proc p c else return False) (\<lambda>claimed.
     bind (cwhen claimed (seqs [
         remove_proc_from_queue p (Some ReadyQ),
         insert_proc_into_queue p (Some (RunQ c))])) (\<lambda>_.
     run_head env c)))))))))"

text \<open>The first \<open>n\<close> passes of the scheduler, which loops forever.\<close>

primrec scheduler_loop :: "'a kernel_scheme environment \<Rightarrow> nat \<Rightarrow> nat \<Rightarrow> ('a kernel_scheme, unit) kmon" where
  "scheduler_loop env c 0 = return ()"
| "scheduler_loop env c (Suc n) =
     bind (scheduler_pass env c) (\<lambda>again.
     bind (cwhen again sti) (\<lambda>_.
     scheduler_loop env c n))"

definition scheduler :: "'a kernel_scheme environment \<Rightarrow> nat \<Rightarrow> ('a kernel_scheme, unit) kmon" where
  "scheduler env n =
     bind mycpu (\<lambda>c.
     bind (set_cproc c None) (\<lambda>_.
     bind cpuid (\<lambda>this_cpu.
     bind sti (\<lambda>_.
     scheduler_loop env this_cpu n))))"

end
