(* ===== verification/Sched_Inv.thy ===== *)
theory Sched_Inv
  imports Sched
begin

text \<open>
  What the scheduler does to the process queues: a round of \<open>scheduler\<close> dispatches the first
  process of the ready queue, and \<open>yield\<close> and \<open>preempt\<close> put the running process back there,
  with the queue invariant \<open>qinv\<close> kept throughout.
\<close>

section \<open>The queue invariant and other state changes\<close>

lemma qinvD:
  assumes "qinv s R" "valid_qid q"
  shows "distinct (R q)" "p \<in> set (R q) \<Longrightarrow> curr (ptable s p) = Some q" "p \<in> set (R q) \<Longrightarrow> p < NPROC"
  using assms by (auto simp: qinv_def qrep_def)

lemma qinv_cong: "ptable t = ptable s \<Longrightarrow> queues t = queues s \<Longrightarrow> qinv t R = qinv s R"
  by (simp add: qinv_def)

lemma qinv_machine [simp]:
  "qinv (cli_enter s) R = qinv s R" "qinv (cli_leave s) R = qinv s R" "qinv (cli_touch s) R = qinv s R"
  "qinv (set_cur k s) R = qinv s R" "qinv (s\<lparr>locks := L\<rparr>) R = qinv s R"
  "qinv (s\<lparr>switches := n\<rparr>) R = qinv s R" "qinv (s\<lparr>if_flag := b\<rparr>) R = qinv s R"
  by (rule qinv_cong; simp)+

lemma qinv_upd_data:
  assumes "qinv s R" "nxt v = nxt (ptable s p)" "prv v = prv (ptable s p)" "curr v = curr (ptable s p)"
  shows "qinv (s\<lparr>ptable := (ptable s)(p := v)\<rparr>) R"
proof -
  have "qrep ((ptable s)(p := v)) Q xs = qrep (ptable s) Q xs" for Q xs
    by (rule qrep_cong) (use assms in auto)
  then show ?thesis using assms by (auto simp: qinv_def)
qed

lemma qinv_upd_unqueued:
  assumes "qinv s R" "\<not> queued R p"
  shows "qinv (s\<lparr>ptable := (ptable s)(p := v)\<rparr>) R"
proof -
  have "p \<notin> set (R q)" if "valid_qid q" for q using assms that by (auto simp: queued_def)
  moreover have "qrep ((ptable s)(p := v)) Q xs = qrep (ptable s) Q xs" if "p \<notin> set xs" for Q xs
    by (rule qrep_cong) (use that in auto)
  ultimately show ?thesis using assms by (auto simp: qinv_def)
qed

text \<open>The state in which the process table lock has just been taken.\<close>

abbreviation in_ptable :: "'a machine_scheme \<Rightarrow> 'a machine_scheme" where
  "in_ptable s \<equiv> (cli_enter s)\<lparr>locks := (locks s)(PtableLock := held_by (this_cpu s))\<rparr>"

text \<open>
  Process \<open>p\<close> runs on the executing CPU: it is the first process of that CPU's run queue,
  which \<open>rest\<close> follows, and no queue lock is held.
\<close>

definition on_cpu :: "nat \<Rightarrow> nat list \<Rightarrow> (qid \<Rightarrow> nat list) \<Rightarrow> 'a kernel_scheme \<Rightarrow> bool" where
  "on_cpu p rest R s \<longleftrightarrow> qinv s R \<and> cpu_ok s \<and> locks s CheckLock = free_lock
     \<and> (\<forall>q. valid_qid q \<longrightarrow> locks s (QLock q) = free_lock)
     \<and> cproc (cur s) = Some p \<and> this_cpu s < NCPU \<and> p < NPROC
     \<and> R (RunQ (this_cpu s)) = p # rest \<and> curr_cpu (ptable s p) = NOCPU"

lemma enqueue_cong:
  assumes "\<And>x. x \<in> set xs \<Longrightarrow> ov x = ov' x"
  shows "enqueue ov p xs = enqueue ov' p xs"
proof -
  have "(\<forall>x \<in> set ys. ov x = ov' x) \<Longrightarrow> insert_overtaking ov p ys = insert_overtaking ov' p ys" for ys
    by (induction ys) auto
  then show ?thesis
    using assms by (cases "(ov, p, xs)" rule: enqueue.cases) (auto simp del: insert_overtaking.simps)
qed

section \<open>sched\<close>

definition resume_sched :: "'a kernel_scheme environment \<Rightarrow> bool \<Rightarrow> ('a kernel_scheme, unit) kmon" where
  "resume_sched env saved = bind (swtch env) (\<lambda>_. bind mycpu (\<lambda>c. upd_cpu c (\<lambda>k. k\<lparr>intena := saved\<rparr>)))"

text \<open>
  Called with only the process table lock held, by a process that is not marked as running
  and not claimed, \<open>sched\<close> requeues the process and switches.
\<close>

lemma sched_exec:
  assumes ok: "cpu_ok s" "ncli (cur s) = 1" "locks s PtableLock = held_by (this_cpu s)"
    and p: "cproc (cur s) = Some p" "state (ptable s p) \<noteq> RUNNING" "curr_cpu (ptable s p) = NOCPU"
    and r: "requeue_ready p s = Done () t" "cpu_ok t" "\<not> if_flag t"
  shows "sched env s = resume_sched env (intena (cur s)) t"
proof -
  have f: "\<not> if_flag s" using ok by (simp add: cpu_ok_def)
  have c: "cpus s ! this_cpu s = cur s" by (simp add: cur_def)
  show ?thesis
    using ok p r f c by (simp add: sched_def cpuid_def exec_simps resume_sched_def)
qed

lemma sched_not_held_exec:
  assumes "cpu_ok s" "\<not> if_flag s" "locks s PtableLock = free_lock"
  shows "sched env s = Fail (Panic ''sched ptable.lock'')"
  using assms by (simp add: sched_def cpuid_def exec_simps)

lemma sched_claimed_exec:
  assumes ok: "cpu_ok s" "ncli (cur s) = 1" "locks s PtableLock = held_by (this_cpu s)"
      "locks s CheckLock = free_lock"
    and p: "cproc (cur s) = Some p" "state (ptable s p) \<noteq> RUNNING"
    and c: "curr_cpu (ptable s p) = c" "c < NCPU" "queue_mask (ptable s p) AND IN_QUEUE \<noteq> 0"
  shows "sched env s = Fail Bad_Access"
proof -
  have f: "\<not> if_flag s" using ok by (simp add: cpu_ok_def)
  have "cpus s ! this_cpu s = cur s" by (simp add: cur_def)
  then show ?thesis
    using ok p c f by (simp add: sched_def cpuid_def exec_simps unclaimed_def
        remove_proc_from_queue_def)
qed

section \<open>yield\<close>

lemma on_cpu_movable:
  "\<lbrakk>on_cpu p rest R s; st \<noteq> RUNNING; locks t = (locks s)(PtableLock := x); cpu_ok t;
    state (ptable t p) = st\<rbrakk> \<Longrightarrow> movable p t"
  by (simp add: on_cpu_def movable_def)

lemma yield_queues:
  assumes p: "on_cpu p rest R s" and ok: "ncli (cur s) = 0" "locks s PtableLock = free_lock"
    and rest: "\<forall>x \<in> set rest. state (ptable s x) = RUNNABLE"
  defines "c \<equiv> this_cpu s"
  defines "R' \<equiv> R(RunQ c := rest, ReadyQ := enqueue
      (\<lambda>x. overtakes ((ptable s p)\<lparr>state := RUNNABLE\<rparr>) (ptable s x)) p (R ReadyQ))"
  shows "\<exists>T Q t. yield env s = bind (resume_sched env (if_flag s)) (\<lambda>_. release PtableLock) t
    \<and> t = (in_ptable s)\<lparr>ptable := T, queues := Q\<rparr> \<and> qinv t R'
    \<and> (\<forall>x. proc_data (T x)
        = proc_data (if x = p then (ptable s x)\<lparr>state := RUNNABLE\<rparr> else ptable s x))"
proof -
  let ?u = "(in_ptable s)\<lparr>ptable := (ptable s)(p := (ptable s p)\<lparr>state := RUNNABLE\<rparr>)\<rparr>"
  have s: "qinv s R" "cpu_ok s" "cproc (cur s) = Some p" "c < NCPU" "R (RunQ c) = p # rest"
    "curr_cpu (ptable s p) = NOCPU" "curr (ptable s p) = Some (RunQ c)"
    "\<forall>q. valid_qid q \<longrightarrow> locks s (QLock q) = free_lock"
    using p qinvD(2) [of s R "RunQ c" p] by (auto simp: on_cpu_def c_def)
  have u: "cpu_ok ?u" "ncli (cur ?u) = 1" "\<not> if_flag ?u" "this_cpu ?u = c" "cproc (cur ?u) = Some p"
    using s ok by (simp_all add: c_def)
  have uq: "qinv ?u R" using qinv_upd_data [of "in_ptable s" R] s(1) by simp
  have mv: "movable p ?u" by (rule on_cpu_movable [OF p]) (use u in auto)
  have qc: "qrep (ptable ?u) (queues ?u (RunQ c)) (p # rest)"
    using qinv_qrep [OF uq, of "RunQ c"] s by simp
  have np: "p \<notin> set rest" using qc by (simp add: qrep_def)
  have purge: "purge_queue (RunQ c) ?u = Done () ?u"
    using purge_queue_all_runnable [OF u(1) _ _ qc] s u(1,2) rest np by auto
  obtain t where t: "bind (remove_proc_from_queue p (Some (RunQ c)))
        (\<lambda>_. insert_proc_into_queue p (Some ReadyQ)) ?u = Done () t"
    "qinv t (R(RunQ c := rest, ReadyQ := enqueue (\<lambda>x. overtakes (ptable ?u p) (ptable ?u x)) p (R ReadyQ)))"
    "queue_frame ?u t"
    using kq.move [OF uq mv, of "RunQ c" ReadyQ] s by auto
  have e: "enqueue (\<lambda>x. overtakes (ptable ?u p) (ptable ?u x)) p (R ReadyQ)
      = enqueue (\<lambda>x. overtakes ((ptable s p)\<lparr>state := RUNNABLE\<rparr>) (ptable s x)) p (R ReadyQ)"
    by (rule enqueue_cong) (use qinv_disjoint [OF s(1), of "RunQ c" ReadyQ p] s in auto)
  obtain T Q where tq: "t = (in_ptable s)\<lparr>ptable := T, queues := Q\<rparr>"
    "\<forall>x. proc_data (T x) = proc_data (ptable ?u x)"
    using t(3) u(1,2) by (auto simp: queue_frame_def)
  have "requeue_ready p ?u = Done () t"
    using t(1) s by (simp add: requeue_ready_def bind_exec [of "proc_at p"] access_exec seqs_pair del: seqs.simps)
  then have "sched env ?u = resume_sched env (if_flag s) t"
    using sched_exec [of ?u p t env] u s ok tq(1) by (simp add: cur_cli c_def)
  then have y: "yield env s = bind (resume_sched env (if_flag s)) (\<lambda>_. release PtableLock) t"
    using s ok u(1,2) purge by (simp add: yield_def cpuid_def exec_simps c_def)
  show ?thesis
    using y t(2) tq e unfolding R'_def by (intro exI [of _ T] exI [of _ Q] exI [of _ t]) auto
qed

section \<open>preempt\<close>

lemma purge_qinv:
  assumes inv: "qinv s R" and mv: "movable p s" and q: "valid_qid q" "R q = us @ p # vs"
    and r: "\<forall>u \<in> set us. state (ptable s u) = RUNNABLE" "state (ptable s p) \<noteq> RUNNABLE"
  shows "\<exists>t. purge_queue q s = Done () t \<and> qinv t (R(q := us @ vs)) \<and> queue_frame s t
    \<and> ptable t p = (unclaimed (ptable s p))\<lparr>nxt := None, prv := None\<rparr>"
proof -
  have s: "cpu_ok s" "locks s (QLock q) = free_lock" "locks s CheckLock = free_lock"
    "state (ptable s p) \<notin> {RUNNABLE, RUNNING}"
    using mv q r by (auto simp: movable_def)
  have rep: "qrep (ptable s) (queues s q) (us @ p # vs)" using qinv_qrep [OF inv q(1)] q(2) by simp
  obtain T Q where e: "purge_queue q s = Done () ((cli_touch s)\<lparr>ptable := T, queues := (queues s)(q := Q)\<rparr>)"
    and t: "qrep T Q (us @ vs)" and o: "T p = (unclaimed (ptable s p))\<lparr>nxt := None, prv := None\<rparr>"
    and u: "\<forall>x. x \<noteq> p \<longrightarrow> unlinked (T x) = unlinked (ptable s x)"
    and f: "\<forall>x. x \<notin> set (us @ p # vs) \<longrightarrow> T x = ptable s x"
    using purge_queue_first [OF s(1-3) q(1) rep r(1) s(4)] by auto
  let ?t = "(cli_touch s)\<lparr>ptable := T, queues := (queues s)(q := Q)\<rparr>"
  have c: "x \<noteq> p \<Longrightarrow> curr (T x) = curr (ptable s x)" for x
    using u curr_unlinked by metis
  have "qinv ?t (R(q := us @ vs))"
  proof (rule qinv_upd [OF inv q(1) t])
    show "\<forall>x \<in> set (us @ vs). curr (T x) = Some q"
    proof
      fix x assume x: "x \<in> set (us @ vs)"
      then have "x \<noteq> p" using qinvD(1) [OF inv q(1)] q(2) by auto
      then show "curr (T x) = Some q" using c x qinvD(2) [OF inv q(1), of x] q(2) by auto
    qed
    show "\<forall>q'. valid_qid q' \<longrightarrow> q' \<noteq> q \<longrightarrow> p \<notin> set (R q')"
      using qinv_disjoint [OF inv q(1)] q(2) by force
  qed (use f q in auto)
  moreover have "queue_frame s ?t"
    unfolding queue_frame_def
  proof (intro conjI exI allI)
    show "proc_data (T x) = proc_data (ptable s x)" for x
      using o u proc_data_unlinked [of "T x" "ptable s x"] by (cases "x = p") simp_all
    show "curr_cpu (T x) = curr_cpu (ptable s x) \<or> curr_cpu (T x) = NOCPU" for x
      using o u unlinked_curr_cpu(1) [of "T x"] unlinked_curr_cpu(1) [of "ptable s x"]
      by (cases "x = p") (simp_all add: unclaimed_def)
  qed (use s in simp_all)
  ultimately show ?thesis using e o by auto
qed

lemma preempt_queues:
  assumes p: "on_cpu p rest R s" and ok: "ncli (cur s) = 0" "locks s PtableLock = free_lock"
  defines "c \<equiv> this_cpu s"
  defines "p' \<equiv> (ptable s p)\<lparr>state := RUNNABLE, p_pri := LOW_USER_PRIORITY\<rparr>"
  defines "R' \<equiv> R(RunQ c := rest, ReadyQ := enqueue (\<lambda>x. overtakes p' (ptable s x)) p (R ReadyQ))"
  shows "\<exists>T Q t. preempt env s = bind (resume_sched env (if_flag s)) (\<lambda>_. release PtableLock) t
    \<and> t = (in_ptable s)\<lparr>ptable := T, queues := Q\<rparr> \<and> qinv t R'
    \<and> (\<forall>x. proc_data (T x) = proc_data (if x = p then p' else ptable s x))"
proof -
  let ?u = "(in_ptable s)\<lparr>ptable := (ptable s)(p := (ptable s p)\<lparr>state := PREEMPTED\<rparr>)\<rparr>"
  have s: "qinv s R" "cpu_ok s" "cproc (cur s) = Some p" "c < NCPU" "R (RunQ c) = p # rest"
    "curr_cpu (ptable s p) = NOCPU" "p < NPROC" "p \<notin> set rest"
    using p qinvD(1) [of s R "RunQ c"] by (auto simp: on_cpu_def c_def)
  have u: "cpu_ok ?u" "ncli (cur ?u) = 1" "\<not> if_flag ?u" "this_cpu ?u = c" "cproc (cur ?u) = Some p"
    using s ok by (simp_all add: c_def)
  have uq: "qinv ?u R" using qinv_upd_data [of "in_ptable s" R] s(1) by simp
  have mv: "movable p ?u" by (rule on_cpu_movable [OF p]) (use u in auto)
  obtain v where v: "purge_queue (RunQ c) ?u = Done () v" "qinv v (R(RunQ c := rest))"
    "queue_frame ?u v" "ptable v p = (unclaimed (ptable ?u p))\<lparr>nxt := None, prv := None\<rparr>"
    using purge_qinv [OF uq mv, of "RunQ c" "[]"] s by auto
  let ?p = "(ptable v p)\<lparr>p_pri := LOW_USER_PRIORITY, state := RUNNABLE, curr := None\<rparr>"
  let ?w = "v\<lparr>ptable := (ptable v)(p := ?p)\<rparr>"
  have np: "\<not> queued (R(RunQ c := rest)) p"
    using kq.not_queued_removed [OF s(1), of "RunQ c" p] s by simp
  obtain T0 Q0 where v0: "v = (in_ptable s)\<lparr>ptable := T0, queues := Q0\<rparr>"
    "\<forall>x. proc_data (T0 x) = proc_data (ptable ?u x)"
    using v(3) u(1,2) by (auto simp: queue_frame_def)
  have mw: "movable p ?w" using queue_frame_movable [OF v(3) mv] by (simp add: movable_def)
  obtain t where t: "insert_proc_into_queue p (Some ReadyQ) ?w = Done () t"
    "qinv t (R(RunQ c := rest, ReadyQ := enqueue (\<lambda>x. overtakes (ptable ?w p) (ptable ?w x)) p (R ReadyQ)))"
    "queue_frame ?w t"
    using kq.ins_lists [OF qinv_upd_unqueued [OF v(2) np] mw _ np, of ReadyQ] by auto
  have d: "proc_data (ptable ?w x) = proc_data (if x = p then p' else ptable s x)" for x
    using v0(2) [rule_format, of x] v(4) v0(1) by (simp add: p'_def split: if_splits)
  obtain T Q where tq: "t = (in_ptable s)\<lparr>ptable := T, queues := Q\<rparr>"
    "\<forall>x. proc_data (T x) = proc_data (ptable ?w x)"
    using t(3) u(1,2) v0(1) s(2) ok by (auto simp: queue_frame_def)
  have e: "enqueue (\<lambda>x. overtakes (ptable ?w p) (ptable ?w x)) p (R ReadyQ)
      = enqueue (\<lambda>x. overtakes p' (ptable s x)) p (R ReadyQ)"
  proof (rule enqueue_cong)
    fix x assume "x \<in> set (R ReadyQ)"
    then have "x \<noteq> p" using qinv_disjoint [OF s(1), of "RunQ c" ReadyQ p] s by auto
    then show "overtakes (ptable ?w p) (ptable ?w x) = overtakes p' (ptable s x)"
      using overtakes_data [OF d [of p] d [of x]] by simp
  qed
  have st: "state (ptable v p) = PREEMPTED" "curr_cpu (ptable v p) = NOCPU"
    using v(4) s by (simp_all add: unclaimed_def)
  have vk: "cpu_ok v" "ncli (cur v) = 1" "cproc (cur v) = Some p" "intena (cur v) = if_flag s"
    "locks v PtableLock = held_by (this_cpu v)"
    using v0(1) s ok u by (simp_all add: cur_cli c_def)
  have "requeue_ready p v = Done () t"
    using t(1) st by (simp add: requeue_ready_def exec_simps)
  then have "sched env v = resume_sched env (if_flag s) t"
    using sched_exec [of v p t env] vk st tq(1) s by simp
  then have y: "preempt env s = bind (resume_sched env (if_flag s)) (\<lambda>_. release PtableLock) t"
    using s ok u(1,2) v(1) by (simp add: preempt_def cpuid_def exec_simps c_def)
  show ?thesis
    using y t(2) tq e d unfolding R'_def by (intro exI [of _ T] exI [of _ Q] exI [of _ t]) auto
qed

section \<open>A round of the scheduler\<close>

lemma set_cproc_exec [exec_simps]:
  "this_cpu s = c \<Longrightarrow> set_cproc c p s = Done () (set_cur ((cur s)\<lparr>cproc := p\<rparr>) s)"
  using upd_cpu_exec [of s "\<lambda>k. k\<lparr>cproc := p\<rparr>"] by (simp add: set_cproc_def)

lemma lcr3_exec [exec_simps]: "lcr3 w s = Done () (set_cur ((cur s)\<lparr>cr3 := w\<rparr>) s)"
  by (simp add: lcr3_def exec_simps)

lemma cpu_ok_set_cur [simp]:
  "apicid k = apicid (cur s) \<Longrightarrow> ncli k = ncli (cur s) \<Longrightarrow> cpu_ok s \<Longrightarrow> cpu_ok (set_cur k s)"
  by (simp add: cpu_ok_def [of "set_cur k s"]) (simp add: cpu_ok_def)

lemma cli_leave_set_cur:
  assumes ok: "cpu_ok s" and k: "k = (cpu_enter (if_flag s) (cur s))\<lparr>ts_esp0 := e, cr3 := w\<rparr>"
  shows "cli_leave (set_cur k (cli_enter s)) = set_cur ((cur (cli_touch s))\<lparr>ts_esp0 := e, cr3 := w\<rparr>) s"
proof -
  have f: "(ncli (cur s) = 0 \<and> (if ncli (cur s) = 0 then if_flag s else intena (cur s))) = if_flag s"
    using ok by (auto simp: cpu_ok_def)
  have l: "cpu_leave k = (cur (cli_touch s))\<lparr>ts_esp0 := e, cr3 := w\<rparr>"
    using ok unfolding k by (simp add: cur_cli cpu_enter_def cpu_leave_def cpu_touch_def)
  have ek: "apicid k = apicid (cur s)" "ncli k = ncli (cur s) + 1"
    "intena k = (if ncli (cur s) = 0 then if_flag s else intena (cur s))" unfolding k by simp_all
  have c: "cur (set_cur k (cli_enter s)) = k"
    using ok ek by (simp add: cur_cli)
  have "cli_leave (set_cur k (cli_enter s))
      = (set_cur (cpu_leave k) s)\<lparr>if_flag := (ncli (cur s) = 0 \<and> intena k)\<rparr>"
    using ok ek by (simp add: cli_leave_def c) (simp add: cli_enter_def)
  also have "\<dots> = set_cur (cpu_leave k) s"
    unfolding ek f by (cases s) (simp add: set_cur_def)
  finally show ?thesis unfolding l .
qed

lemma switchuvm_exec:
  assumes ok: "cpu_ok s" and p: "kstack (ptable s p) \<noteq> 0" "pgdir (ptable s p) \<noteq> 0"
  shows "switchuvm (Some p) s = Done () (set_cur ((cur (cli_touch s))\<lparr>
    ts_esp0 := kstack (ptable s p) + 4096, cr3 := V2P (pgdir (ptable s p))\<rparr>) s)"
proof -
  let ?k = "(cpu_enter (if_flag s) (cur s))\<lparr>ts_esp0 := kstack (ptable s p) + 4096, cr3 := V2P (pgdir (ptable s p))\<rparr>"
  let ?u = "set_cur ?k (cli_enter s)"
  have u: "cpu_ok ?u" "cur ?u = ?k"
    using ok by (simp_all add: cur_cli)
  have "popcli ?u = Done () (cli_leave ?u)"
    by (rule popcli_exec) (use u cpu_ok_ncli [OF ok] in simp_all)
  moreover have "upd_cpu (this_cpu s) f (cli_enter s) = Done () (set_cur (f (cur (cli_enter s))) (cli_enter s))" for f
    using upd_cpu_exec [of "cli_enter s"] by simp
  ultimately show ?thesis
    using ok p by (simp add: switchuvm_def exec_simps cur_cli cli_leave_set_cur)
qed


text \<open>The scheduler takes process \<open>p\<close> from the front of the ready queue.\<close>

definition can_dispatch :: "nat \<Rightarrow> nat list \<Rightarrow> (qid \<Rightarrow> nat list) \<Rightarrow> 'a kernel_scheme \<Rightarrow> bool" where
  "can_dispatch p ys R s \<longleftrightarrow> qinv s R \<and> movable p s \<and> this_cpu s < NCPU
     \<and> R ReadyQ = p # ys \<and> R (RunQ (this_cpu s)) = [] \<and> p_sig (ptable s p) = 0
     \<and> queue_mask (ptable s p) AND IN_QUEUE = 0
     \<and> kstack (ptable s p) \<noteq> 0 \<and> pgdir (ptable s p) \<noteq> 0"

lemma claim_and_move:
  assumes d: "can_dispatch p ys R s"
  defines "c \<equiv> this_cpu s"
  defines "u \<equiv> (cli_touch s)\<lparr>ptable := (ptable s)(p := (ptable s p)\<lparr>
      queue_mask := queue_mask (ptable s p) OR IN_QUEUE, curr_cpu := c\<rparr>)\<rparr>"
  shows "\<exists>T Q t. claim_proc p c s = Done True u
    \<and> seqs [remove_proc_from_queue p (Some ReadyQ), insert_proc_into_queue p (Some (RunQ c))] u = Done () t
    \<and> t = (cli_touch s)\<lparr>ptable := T, queues := Q\<rparr>
    \<and> qinv t (R(ReadyQ := ys, RunQ c := [p])) \<and> curr_cpu (T p) = NOCPU
    \<and> (\<forall>x. proc_data (T x) = proc_data (ptable s x))"
proof -
  have s: "qinv s R" "movable p s" "c < NCPU" "R ReadyQ = p # ys" "R (RunQ c) = []" "cpu_ok s"
    "locks s CheckLock = free_lock" "queue_mask (ptable s p) AND IN_QUEUE = 0"
    using d by (auto simp: can_dispatch_def c_def movable_def)
  have cl: "claim_proc p c s = Done True u"
    using s by (simp add: exec_simps u_def)
  have uq: "qinv u R" using qinv_upd_data [of "cli_touch s" R] s(1) by (simp add: u_def)
  have mv: "movable p u" using s(2) by (simp add: movable_def u_def)
  have du: "proc_data (ptable u x) = proc_data (ptable s x)" for x by (simp add: u_def)
  have claimed: "queue_mask (ptable u p) AND IN_QUEUE \<noteq> 0"
    by (simp add: u_def bit.conj_disj_distrib2)
  obtain T1 Q1 t1 where t1: "remove_proc_from_queue p (Some ReadyQ) u = Done () t1"
    "t1 = (cli_touch u)\<lparr>ptable := T1, queues := (queues u)(ReadyQ := Q1)\<rparr>"
    "qinv t1 (R(ReadyQ := ys))"
    "T1 p = (unclaimed (ptable u p))\<lparr>nxt := None, prv := None\<rparr>"
    "\<forall>x. x \<noteq> p \<longrightarrow> unlinked (T1 x) = unlinked (ptable u x)"
    using remove_qinv [OF uq movable_can(1) [OF mv], of ReadyQ] s by auto
  have c1: "curr (T1 p) = None" "curr_cpu (T1 p) = NOCPU"
    using t1(4) claimed by (simp_all add: unclaimed_def)
  have d1: "proc_data (T1 x) = proc_data (ptable s x)" for x
    using t1(4,5) du proc_data_unlinked [of "T1 x" "ptable u x"] by (cases "x = p") simp_all
  have m1: "movable p t1"
    using mv t1(2) s(6) proc_data_eqD(1) [OF d1 [of p]] by (simp add: movable_def u_def)
  have n1: "\<not> queued (R(ReadyQ := ys)) p"
    using kq.not_queued_removed [OF s(1), of ReadyQ p] s(4) by simp
  obtain T Q t where t: "insert_proc_into_queue p (Some (RunQ c)) t1 = Done () t"
    "t = (cli_touch t1)\<lparr>ptable := T, queues := (queues t1)(RunQ c := Q)\<rparr>"
    "qinv t (R(ReadyQ := ys, RunQ c := [p]))"
    and un: "\<forall>x. unlinked (T x) = (if x = p then (unlinked (ptable t1 x))\<lparr>curr := Some (RunQ c)\<rparr>
      else unlinked (ptable t1 x))"
    using insert_qinv [OF t1(3) movable_can(2) [OF m1, of "RunQ c"] n1] s c1 t1(2) by auto
  have dT: "proc_data (T x) = proc_data (ptable s x)" for x
    using arg_cong [OF un [rule_format, of x], of proc_data] d1 [of x] t1(2) by (simp split: if_splits)
  have cT: "curr_cpu (T p) = NOCPU"
    using arg_cong [OF un [rule_format, of p], of curr_cpu] c1(2) t1(2) by (simp add: unlinked_def)
  have tt: "t = (cli_touch s)\<lparr>ptable := T, queues := (queues t1)(RunQ c := Q)\<rparr>"
    using t(2) t1(2) s(6) by (simp add: u_def)
  show ?thesis
    using cl t1(1) t(1,3) tt cT dT
    by (intro exI [of _ T] exI [of _ "(queues t1)(RunQ c := Q)"] exI [of _ t]) (simp add: exec_simps)
qed

lemma run_head_exec:
  assumes s: "cpu_ok s" "this_cpu s = c" "c < NCPU" "locks s PtableLock = free_lock"
    and p: "head (queues s (RunQ c)) = Some p" "kstack (ptable s p) \<noteq> 0" "pgdir (ptable s p) \<noteq> 0"
  defines "k \<equiv> (cpu_touch (if_flag s) (cur s))\<lparr>cproc := Some p,
      ts_esp0 := kstack (ptable s p) + 4096, cr3 := V2P (pgdir (ptable s p))\<rparr>"
  shows "run_head env c s = bind (swtch env) (\<lambda>_. end_slice c)
    ((in_ptable (set_cur k s))\<lparr>ptable := (ptable s)(p := (ptable s p)\<lparr>state := RUNNING\<rparr>)\<rparr>)"
proof -
  let ?u = "set_cur ((cur s)\<lparr>cproc := Some p\<rparr>) s"
  have u: "cpu_ok ?u" "cur (cli_touch ?u) = (cpu_touch (if_flag s) (cur s))\<lparr>cproc := Some p\<rparr>"
    using s by (simp_all add: cur_cli cpu_touch_def)
  have sw: "switchuvm (Some p) ?u = Done () (set_cur k s)"
    using switchuvm_exec [OF u(1), of p] p s(1) u(2) by (simp add: k_def)
  have k: "apicid k = apicid (cur s)" "ncli k = ncli (cur s)" by (simp_all add: k_def)
  show ?thesis
    using s p k sw by (simp add: run_head_def is_queue_empty_def exec_simps)
qed

lemma scheduler_dispatch:
  assumes d: "can_dispatch p ys R s" and free: "locks s PtableLock = free_lock"
  defines "c \<equiv> this_cpu s"
  shows "\<exists>t. scheduler_pass env c s = bind (swtch env) (\<lambda>_. end_slice c) t
    \<and> on_cpu p [] (R(ReadyQ := ys, RunQ c := [p])) t \<and> state (ptable t p) = RUNNING
    \<and> locks t = (locks s)(PtableLock := held_by c) \<and> ncli (cur t) = ncli (cur s) + 1
    \<and> cr3 (cur t) = V2P (pgdir (ptable s p)) \<and> this_cpu t = c \<and> switches t = switches s
    \<and> (\<forall>x. proc_data (ptable t x)
        = proc_data (if x = p then (ptable s x)\<lparr>state := RUNNING\<rparr> else ptable s x))"
proof -
  let ?R = "R(ReadyQ := ys, RunQ c := [p])"
  have s: "qinv s R" "c < NCPU" "cpu_ok s" "R ReadyQ = p # ys" "p_sig (ptable s p) = 0"
    "kstack (ptable s p) \<noteq> 0" "pgdir (ptable s p) \<noteq> 0" "p < NPROC"
    and l: "locks s CheckLock = free_lock" "\<forall>q. valid_qid q \<longrightarrow> locks s (QLock q) = free_lock"
    using d by (auto simp: can_dispatch_def c_def movable_def)
  have h: "head (queues s ReadyQ) = Some p" "curr (ptable s p) = Some ReadyQ"
    using qinv_qrep [OF s(1), of ReadyQ] qinvD(2) [OF s(1), of ReadyQ p] s(4) by (auto simp: qrep_def)
  obtain T Q u v where m: "claim_proc p c s = Done True u"
    "seqs [remove_proc_from_queue p (Some ReadyQ), insert_proc_into_queue p (Some (RunQ c))] u = Done () v"
    "v = (cli_touch s)\<lparr>ptable := T, queues := Q\<rparr>" "qinv v ?R" "curr_cpu (T p) = NOCPU"
    and dT: "\<forall>x. proc_data (T x) = proc_data (ptable s x)"
    using claim_and_move [OF d] unfolding c_def by blast
  have pT: "kstack (T p) = kstack (ptable s p)" "pgdir (T p) = pgdir (ptable s p)"
    using proc_data_eqD(8,9) [OF dT [rule_format, of p]] by simp_all
  have hv: "head (queues v (RunQ c)) = Some p"
    using qinv_qrep [OF m(4), of "RunQ c"] s(2) by (simp add: qrep_def)
  let ?k = "(cpu_touch (if_flag v) (cur v))\<lparr>cproc := Some p,
      ts_esp0 := kstack (ptable v p) + 4096, cr3 := V2P (pgdir (ptable v p))\<rparr>"
  let ?w = "in_ptable (set_cur ?k v)"
  let ?t = "?w\<lparr>ptable := (ptable v)(p := (ptable v p)\<lparr>state := RUNNING\<rparr>)\<rparr>"
  have r: "run_head env c v = bind (swtch env) (\<lambda>_. end_slice c) ?t"
    by (rule run_head_exec) (use m(3) s free hv pT in \<open>simp_all add: c_def\<close>)
  have w: "cpu_ok ?w" "this_cpu ?w = c" "cur ?w = cpu_enter (if_flag v) ?k"
    using m(3) s(3) by (simp_all add: c_def cur_cli)
  have "qinv ?w ?R" using m(4) by simp
  then have q: "qinv ?t ?R" using qinv_upd_data [of ?w ?R "(ptable v p)\<lparr>state := RUNNING\<rparr>" p] by simp
  have on: "on_cpu p [] ?R ?t"
    unfolding on_cpu_def using q w s l m(3,5) by (auto simp: c_def)
  have e: "scheduler_pass env c s = run_head env c v"
    using h s(5) m(1,2)
    by (simp add: scheduler_pass_def is_queue_empty_def signals_pending_def
        exec_simps del: seqs.simps)
  show ?thesis
    using e r on w m(3) s(3) dT pT by (intro exI [of _ ?t]) (auto simp: c_def cur_cli)
qed

lemma end_slice_exec:
  assumes s: "cpu_ok s" "this_cpu s = c" "c < NCPU" "0 < ncli (cur s)"
    and l: "locks s PtableLock = held_by c" "locks s (QLock (RunQ c)) = free_lock"
    and h: "head (queues s (RunQ c)) = None"
  shows "end_slice c s = Done True ((cli_leave (set_cur ((cur s)\<lparr>cr3 := V2P (kpgdir s), cproc := None\<rparr>) s))
    \<lparr>locks := (locks s)(PtableLock := free_lock)\<rparr>)"
  using assms by (simp add: end_slice_def exec_simps shift_empty_exec switchkvm_def)

end
