(* ===== verification/Sleep.thy ===== *)
theory Sleep
  imports Sched_Inv
begin

text \<open>
  Sleeping and waking, and signals between processes: \<open>sleep\<close>, \<open>wakeup1\<close>, \<open>wakeup\<close>, \<open>kill\<close>,
  \<open>sig\<close>, \<open>sighandler\<close>, \<open>sigignore\<close>, \<open>change_process_space\<close> and \<open>pinit\<close> of
  \<open>kernel/sched/proc.c\<close>. A null wait channel is \<open>None\<close>.
\<close>

section \<open>Definitions\<close>

definition pinit :: "('a kernel_scheme, unit) kmon" where
  "pinit = seqs [initlock PtableLock, init_cpu_avg_counter]"

definition sleep :: "'a kernel_scheme environment \<Rightarrow> chan option \<Rightarrow> lockid option
    \<Rightarrow> ('a kernel_scheme, unit) kmon" where
  "sleep env ch lk =
     bind myproc (\<lambda>mp.
     case mp of None \<Rightarrow> panic ''sleep'' | Some p \<Rightarrow>
     (case lk of None \<Rightarrow> panic ''sleep without lk'' | Some l \<Rightarrow> seqs [
       cwhen (l \<noteq> PtableLock) (seqs [acquire PtableLock, release l]),
       upd_proc p (\<lambda>x. x\<lparr>chan := ch\<rparr>),
       upd_proc p (\<lambda>x. x\<lparr>state := SLEEPING\<rparr>),
       bind (proc_at p) (\<lambda>pp.
         if curr_cpu pp \<noteq> NOCPU then seqs [
           remove_proc_from_queue p (Some (RunQ (curr_cpu pp))),
           upd_proc p (\<lambda>x. x\<lparr>curr_cpu := NOCPU\<rparr>)]
         else cwhen (curr pp \<noteq> None) (remove_proc_from_queue p (curr pp))),
       insert_proc_into_queue p (Some SleepQ),
       sched env,
       upd_proc p (\<lambda>x. x\<lparr>chan := None\<rparr>),
       cwhen (l \<noteq> PtableLock) (seqs [release PtableLock, acquire l])]))"

text \<open>
  The loop of \<open>wakeup1\<close> follows \<open>p->next\<close> after the process may have moved to the ready queue,
  so it walks at most the processes of both queues.
\<close>

primrec wakeup_loop :: "nat \<Rightarrow> chan option \<Rightarrow> nat option \<Rightarrow> ('a kernel_scheme, unit) kmon" where
  "wakeup_loop 0 ch p = fail Diverge"
| "wakeup_loop (Suc fuel) ch p =
     (case p of
        None \<Rightarrow> return ()
      | Some i \<Rightarrow>
          bind (proc_at i) (\<lambda>pp.
          bind (if state pp = SLEEPING \<and> chan pp = ch then seqs [
                  remove_proc_from_queue i (Some SleepQ),
                  upd_proc i (\<lambda>x. x\<lparr>state := RUNNABLE\<rparr>),
                  insert_proc_into_queue i (Some ReadyQ),
                  upd_proc i (\<lambda>x. x\<lparr>p_flag := URGENT\<rparr>),
                  upd_proc i (\<lambda>x. x\<lparr>p_pri := p_pri x + 1\<rparr>)]
                else if chan pp = ch then panic ''stuck proc''
                else return ()) (\<lambda>_.
          bind (proc_at i) (\<lambda>pp.
          wakeup_loop fuel ch (nxt pp)))))"

definition wakeup1 :: "chan option \<Rightarrow> ('a kernel_scheme, unit) kmon" where
  "wakeup1 ch = bind (queue_at SleepQ) (\<lambda>q. wakeup_loop (Suc NPROC) ch (head q))"

definition wakeup :: "chan option \<Rightarrow> ('a kernel_scheme, unit) kmon" where
  "wakeup ch = seqs [acquire PtableLock, wakeup1 ch, release PtableLock]"

text \<open>The loops over \<open>ptable.proc\<close> start at slot \<open>i\<close> with \<open>n\<close> slots to go.\<close>

primrec kill_loop :: "nat \<Rightarrow> nat \<Rightarrow> int \<Rightarrow> ('a kernel_scheme, int) kmon" where
  "kill_loop 0 i n = bind (release PtableLock) (\<lambda>_. return (-1))"
| "kill_loop (Suc k) i n =
     bind (proc_at i) (\<lambda>pp.
     if pid pp = n then
       bind (upd_proc i (\<lambda>x. x\<lparr>killed := True\<rparr>)) (\<lambda>_.
       bind (cwhen (state pp = SLEEPING) (upd_proc i (\<lambda>x. x\<lparr>state := RUNNABLE\<rparr>))) (\<lambda>_.
       bind (release PtableLock) (\<lambda>_.
       return 0)))
     else kill_loop k (Suc i) n)"

definition kill :: "int \<Rightarrow> ('a kernel_scheme, int) kmon" where
  "kill n = bind (acquire PtableLock) (\<lambda>_. kill_loop NPROC 0 n)"

abbreviation (input) ESIG :: int where "ESIG \<equiv> 1000000000"
abbreviation (input) ENOPROC :: int where "ENOPROC \<equiv> 1000000001"

primrec sig_loop :: "nat \<Rightarrow> nat \<Rightarrow> 32 word \<Rightarrow> int \<Rightarrow> ('a kernel_scheme, int) kmon" where
  "sig_loop 0 i sigmask n = bind (release PtableLock) (\<lambda>_. return ENOPROC)"
| "sig_loop (Suc k) i sigmask n =
     bind (proc_at i) (\<lambda>pp.
     if pid pp = n \<and> state pp \<noteq> UNUSED then
       bind (upd_proc i (\<lambda>x. x\<lparr>p_sig := p_sig x OR sigmask\<rparr>)) (\<lambda>_.
       bind (cwhen (state pp \<noteq> RUNNING) (upd_proc i (\<lambda>x. x\<lparr>state := RUNNABLE\<rparr>))) (\<lambda>_.
       bind (upd_proc i (\<lambda>x. x\<lparr>p_pri := TOP_PRIORITY\<rparr>)) (\<lambda>_.
       bind (release PtableLock) (\<lambda>_.
       return 0))))
     else sig_loop k (Suc i) sigmask n)"

definition valid_signals :: "32 word" where
  "valid_signals = SIGKILL AND SIGSEG AND SIGINT AND SIGPIPE AND SIGHUP AND SIGSYS AND SIGCPU"

definition sig :: "32 word \<Rightarrow> int \<Rightarrow> ('a kernel_scheme, int) kmon" where
  "sig sigmask n =
     (if valid_signals <s sigmask then return ESIG
      else bind (acquire PtableLock) (\<lambda>_. sig_loop NPROC 0 sigmask n))"

definition sighandler :: "32 word \<Rightarrow> ('a kernel_scheme, unit) kmon" where
  "sighandler func = seqs [
     acquire PtableLock,
     bind myproc (\<lambda>mp. deref mp (\<lambda>p. upd_proc p (\<lambda>x. x\<lparr>signal_handler := V2P func\<rparr>))),
     release PtableLock]"

definition sigignore :: "32 word \<Rightarrow> int \<Rightarrow> ('a kernel_scheme, unit) kmon" where
  "sigignore sigmask action =
     bind myproc (\<lambda>mp. seqs [
       acquire PtableLock,
       deref mp (\<lambda>p.
         if action = 0 then upd_proc p (\<lambda>x. x\<lparr>p_ign := p_ign x AND sigmask\<rparr>)
         else upd_proc p (\<lambda>x. x\<lparr>p_ign := p_ign x OR sigmask\<rparr>)),
       release PtableLock])"

definition change_process_space :: "int \<Rightarrow> ('a kernel_scheme, unit) kmon" where
  "change_process_space state_flag =
     bind myproc (\<lambda>mp. deref mp (\<lambda>p.
       upd_proc p (\<lambda>x. x\<lparr>space_flag := (if state_flag = 1 then KERNEL_PROC else USER_PROC)\<rparr>)))"

section \<open>Going to sleep\<close>

text \<open>
  The states in which \<open>sleep\<close> has exchanged the caller's lock for the process table lock. The
  caller holds no other lock.
\<close>

definition handover :: "lockid \<Rightarrow> 'a machine_scheme \<Rightarrow> 'a machine_scheme" where
  "handover l s = s\<lparr>locks := (locks s)(PtableLock := held_by (this_cpu s),
     l := (if l = PtableLock then held_by (this_cpu s) else free_lock))\<rparr>"

lemma handover_kernel [simp]: "ptable (handover l s) = ptable s" "queues (handover l s) = queues s"
  by (simp_all add: handover_def)

definition can_sleep :: "lockid \<Rightarrow> nat \<Rightarrow> nat list \<Rightarrow> (qid \<Rightarrow> nat list) \<Rightarrow> 'a kernel_scheme \<Rightarrow> bool" where
  "can_sleep l p rest R s \<longleftrightarrow> on_cpu p rest R s \<and> ncli (cur s) = 1
     \<and> locks s l = held_by (this_cpu s) \<and> (l = PtableLock \<or> locks s PtableLock = free_lock)
     \<and> l \<noteq> CheckLock \<and> (\<forall>q. l \<noteq> QLock q)"

lemma handover_exec:
  assumes "can_sleep l p rest R s"
  shows "cwhen (l \<noteq> PtableLock) (seqs [acquire PtableLock, release l]) s = Done () (handover l s)"
  using assms by (auto simp: can_sleep_def on_cpu_def handover_def exec_simps fun_upd_idem)

lemma sleep_queues:
  fixes ch :: "chan option"
  assumes can: "can_sleep l p rest R s"
  defines "c \<equiv> this_cpu s"
  defines "p' \<equiv> (ptable s p)\<lparr>chan := ch, state := SLEEPING\<rparr>"
  defines "R' \<equiv> R(RunQ c := rest, SleepQ := enqueue (\<lambda>x. overtakes p' (ptable s x)) p (R SleepQ))"
  shows "\<exists>T Q t. sleep env ch (Some l) s = bind (resume_sched env (intena (cur s))) (\<lambda>_. seqs [
        upd_proc p (\<lambda>x. x\<lparr>chan := None\<rparr>),
        cwhen (l \<noteq> PtableLock) (seqs [release PtableLock, acquire l])]) t
    \<and> t = (handover l s)\<lparr>ptable := T, queues := Q\<rparr> \<and> qinv t R'
    \<and> (\<forall>x. proc_data (T x) = proc_data (if x = p then p' else ptable s x))"
proof -
  have s: "qinv s R" "cpu_ok s" "cproc (cur s) = Some p" "c < NCPU" "R (RunQ c) = p # rest"
    "curr_cpu (ptable s p) = NOCPU" "p < NPROC" "curr (ptable s p) = Some (RunQ c)"
    "ncli (cur s) = 1" "\<forall>q. valid_qid q \<longrightarrow> locks s (QLock q) = free_lock"
    "locks s CheckLock = free_lock"
    using can qinvD(2) [of s R "RunQ c" p] by (auto simp: can_sleep_def on_cpu_def c_def)
  let ?u = "(handover l s)\<lparr>ptable := (ptable s)(p := p')\<rparr>"
  have u: "cpu_ok ?u" "ncli (cur ?u) = 1" "this_cpu ?u = c" "cproc (cur ?u) = Some p"
    "locks ?u PtableLock = held_by c" "intena (cur ?u) = intena (cur s)" "if_flag ?u = if_flag s"
    using s can by (auto simp: c_def handover_def can_sleep_def)
  have uq: "qinv ?u R"
    using qinv_upd_data [of "handover l s" R p' p] s(1) by (simp add: p'_def handover_def)
  have mv: "movable p ?u"
    using s u(1) can by (auto simp: movable_def handover_def p'_def can_sleep_def)
  obtain t where m: "bind (remove_proc_from_queue p (Some (RunQ c)))
        (\<lambda>_. insert_proc_into_queue p (Some SleepQ)) ?u = Done () t"
    and t: "qinv t (R(RunQ c := rest, SleepQ := enqueue (\<lambda>x. overtakes (ptable ?u p) (ptable ?u x)) p (R SleepQ)))"
    "queue_frame ?u t"
    using kq.move [OF uq mv, of "RunQ c" SleepQ] s by auto
  obtain v where v: "remove_proc_from_queue p (Some (RunQ c)) ?u = Done () v"
    "insert_proc_into_queue p (Some SleepQ) v = Done () t"
    using m by (elim bind_DoneE) auto
  obtain T Q where t0: "t = ?u\<lparr>ptable := T, queues := Q\<rparr>"
    "\<forall>x. proc_data (T x) = proc_data (ptable ?u x)"
    "\<forall>x. curr_cpu (T x) = curr_cpu (ptable ?u x) \<or> curr_cpu (T x) = NOCPU"
    using u(2) by (auto intro: queue_frame_nestedE [OF t(2)])
  have tq: "t = (handover l s)\<lparr>ptable := T, queues := Q\<rparr>" using t0(1) by simp
  have nocpu: "curr_cpu (T p) = NOCPU" using t0(3) [rule_format, of p] s(6) by (simp add: p'_def)
  have d: "proc_data (T x) = proc_data (if x = p then p' else ptable s x)" for x
    using t0(2) by simp
  have e: "enqueue (\<lambda>x. overtakes (ptable ?u p) (ptable ?u x)) p (R SleepQ)
      = enqueue (\<lambda>x. overtakes p' (ptable s x)) p (R SleepQ)"
    by (rule enqueue_cong) (use qinv_disjoint [OF s(1), of "RunQ c" SleepQ p] s in auto)
  have st: "state (T p) = SLEEPING" using proc_data_eqD(1) [OF d [of p]] by (simp add: p'_def)
  have tk: "cpu_ok t" "ncli (cur t) = 1" "this_cpu t = c" "cproc (cur t) = Some p"
    "locks t PtableLock = held_by c" "intena (cur t) = intena (cur s)" "\<not> if_flag t"
    using u tq s(2) by (simp_all add: handover_def) (simp add: cpu_ok_def s(9))
  have "requeue_ready p t = Done () t"
    using st tq by (simp add: requeue_ready_def exec_simps)
  then have sc: "sched env t = resume_sched env (intena (cur s)) t"
    using sched_exec [of t p t env] tk st tq nocpu by simp
  have "sleep env ch (Some l) s = bind (resume_sched env (intena (cur s))) (\<lambda>_. seqs [
        upd_proc p (\<lambda>x. x\<lparr>chan := None\<rparr>),
        cwhen (l \<noteq> PtableLock) (seqs [release PtableLock, acquire l])]) t"
    using handover_exec [OF can] v sc s
    by (simp add: sleep_def exec_simps p'_def)
  then show ?thesis
    using t(1) tq e d unfolding R'_def by (intro exI [of _ T] exI [of _ Q] exI [of _ t]) auto
qed

section \<open>Waking up\<close>

lemma wakeup_loop_skip:
  "\<lbrakk>seg (ptable s) p us e; \<forall>u \<in> set us. chan (ptable s u) \<noteq> ch; length us \<le> fuel\<rbrakk>
   \<Longrightarrow> wakeup_loop fuel ch (fst_or us e) s = wakeup_loop (fuel - length us) ch e s"
proof (induction us arbitrary: p fuel)
  case Nil
  then show ?case by simp
next
  case (Cons u us)
  then obtain f where f: "fuel = Suc f" by (cases fuel) auto
  with Cons.prems Cons.IH [of "Some u" f] show ?case by (simp add: exec_simps)
qed

lemma wakeup1_none:
  assumes "qinv s R" "\<forall>x \<in> set (R SleepQ). chan (ptable s x) \<noteq> ch"
  shows "wakeup1 ch s = Done () s"
proof -
  have q: "qrep (ptable s) (queues s SleepQ) (R SleepQ)" using qinv_qrep [OF assms(1)] by simp
  then have "wakeup_loop (Suc NPROC) ch (fst_or (R SleepQ) None) s
      = wakeup_loop (Suc NPROC - length (R SleepQ)) ch None s"
    by (intro wakeup_loop_skip [where p = None]) (use assms length_qrep [OF q] in \<open>auto simp: qrep_def\<close>)
  moreover obtain k where "Suc NPROC - length (R SleepQ) = Suc k"
    using length_qrep [OF q] by (metis Suc_diff_le)
  ultimately show ?thesis
    using q by (simp add: wakeup1_def exec_simps qrep_def del: wakeup_loop.simps(2))
      (simp add: exec_simps)
qed

lemma enqueue_split:
  assumes "distinct ys" "p \<notin> set ys"
  obtains xs zs where "enqueue ov p ys = xs @ p # zs" "set zs \<subseteq> set ys"
proof -
  have "p \<in> set (enqueue ov p ys)" by (simp add: set_enqueue)
  then obtain xs zs where e: "enqueue ov p ys = xs @ p # zs" by (meson split_list)
  have "distinct (xs @ p # zs)" using enqueue_distinct [OF assms, of ov] e by simp
  moreover have "set (xs @ p # zs) = insert p (set ys)" using e set_enqueue by metis
  ultimately have "set zs \<subseteq> set ys" by auto
  with e that show ?thesis by blast
qed

text \<open>The body of the loop for a waiting process: it moves to the ready queue.\<close>

definition woken :: "proc \<Rightarrow> proc" where
  "woken p = p\<lparr>state := RUNNABLE, p_flag := URGENT, p_pri := p_pri p + 1\<rparr>"

lemma wake_move:
  assumes inv: "qinv s R" and mv: "movable p s" and n: "0 < ncli (cur s)" and q: "R SleepQ = as @ p # bs"
  defines "R' \<equiv> R(SleepQ := as @ bs,
      ReadyQ := enqueue (\<lambda>x. overtakes ((ptable s p)\<lparr>state := RUNNABLE\<rparr>) (ptable s x)) p (R ReadyQ))"
  shows "\<exists>T Q t. seqs [
        remove_proc_from_queue p (Some SleepQ),
        upd_proc p (\<lambda>x. x\<lparr>state := RUNNABLE\<rparr>),
        insert_proc_into_queue p (Some ReadyQ),
        upd_proc p (\<lambda>x. x\<lparr>p_flag := URGENT\<rparr>),
        upd_proc p (\<lambda>x. x\<lparr>p_pri := p_pri x + 1\<rparr>)] s = Done () t
    \<and> t = s\<lparr>ptable := T, queues := Q\<rparr> \<and> qinv t R'
    \<and> (\<forall>x. proc_data (T x) = proc_data (if x = p then woken (ptable s x) else ptable s x))"
proof -
  have dq: "distinct (R SleepQ)" using qinvD(1) [OF inv] by auto
  have ps: "p \<in> set (R SleepQ)" "remove1 p (R SleepQ) = as @ bs" "p \<notin> set (R ReadyQ)"
    using q dq qinv_disjoint [OF inv, of SleepQ ReadyQ p] by (auto simp: remove1_append)
  obtain v where v: "remove_proc_from_queue p (Some SleepQ) s = Done () v"
    "qinv v (R(SleepQ := as @ bs))" "curr (ptable v p) \<in> {None, Some SleepQ}" "queue_frame s v"
    using kq.rem_lists [OF inv mv _ ps(1)] ps(2) by auto
  have np: "\<not> queued (R(SleepQ := as @ bs)) p"
    using kq.not_queued_removed [OF inv _ ps(1)] ps(2) by simp
  let ?v = "v\<lparr>ptable := (ptable v)(p := (ptable v p)\<lparr>state := RUNNABLE\<rparr>)\<rparr>"
  have mv2: "movable p ?v" using queue_frame_movable [OF v(4) mv] by (simp add: movable_def)
  have cv: "curr (ptable ?v p) \<noteq> Some ReadyQ" using v(3) by auto
  obtain w where w: "insert_proc_into_queue p (Some ReadyQ) ?v = Done () w"
    "qinv w (R(SleepQ := as @ bs, ReadyQ :=
       enqueue (\<lambda>x. overtakes (ptable ?v p) (ptable ?v x)) p (R ReadyQ)))" "queue_frame ?v w"
    using kq.ins_lists [OF qinv_upd_unqueued [OF v(2) np] mv2 _ np cv] by auto
  obtain T0 Q0 where v0: "v = s\<lparr>ptable := T0, queues := Q0\<rparr>"
    "\<forall>x. proc_data (T0 x) = proc_data (ptable s x)"
    using n by (auto intro: queue_frame_nestedE [OF v(4)])
  obtain T1 Q1 where w0: "w = s\<lparr>ptable := T1, queues := Q1\<rparr>"
    "\<forall>x. proc_data (T1 x) = proc_data (ptable ?v x)"
    using n v0(1) by (auto intro: queue_frame_nestedE [OF w(3)])
  let ?p = "(T1 p)\<lparr>p_flag := URGENT, p_pri := p_pri (T1 p) + 1\<rparr>"
  let ?t = "w\<lparr>ptable := T1(p := ?p)\<rparr>"
  have d1: "proc_data (T1 x) = proc_data (if x = p then (ptable s x)\<lparr>state := RUNNABLE\<rparr> else ptable s x)" for x
    using w0(2) v0 by simp
  have d: "proc_data ((T1(p := ?p)) x) = proc_data (if x = p then woken (ptable s x) else ptable s x)" for x
    using d1 [of x] proc_data_eqD(2) [OF d1 [of p]] by (cases "x = p") (simp_all add: woken_def)
  have "enqueue (\<lambda>x. overtakes (ptable ?v p) (ptable ?v x)) p (R ReadyQ) = R' ReadyQ"
    unfolding R'_def fun_upd_same
    by (rule enqueue_cong) (use v0 ps(3) in \<open>auto intro!: overtakes_data\<close>)
  then have "qinv ?t R'"
    using w(2) qinv_upd_data [of w R' ?p p] w0(1) unfolding R'_def by simp
  then show ?thesis
    using v(1) w(1) w0(1) d
    by (intro exI [of _ "T1(p := ?p)"] exI [of _ Q1] exI [of _ ?t]) (simp add: exec_simps)
qed

lemma wakeup_loop_hit:
  assumes "state (ptable s p) = SLEEPING" "chan (ptable s p) = ch"
    and "seqs [
        remove_proc_from_queue p (Some SleepQ),
        upd_proc p (\<lambda>x. x\<lparr>state := RUNNABLE\<rparr>),
        insert_proc_into_queue p (Some ReadyQ),
        upd_proc p (\<lambda>x. x\<lparr>p_flag := URGENT\<rparr>),
        upd_proc p (\<lambda>x. x\<lparr>p_pri := p_pri x + 1\<rparr>)] s = Done () t"
  shows "wakeup_loop (Suc fuel) ch (Some p) s = wakeup_loop fuel ch (nxt (ptable t p)) t"
  using assms by (simp add: bind_exec access_exec del: seqs.simps)

text \<open>
  \<open>wakeup1\<close> moves the first waiting process from the sleep queue to the ready queue, marks it
  urgent and raises its priority. The processes behind it in the sleep queue stay there: the
  loop goes on in the ready queue, where no process waits for the channel.
\<close>

lemma distinct_bounded: "distinct xs \<Longrightarrow> set xs \<subseteq> {..<NPROC} \<Longrightarrow> length xs \<le> NPROC"
  using card_mono [of "{..<NPROC}" "set xs"] by (simp add: distinct_card)

lemma wakeup1_first:
  assumes inv: "qinv s R" and mv: "movable p s" and n: "0 < ncli (cur s)"
    and q: "R SleepQ = as @ p # bs" "\<forall>a \<in> set as. chan (ptable s a) \<noteq> ch"
    and p: "state (ptable s p) = SLEEPING" "chan (ptable s p) = ch"
    and r: "\<forall>x \<in> set (R ReadyQ). chan (ptable s x) \<noteq> ch"
  defines "R' \<equiv> R(SleepQ := as @ bs,
      ReadyQ := enqueue (\<lambda>x. overtakes ((ptable s p)\<lparr>state := RUNNABLE\<rparr>) (ptable s x)) p (R ReadyQ))"
  shows "\<exists>T Q t. wakeup1 ch s = Done () t \<and> t = s\<lparr>ptable := T, queues := Q\<rparr> \<and> qinv t R'
    \<and> (\<forall>x. proc_data (T x) = proc_data (if x = p then woken (ptable s x) else ptable s x))"
proof -
  obtain T Q t where m: "seqs [
        remove_proc_from_queue p (Some SleepQ),
        upd_proc p (\<lambda>x. x\<lparr>state := RUNNABLE\<rparr>),
        insert_proc_into_queue p (Some ReadyQ),
        upd_proc p (\<lambda>x. x\<lparr>p_flag := URGENT\<rparr>),
        upd_proc p (\<lambda>x. x\<lparr>p_pri := p_pri x + 1\<rparr>)] s = Done () t"
    and t: "t = s\<lparr>ptable := T, queues := Q\<rparr>" "qinv t R'"
    and d: "\<forall>x. proc_data (T x) = proc_data (if x = p then woken (ptable s x) else ptable s x)"
    using wake_move [OF inv mv n q(1)] unfolding R'_def by blast
  have rep: "qrep (ptable s) (queues s SleepQ) (as @ p # bs)" using qinv_qrep [OF inv, of SleepQ] q by simp
  have pr: "p \<notin> set (R ReadyQ)" using q qinv_disjoint [OF inv, of SleepQ ReadyQ p] by auto
  have dr: "distinct (R ReadyQ)" using qinvD(1) [OF inv] by simp
  obtain xs zs where en: "R' ReadyQ = xs @ p # zs" "set zs \<subseteq> set (R ReadyQ)"
    unfolding R'_def fun_upd_same by (rule enqueue_split [OF dr pr])
  have dz: "distinct (xs @ p # zs)" using qinvD(1) [OF t(2), of ReadyQ] en(1) by simp
  have sg: "nxt (ptable t p) = fst_or zs None" "seg (ptable t) (Some p) zs None"
    using qinv_qrep [OF t(2), of ReadyQ] en(1) by (auto simp: qrep_def)
  have chz: "\<forall>z \<in> set zs. chan (ptable t z) \<noteq> ch"
  proof
    fix z assume "z \<in> set zs"
    then have "z \<in> set (R ReadyQ)" "z \<noteq> p" using en(2) pr by auto
    then show "chan (ptable t z) \<noteq> ch" using r t(1) proc_data_eqD(4) [OF d [rule_format, of z]] by simp
  qed
  have rp: "distinct (as @ p # bs)" "set (as @ p # bs) \<subseteq> {..<NPROC}"
    "seg (ptable s) None as (Some p)" "head (queues s SleepQ) = fst_or as (Some p)"
    using rep by (simp_all add: qrep_def)
  have "set as \<inter> set (R ReadyQ) = {}" using q(1) qinv_disjoint [OF inv, of SleepQ ReadyQ] by auto
  then have "distinct (as @ p # zs)" using rp(1) dz en(2) by auto
  moreover have "set (as @ p # zs) \<subseteq> {..<NPROC}"
    using rp(2) en(2) qinvD(3) [OF inv, of ReadyQ] by auto
  ultimately have len: "length as + Suc (length zs) \<le> NPROC"
    using distinct_bounded [of "as @ p # zs"] by simp
  have l1: "wakeup_loop (Suc NPROC) ch (fst_or as (Some p)) s = wakeup_loop (Suc NPROC - length as) ch (Some p) s"
    by (rule wakeup_loop_skip [where p = None]) (use q rp(3) len in simp_all)
  obtain k where k: "Suc NPROC - length as = Suc (length zs + Suc k)"
    using len by (intro that [of "NPROC - length as - length zs - 1"]) auto
  have l2: "wakeup_loop (length zs + Suc k) ch (fst_or zs None) t = Done () t"
    using wakeup_loop_skip [of t "Some p" zs None ch "length zs + Suc k"] sg chz by (simp add: exec_simps)
  have "wakeup1 ch s = Done () t"
  proof -
    have "wakeup1 ch s = wakeup_loop (Suc (length zs + Suc k)) ch (Some p) s"
      using l1 k rp(4) by (simp add: wakeup1_def exec_simps del: wakeup_loop.simps)
    also have "\<dots> = Done () t"
      unfolding wakeup_loop_hit [OF p m] sg(1) by (rule l2)
    finally show ?thesis .
  qed
  with t d show ?thesis by blast
qed

text \<open>
  A process in the sleep queue that is not marked as sleeping, such as one that \<open>kill\<close> or
  \<open>sig\<close> made runnable, stops the machine when its channel is woken.
\<close>

lemma wakeup1_stuck:
  assumes inv: "qinv s R" and q: "R SleepQ = as @ p # bs" "\<forall>a \<in> set as. chan (ptable s a) \<noteq> ch"
    and p: "state (ptable s p) \<noteq> SLEEPING" "chan (ptable s p) = ch"
  shows "wakeup1 ch s = Fail (Panic ''stuck proc'')"
proof -
  have rep: "qrep (ptable s) (queues s SleepQ) (as @ p # bs)" using qinv_qrep [OF inv, of SleepQ] q by simp
  have len: "length as < NPROC" using length_qrep [OF rep] by simp
  have rp: "seg (ptable s) None as (Some p)" "head (queues s SleepQ) = fst_or as (Some p)"
    using rep by (simp_all add: qrep_def)
  have "wakeup_loop (Suc NPROC) ch (fst_or as (Some p)) s = wakeup_loop (Suc NPROC - length as) ch (Some p) s"
    by (rule wakeup_loop_skip [where p = None]) (use q rp(1) len in simp_all)
  moreover obtain k where "Suc NPROC - length as = Suc k"
    using len by (intro that [of "NPROC - length as"]) auto
  ultimately show ?thesis
    using p rp(2) by (simp add: wakeup1_def exec_simps)
qed

section \<open>Killing and signalling\<close>

lemma kill_loop_exec:
  assumes "\<forall>j. i \<le> j \<longrightarrow> j < i + k \<longrightarrow> pid (ptable s j) \<noteq> n"
  shows "kill_loop (k + m) i n s = kill_loop m (i + k) n s"
  using assms by (induction k arbitrary: i) (auto simp: exec_simps)

definition killed_by :: "proc \<Rightarrow> proc" where
  "killed_by p = p\<lparr>killed := True, state := (if state p = SLEEPING then RUNNABLE else state p)\<rparr>"

lemma kill_found:
  assumes ok: "cpu_ok s" "locks s PtableLock = free_lock" and i: "i < NPROC" "pid (ptable s i) = n"
    and first: "\<forall>j < i. pid (ptable s j) \<noteq> n"
  shows "kill n s = Done 0 ((cli_touch s)\<lparr>ptable := (ptable s)(i := killed_by (ptable s i))\<rparr>)"
proof -
  obtain m where m: "NPROC = i + Suc m" using i(1) less_imp_Suc_add [OF i(1)] by auto
  let ?t = "in_ptable s"
  have "kill_loop NPROC 0 n ?t = kill_loop (Suc m) i n ?t"
    unfolding m using kill_loop_exec [of 0 i ?t n "Suc m"] first by simp
  also have "\<dots> = Done 0 ((cli_touch s)\<lparr>ptable := (ptable s)(i := killed_by (ptable s i))\<rparr>)"
    using ok i(2) cpu_ok_ncli [OF ok(1)] by (simp add: exec_simps killed_by_def fun_upd_idem)
  finally show ?thesis using ok by (simp add: kill_def exec_simps del: kill_loop.simps)
qed

lemma kill_missing:
  assumes ok: "cpu_ok s" "locks s PtableLock = free_lock" and none: "\<forall>j < NPROC. pid (ptable s j) \<noteq> n"
  shows "kill n s = Done (- 1) (cli_touch s)"
proof -
  let ?t = "in_ptable s"
  have "kill_loop (NPROC + 0) 0 n ?t = kill_loop 0 (0 + NPROC) n ?t"
    by (rule kill_loop_exec) (use none in auto)
  then show ?thesis
    using ok cpu_ok_ncli [OF ok(1)]
    by (simp add: kill_def exec_simps fun_upd_idem del: kill_loop.simps(2))
qed

lemma sig_rejects: "0 <s sigmask \<Longrightarrow> sig sigmask n s = Done ESIG s"
  by (simp add: sig_def valid_signals_def exec_simps)

lemma sigignore_exec:
  assumes "cpu_ok s" "locks s PtableLock = free_lock" "cproc (cur s) = Some p"
  shows "sigignore sigmask action s = Done () ((cli_touch s)\<lparr>ptable := (ptable s)(p := (ptable s p)\<lparr>
    p_ign := (if action = 0 then p_ign (ptable s p) AND sigmask else p_ign (ptable s p) OR sigmask)\<rparr>)\<rparr>)"
  using assms cpu_ok_ncli [OF assms(1)] by (simp add: sigignore_def exec_simps fun_upd_idem)

end
