(* ===== verification/Cstring.thy ===== *)
theory Cstring
  imports Prelude
begin

text \<open>
  The memory and string routines of \<open>kernel/mm/string.c\<close> and \<open>user/ulib.c\<close>, on a memory of
  bytes addressed by 32-bit pointers. The lemmas relate them to lists of characters.
\<close>

section \<open>Memory\<close>

type_synonym ptr = "32 word"
type_synonym bytes = "ptr \<Rightarrow> 8 word"

section \<open>Block operations\<close>

primrec stosb :: "nat \<Rightarrow> ptr \<Rightarrow> 8 word \<Rightarrow> bytes \<Rightarrow> bytes" where
  "stosb 0 d c m = m"
| "stosb (Suc n) d c m = stosb n (d + 1) c (m(d := c))"

text \<open>A 32-bit store is little-endian.\<close>

definition store32 :: "ptr \<Rightarrow> 32 word \<Rightarrow> bytes \<Rightarrow> bytes" where
  "store32 d w m = m(d := ucast w, d + 1 := ucast (drop_bit 8 w), d + 2 := ucast (drop_bit 16 w),
     d + 3 := ucast (drop_bit 24 w))"

primrec stosl :: "nat \<Rightarrow> ptr \<Rightarrow> 32 word \<Rightarrow> bytes \<Rightarrow> bytes" where
  "stosl 0 d w m = m"
| "stosl (Suc n) d w m = stosl n (d + 4) w (store32 d w m)"

definition memset :: "ptr \<Rightarrow> 32 word \<Rightarrow> 32 word \<Rightarrow> bytes \<Rightarrow> bytes" where
  "memset dst c n m =
     (if dst mod 4 = 0 \<and> n mod 4 = 0 then
        let c = c AND 0xFF in
        stosl (unat (n div 4)) dst (push_bit 24 c OR push_bit 16 c OR push_bit 8 c OR c) m
      else stosb (unat n) dst (ucast c) m)"

primrec memcmp_loop :: "nat \<Rightarrow> ptr \<Rightarrow> ptr \<Rightarrow> bytes \<Rightarrow> int" where
  "memcmp_loop 0 s1 s2 m = 0"
| "memcmp_loop (Suc n) s1 s2 m =
     (if m s1 \<noteq> m s2 then uint (m s1) - uint (m s2) else memcmp_loop n (s1 + 1) (s2 + 1) m)"

definition memcmp :: "ptr \<Rightarrow> ptr \<Rightarrow> 32 word \<Rightarrow> bytes \<Rightarrow> int" where
  "memcmp v1 v2 n m = memcmp_loop (unat n) v1 v2 m"

primrec copy_down :: "nat \<Rightarrow> ptr \<Rightarrow> ptr \<Rightarrow> bytes \<Rightarrow> bytes" where
  "copy_down 0 d s m = m"
| "copy_down (Suc n) d s m = copy_down n (d - 1) (s - 1) (m(d - 1 := m (s - 1)))"

primrec copy_up :: "nat \<Rightarrow> ptr \<Rightarrow> ptr \<Rightarrow> bytes \<Rightarrow> bytes" where
  "copy_up 0 d s m = m"
| "copy_up (Suc n) d s m = copy_up n (d + 1) (s + 1) (m(d := m s))"

definition memmove :: "ptr \<Rightarrow> ptr \<Rightarrow> 32 word \<Rightarrow> bytes \<Rightarrow> bytes" where
  "memmove d s n m =
     (if s < d \<and> s + n > d then copy_down (unat n) (d + n) (s + n) m
      else copy_up (unat n) d s m)"

definition memcpy :: "ptr \<Rightarrow> ptr \<Rightarrow> 32 word \<Rightarrow> bytes \<Rightarrow> bytes" where
  "memcpy d s n m = memmove d s n m"

definition fits :: "ptr \<Rightarrow> nat \<Rightarrow> bool" where
  "fits p n \<longleftrightarrow> unat p + n \<le> 2 ^ 32"

definition within :: "ptr \<Rightarrow> nat \<Rightarrow> ptr \<Rightarrow> bool" where
  "within p n x \<longleftrightarrow> unat p \<le> unat x \<and> unat x < unat p + n"

lemma within_0 [simp]: "\<not> within p 0 x"
  by (simp add: within_def)

lemma fits_add: "fits p n \<Longrightarrow> i < n \<Longrightarrow> unat (p + of_nat i) = unat p + i"
  by (simp add: fits_def unat_word_ariths unat_of_nat)

lemma fits_next: "fits p (Suc n) \<Longrightarrow> fits (p + 1) n"
  by (cases n) (auto simp: fits_def unat_word_ariths)

lemma fits_le: "fits p n \<Longrightarrow> k \<le> n \<Longrightarrow> fits p k"
  by (simp add: fits_def)

lemma within_Suc: "fits p (Suc n) \<Longrightarrow> within p (Suc n) x \<longleftrightarrow> x = p \<or> within (p + 1) n x"
  by (cases n) (auto simp: within_def fits_def unat_word_ariths word_unat_eq_iff)

lemma not_within_next: "fits p (Suc n) \<Longrightarrow> \<not> within (p + 1) n p"
  by (cases n) (auto simp: within_def fits_def unat_word_ariths)

lemma within_add: "fits p n \<Longrightarrow> i < n \<Longrightarrow> within p n (p + of_nat i)"
  using fits_add [of p n i] by (simp add: within_def)

lemma withinE:
  assumes "fits p n" "within p n x"
  obtains i where "i < n" "x = p + of_nat i"
proof
  show "unat (x - p) < n" "x = p + of_nat (unat (x - p))"
    using assms by (auto simp: within_def fits_def unat_sub word_le_nat_alt)
qed

lemma stosb_spec: "fits d n \<Longrightarrow> stosb n d c m x = (if within d n x then c else m x)"
proof (induction n arbitrary: d m)
  case 0
  then show ?case by simp
next
  case (Suc n)
  then show ?case by (auto simp: fits_next within_Suc)
qed

text \<open>The copy loops, when the regions overlap at most in the direction of the copy.\<close>

lemma copy_up_spec:
  "\<lbrakk>fits d n; fits s n; unat d \<le> unat s \<or> unat s + n \<le> unat d\<rbrakk>
   \<Longrightarrow> (\<forall>i < n. copy_up n d s m (d + of_nat i) = m (s + of_nat i))
     \<and> (\<forall>x. \<not> within d n x \<longrightarrow> copy_up n d s m x = m x)"
proof (induction n arbitrary: d s m)
  case 0
  then show ?case by simp
next
  case (Suc n)
  let ?m = "m(d := m s)"
  show ?case
  proof (cases n)
    case 0
    then show ?thesis using Suc.prems by (auto simp: within_Suc)
  next
    case (Suc k)
    have u: "unat (d + 1) = unat d + 1" "unat (s + 1) = unat s + 1"
      using fits_add [OF Suc.prems(1), of 1] fits_add [OF Suc.prems(2), of 1] Suc by simp_all
    have ih: "(\<forall>i < n. copy_up n (d + 1) (s + 1) ?m (d + 1 + of_nat i) = ?m (s + 1 + of_nat i))
        \<and> (\<forall>x. \<not> within (d + 1) n x \<longrightarrow> copy_up n (d + 1) (s + 1) ?m x = ?m x)"
      by (rule Suc.IH) (use Suc.prems u in \<open>auto intro: fits_next\<close>)
    have ne: "s + 1 + of_nat j \<noteq> d" if "j < n" for j
    proof
      assume "s + 1 + of_nat j = d"
      then have "unat d = unat s + 1 + j"
        using fits_add [OF fits_next [OF Suc.prems(2)] that] u by simp
      with Suc.prems(3) that show False by auto
    qed
    show ?thesis
    proof (intro conjI allI impI)
      fix i assume "i < Suc n"
      then show "copy_up (Suc n) d s m (d + of_nat i) = m (s + of_nat i)"
        using ih ne [of "i - 1"] not_within_next [OF Suc.prems(1)]
        by (cases i) (auto simp: ac_simps)
    next
      fix x assume "\<not> within d (Suc n) x"
      then show "copy_up (Suc n) d s m x = m x"
        using ih within_Suc [OF Suc.prems(1), of x] by auto
    qed
  qed
qed

lemma within_Suc_last: "fits p (Suc n) \<Longrightarrow> within p (Suc n) x \<longleftrightarrow> x = p + of_nat n \<or> within p n x"
  using fits_add [of p "Suc n" n] by (auto simp: within_def word_unat_eq_iff)

lemma copy_down_spec:
  "\<lbrakk>fits d n; fits s n; unat s \<le> unat d\<rbrakk>
   \<Longrightarrow> (\<forall>i < n. copy_down n (d + of_nat n) (s + of_nat n) m (d + of_nat i) = m (s + of_nat i))
     \<and> (\<forall>x. \<not> within d n x \<longrightarrow> copy_down n (d + of_nat n) (s + of_nat n) m x = m x)"
proof (induction n arbitrary: m)
  case 0
  then show ?case by simp
next
  case (Suc n)
  let ?m = "m(d + of_nat n := m (s + of_nat n))"
  have f: "fits d n" "fits s n" using Suc.prems by (auto intro: fits_le)
  note ih1 = conjunct1 [OF Suc.IH [OF f Suc.prems(3), of ?m], rule_format]
  note ih2 = conjunct2 [OF Suc.IH [OF f Suc.prems(3), of ?m], rule_format]
  have last: "\<not> within d n (d + of_nat n)"
    using fits_add [OF Suc.prems(1), of n] by (simp add: within_def)
  have ne: "s + of_nat j \<noteq> d + of_nat n" if "j < n" for j
  proof
    assume "s + of_nat j = d + of_nat n"
    then have "unat s + j = unat d + n"
      using fits_add [OF Suc.prems(1), of n] fits_add [OF Suc.prems(2), of j] that by simp
    with Suc.prems(3) that show False by simp
  qed
  have e: "copy_down (Suc n) (d + of_nat (Suc n)) (s + of_nat (Suc n)) m
      = copy_down n (d + of_nat n) (s + of_nat n) ?m"
    by (simp add: add.commute [of 1])
  show ?case
    unfolding e
  proof (intro conjI allI impI)
    fix i assume "i < Suc n"
    then show "copy_down n (d + of_nat n) (s + of_nat n) ?m (d + of_nat i) = m (s + of_nat i)"
      using ih1 [of i] ih2 [OF last] ne [of i] by (cases "i = n") simp_all
  next
    fix x assume "\<not> within d (Suc n) x"
    then show "copy_down n (d + of_nat n) (s + of_nat n) ?m x = m x"
      using ih2 [of x] within_Suc_last [OF Suc.prems(1), of x] by simp
  qed
qed

text \<open>
  \<open>memmove\<close> copies the source region as it was, whether or not the regions overlap, and writes
  nothing else. The source must end below the top of the address space, where \<open>s + n\<close> would
  wrap around and the test for an overlap fail.
\<close>

lemma memmove_spec:
  assumes fd: "fits d (unat n)" and fs: "unat s + unat n < 2 ^ 32"
  shows "i < unat n \<Longrightarrow> memmove d s n m (d + of_nat i) = m (s + of_nat i)"
    and "\<not> within d (unat n) x \<Longrightarrow> memmove d s n m x = m x"
proof -
  have f: "fits d (unat n)" "fits s (unat n)" using fd fs by (simp_all add: fits_def)
  have "(\<forall>i < unat n. memmove d s n m (d + of_nat i) = m (s + of_nat i))
      \<and> (\<forall>x. \<not> within d (unat n) x \<longrightarrow> memmove d s n m x = m x)"
  proof (cases "s < d \<and> s + n > d")
    case True
    then have "unat s \<le> unat d" by (simp add: word_less_nat_alt)
    with copy_down_spec [OF f, of m] True show ?thesis by (simp add: memmove_def)
  next
    case False
    have "unat d \<le> unat s \<or> unat s + unat n \<le> unat d"
    proof -
      have "unat (s + n) = unat s + unat n" using fs by (simp add: unat_word_ariths)
      with False show ?thesis by (simp add: word_less_nat_alt) linarith
    qed
    with copy_up_spec [OF f, of m] show ?thesis unfolding memmove_def if_not_P [OF False] by simp
  qed
  then show "i < unat n \<Longrightarrow> memmove d s n m (d + of_nat i) = m (s + of_nat i)"
    and "\<not> within d (unat n) x \<Longrightarrow> memmove d s n m x = m x" by auto
qed

text \<open>\<open>memset\<close> by words and by bytes has the same effect.\<close>

lemma stosb_add: "stosb (a + b) d c m = stosb b (d + of_nat a) c (stosb a d c m)"
  by (induction a arbitrary: d m) (simp_all add: ac_simps)

definition word_of_bytes :: "8 word \<Rightarrow> 32 word" where
  "word_of_bytes b = (let c = ucast b in push_bit 24 c OR push_bit 16 c OR push_bit 8 c OR c)"

lemma not_bit_8: "8 \<le> k \<Longrightarrow> \<not> bit (b :: 8 word) k"
  using bit_imp_le_length [of b k] by auto

lemma word_of_bytes_bytes:
  "ucast (word_of_bytes b) = b" "ucast (drop_bit 8 (word_of_bytes b)) = b"
  "ucast (drop_bit 16 (word_of_bytes b)) = b" "ucast (drop_bit 24 (word_of_bytes b)) = b"
  by (auto intro!: bit_word_eqI simp: word_of_bytes_def Let_def bit_simps not_bit_8)

lemma stosl_stosb: "stosl n d (word_of_bytes b) m = stosb (4 * n) d b m"
proof (induction n arbitrary: d m)
  case 0
  then show ?case by simp
next
  case (Suc n)
  have "stosb 4 d b m = m(d := b, d + 1 := b, d + 2 := b, d + 3 := b)"
    by (simp add: numeral_eq_Suc add.assoc)
  then have "store32 d (word_of_bytes b) m = stosb 4 d b m"
    by (simp add: store32_def word_of_bytes_bytes)
  with Suc show ?case using stosb_add [of 4 "4 * n" d b m] by simp
qed

lemma ucast_low_byte: "(ucast (ucast c :: 8 word) :: 32 word) = c AND 0xFF"
proof -
  have m: "(0xFF :: 32 word) = mask 8" by (simp add: mask_eq_exp_minus_1)
  show ?thesis unfolding m by (rule bit_word_eqI) (auto simp: bit_simps simp del: mask_numeral)
qed

lemma memset_eq_stosb: "memset dst c n m = stosb (unat n) dst (ucast c) m"
proof (cases "dst mod 4 = 0 \<and> n mod 4 = 0")
  case True
  have "unat n mod 4 = unat (n mod 4)" by (simp add: unat_mod)
  then have "unat n mod 4 = 0" using True by simp
  then have n: "4 * unat (n div 4) = unat n" by (auto simp: unat_div)
  have "memset dst c n m = stosl (unat (n div 4)) dst (word_of_bytes (ucast c)) m"
    using True by (simp add: memset_def Let_def word_of_bytes_def ucast_low_byte)
  then show ?thesis by (simp only: stosl_stosb n)
next
  case False
  then show ?thesis by (auto simp: memset_def)
qed

section \<open>Strings\<close>

text \<open>
  The loops over strings stop at a terminating zero; where there may be none they are partial
  functions, and \<open>None\<close> stands for a loop that does not end.
\<close>

primrec strncmp_loop :: "nat \<Rightarrow> ptr \<Rightarrow> ptr \<Rightarrow> bytes \<Rightarrow> int" where
  "strncmp_loop 0 p q m = 0"
| "strncmp_loop (Suc n) p q m =
     (if m p \<noteq> 0 \<and> m p = m q then strncmp_loop n (p + 1) (q + 1) m
      else uint (m p) - uint (m q))"

definition strncmp :: "ptr \<Rightarrow> ptr \<Rightarrow> 32 word \<Rightarrow> bytes \<Rightarrow> int" where
  "strncmp p q n m = strncmp_loop (unat n) p q m"

primrec strncpy_loop :: "nat \<Rightarrow> ptr \<Rightarrow> ptr \<Rightarrow> bytes \<Rightarrow> bytes" where
  "strncpy_loop 0 s t m = m"
| "strncpy_loop (Suc n) s t m =
     (let m' = m(s := m t) in
      if m t \<noteq> 0 then strncpy_loop n (s + 1) (t + 1) m' else stosb n (s + 1) 0 m')"

definition strncpy :: "ptr \<Rightarrow> ptr \<Rightarrow> int \<Rightarrow> bytes \<Rightarrow> bytes" where
  "strncpy s t n m = strncpy_loop (nat n) s t m"

text \<open>The loop of \<open>safestrcpy\<close> and the store of the terminating zero behind it.\<close>

primrec safestrcpy_loop :: "nat \<Rightarrow> ptr \<Rightarrow> ptr \<Rightarrow> bytes \<Rightarrow> bytes" where
  "safestrcpy_loop 0 s t m = m(s := 0)"
| "safestrcpy_loop (Suc n) s t m =
     (let m' = m(s := m t) in
      if m t \<noteq> 0 then safestrcpy_loop n (s + 1) (t + 1) m' else m'(s + 1 := 0))"

definition safestrcpy :: "ptr \<Rightarrow> ptr \<Rightarrow> int \<Rightarrow> bytes \<Rightarrow> bytes" where
  "safestrcpy s t n m = (if n \<le> 0 then m else safestrcpy_loop (nat n - 1) s t m)"

partial_function (option) strlen_loop :: "ptr \<Rightarrow> 32 word \<Rightarrow> bytes \<Rightarrow> 32 word option" where
  "strlen_loop s n m = (if m (s + n) = 0 then Some n else strlen_loop s (n + 1) m)"

definition strlen :: "ptr \<Rightarrow> bytes \<Rightarrow> 32 word option" where
  "strlen s m = strlen_loop s 0 m"

partial_function (option) strcpy :: "ptr \<Rightarrow> ptr \<Rightarrow> bytes \<Rightarrow> bytes option" where
  "strcpy s t m =
     (let m' = m(s := m t) in if m t \<noteq> 0 then strcpy (s + 1) (t + 1) m' else Some m')"

partial_function (option) strcmp :: "ptr \<Rightarrow> ptr \<Rightarrow> bytes \<Rightarrow> int option" where
  "strcmp p q m =
     (if m p \<noteq> 0 \<and> m p = m q then strcmp (p + 1) (q + 1) m else Some (uint (m p) - uint (m q)))"

partial_function (option) strchr :: "ptr \<Rightarrow> 8 word \<Rightarrow> bytes \<Rightarrow> ptr option option" where
  "strchr s c m =
     (if m s = 0 then Some None else if m s = c then Some (Some s) else strchr (s + 1) c m)"

partial_function (option) atoi_loop :: "ptr \<Rightarrow> 32 word \<Rightarrow> bytes \<Rightarrow> 32 word option" where
  "atoi_loop s n m =
     (if 48 \<le> m s \<and> m s \<le> 57 then atoi_loop (s + 1) (n * 10 + ucast (m s) - 48) m else Some n)"

definition atoi :: "ptr \<Rightarrow> bytes \<Rightarrow> 32 word option" where
  "atoi s m = atoi_loop s 0 m"

text \<open>The user library has its own \<open>memmove\<close>, which always copies upwards.\<close>

definition ulib_memmove :: "ptr \<Rightarrow> ptr \<Rightarrow> int \<Rightarrow> bytes \<Rightarrow> bytes" where
  "ulib_memmove vdst vsrc n m = copy_up (nat n) vdst vsrc m"

definition ulib_memset :: "ptr \<Rightarrow> 32 word \<Rightarrow> 32 word \<Rightarrow> bytes \<Rightarrow> bytes" where
  "ulib_memset dst c n m = stosb (unat n) dst (ucast c) m"

text \<open>\<open>cstr m p xs\<close>: the string \<open>xs\<close> is stored at \<open>p\<close>, with its terminating zero.\<close>

primrec cstr :: "bytes \<Rightarrow> ptr \<Rightarrow> 8 word list \<Rightarrow> bool" where
  "cstr m p [] = (m p = 0)"
| "cstr m p (x # xs) = (x \<noteq> 0 \<and> m p = x \<and> cstr m (p + 1) xs)"

lemma uint_eq_iff: "uint a = uint b \<longleftrightarrow> a = b" "uint a = 0 \<longleftrightarrow> a = 0" for a b :: "8 word"
  by (simp_all add: word_uint_eq_iff)

lemma strncmp_loop_0:
  "\<lbrakk>cstr m p xs; cstr m q ys\<rbrakk> \<Longrightarrow> strncmp_loop n p q m = 0 \<longleftrightarrow> take n xs = take n ys"
proof (induction n arbitrary: p q xs ys)
  case 0
  then show ?case by simp
next
  case (Suc n)
  then show ?case by (cases xs; cases ys) (auto simp: uint_eq_iff)
qed

lemma strlen_loop_cstr: "cstr m (p + k) xs \<Longrightarrow> strlen_loop p k m = Some (k + of_nat (length xs))"
proof (induction xs arbitrary: k)
  case Nil
  then show ?case by (simp add: strlen_loop.simps)
next
  case (Cons x xs)
  then show ?case using Cons.IH [of "k + 1"] by (simp add: strlen_loop.simps [of p k] ac_simps)
qed

lemma strlen_cstr: "cstr m p xs \<Longrightarrow> strlen p m = Some (of_nat (length xs))"
  using strlen_loop_cstr [of m p 0 xs] by (simp add: strlen_def)

lemma cstr_cong: "(\<forall>i \<le> length xs. m (p + of_nat i) = m' (p + of_nat i)) \<Longrightarrow> cstr m p xs = cstr m' p xs"
proof (induction xs arbitrary: p)
  case Nil
  then show ?case by simp
next
  case (Cons x xs)
  have "m p = m' p" using Cons.prems [rule_format, of 0] by simp
  moreover have "\<forall>i \<le> length xs. m (p + 1 + of_nat i) = m' (p + 1 + of_nat i)"
    using Cons.prems by (auto simp: add.assoc dest: spec [of _ "Suc _"])
  ultimately show ?case using Cons.IH [of "p + 1"] by simp
qed

text \<open>
  \<open>safestrcpy\<close> leaves at \<open>s\<close> a terminated string, the source cut off after \<open>n - 1\<close> characters,
  and writes only the \<open>n\<close> bytes at \<open>s\<close>.
\<close>

lemma safestrcpy_loop_spec:
  "\<lbrakk>cstr m t xs; fits s (Suc n); \<forall>i \<le> length xs. \<not> within s (Suc n) (t + of_nat i)\<rbrakk>
   \<Longrightarrow> cstr (safestrcpy_loop n s t m) s (take n xs)
     \<and> (\<forall>x. \<not> within s (Suc n) x \<longrightarrow> safestrcpy_loop n s t m x = m x)"
proof (induction n arbitrary: s t m xs)
  case 0
  then show ?case by (auto simp: within_Suc)
next
  case (Suc n)
  let ?m = "m(s := m t)"
  have w: "within s (Suc (Suc n)) x \<longleftrightarrow> x = s \<or> within (s + 1) (Suc n) x" for x
    using within_Suc [OF Suc.prems(2)] .
  have f: "fits (s + 1) (Suc n)" "\<not> within (s + 1) (Suc n) s"
    using fits_next [OF Suc.prems(2)] not_within_next [OF Suc.prems(2)] by auto
  show ?case
  proof (cases xs)
    case Nil
    have "s + 1 \<noteq> s" by simp
    then show ?thesis using Nil Suc.prems(1) f(2) w within_add [OF f(1), of 0] by (auto simp: Let_def)
  next
    case (Cons x ys)
    have far: "\<forall>i \<le> length ys. \<not> within s (Suc (Suc n)) (t + 1 + of_nat i)"
    proof (intro allI impI)
      fix i assume "i \<le> length ys"
      then show "\<not> within s (Suc (Suc n)) (t + 1 + of_nat i)"
        using Suc.prems(3) [rule_format, of "Suc i"] Cons by (simp add: add.assoc)
    qed
    have t: "m t = x" "x \<noteq> 0" "cstr m (t + 1) ys" using Suc.prems(1) Cons by auto
    have c: "cstr ?m (t + 1) ys"
      using t(3) far w cstr_cong [of ys m "t + 1" ?m] by auto
    have ih: "cstr (safestrcpy_loop n (s + 1) (t + 1) ?m) (s + 1) (take n ys)
        \<and> (\<forall>x. \<not> within (s + 1) (Suc n) x \<longrightarrow> safestrcpy_loop n (s + 1) (t + 1) ?m x = ?m x)"
      by (rule Suc.IH [OF c f(1)]) (use far w in simp)
    then show ?thesis using Cons t f(2) w by (auto simp: Let_def)
  qed
qed

lemma safestrcpy_spec:
  assumes "cstr m t xs" "0 < n" "fits s (nat n)" "\<forall>i \<le> length xs. \<not> within s (nat n) (t + of_nat i)"
  shows "cstr (safestrcpy s t n m) s (take (nat n - 1) xs)"
    and "\<not> within s (nat n) x \<Longrightarrow> safestrcpy s t n m x = m x"
  using safestrcpy_loop_spec [of m t xs s "nat n - 1"] assms by (auto simp: safestrcpy_def)

text \<open>\<open>strncpy\<close> fills exactly \<open>n\<close> bytes: the string, cut off or padded with zeros.\<close>

lemma strncpy_loop_spec:
  "\<lbrakk>cstr m t xs; fits s n; \<forall>i \<le> length xs. \<not> within s n (t + of_nat i)\<rbrakk>
   \<Longrightarrow> (\<forall>i < n. strncpy_loop n s t m (s + of_nat i) = (if i < length xs then xs ! i else 0))
     \<and> (\<forall>x. \<not> within s n x \<longrightarrow> strncpy_loop n s t m x = m x)"
proof (induction n arbitrary: s t m xs)
  case 0
  then show ?case by simp
next
  case (Suc n)
  let ?m = "m(s := m t)"
  note w = within_Suc [OF Suc.prems(2)]
  have f: "fits (s + 1) n" "\<not> within (s + 1) n s"
    using fits_next [OF Suc.prems(2)] not_within_next [OF Suc.prems(2)] by auto
  show ?case
  proof (cases xs)
    case Nil
    have z: "stosb n (s + 1) 0 m' x = (if within (s + 1) n x then 0 else m' x)" for m' x
      by (rule stosb_spec [OF f(1)])
    have wi: "i < Suc n \<Longrightarrow> of_nat i \<noteq> (0 :: ptr) \<Longrightarrow> within (s + 1) n (s + of_nat i)" for i
      using within_add [OF f(1), of "i - 1"] by (cases i) (auto simp: add.assoc)
    show ?thesis using Nil Suc.prems(1) w f(2) by (auto simp: Let_def z wi)
  next
    case (Cons x ys)
    have far: "\<forall>i \<le> length ys. \<not> within s (Suc n) (t + 1 + of_nat i)"
    proof (intro allI impI)
      fix i assume "i \<le> length ys"
      then show "\<not> within s (Suc n) (t + 1 + of_nat i)"
        using Suc.prems(3) [rule_format, of "Suc i"] Cons by (simp add: add.assoc)
    qed
    have t: "m t = x" "x \<noteq> 0" "cstr m (t + 1) ys" using Suc.prems(1) Cons by auto
    have c: "cstr ?m (t + 1) ys"
      using t(3) far w cstr_cong [of ys m "t + 1" ?m] by auto
    have ih: "(\<forall>i < n. strncpy_loop n (s + 1) (t + 1) ?m (s + 1 + of_nat i) = (if i < length ys then ys ! i else 0))
        \<and> (\<forall>x. \<not> within (s + 1) n x \<longrightarrow> strncpy_loop n (s + 1) (t + 1) ?m x = ?m x)"
      by (rule Suc.IH [OF c f(1)]) (use far w in simp)
    show ?thesis
    proof (intro conjI allI impI)
      fix i assume "i < Suc n"
      then show "strncpy_loop (Suc n) s t m (s + of_nat i) = (if i < length xs then xs ! i else 0)"
        using ih t f(2) Cons by (cases i) (auto simp: Let_def add.assoc)
    next
      fix x assume "\<not> within s (Suc n) x"
      then show "strncpy_loop (Suc n) s t m x = m x" using ih t w by (auto simp: Let_def)
    qed
  qed
qed

section \<open>Block operations\<close>

text \<open>
  C33. \<open>memmove\<close> copies the source as it was before, for overlapping regions too, and changes no
  byte outside the destination.
\<close>

theorem memmove_copies:
  assumes "fits d (unat n)" "unat s + unat n < 2 ^ 32"
  shows "memmove d s n m x = (if within d (unat n) x then m (s + (x - d)) else m x)"
proof (cases "within d (unat n) x")
  case True
  then obtain i where i: "i < unat n" "x = d + of_nat i" using withinE [OF assms(1)] by blast
  with memmove_spec(1) [OF assms, of i m] True show ?thesis by simp
qed (use memmove_spec(2) [OF assms] in simp)

lemma memmove_copies_witness: "memmove 1 0 3 ucast 3 = 2 \<and> memmove 1 0 3 ucast 4 = 4"
  using memmove_copies [of 1 3 0 ucast 3] memmove_copies [of 1 3 0 ucast 4] by (simp add: fits_def within_def)

text \<open>
  C34. \<open>memset\<close>, which stores words where address and length allow it, sets every byte of the region
  to the low byte of its argument and no other byte.
\<close>

theorem memset_fills:
  assumes "fits dst (unat n)"
  shows "memset dst c n m x = (if within dst (unat n) x then ucast c else m x)"
  using assms by (simp add: memset_eq_stosb stosb_spec)

lemma memset_fills_witness: "memset 4 0x41 8 (\<lambda>_. 0) 11 = 0x41 \<and> memset 4 0x41 8 (\<lambda>_. 0) 12 = 0"
  using memset_fills [of 4 8 "0x41" "\<lambda>_. 0" 11] memset_fills [of 4 8 "0x41" "\<lambda>_. 0" 12] by (simp add: fits_def within_def)

end
