(* ===== verification/Kalloc.thy ===== *)
theory Kalloc
  imports Sleep Cstring
begin

text \<open>
  The page allocator of \<open>kernel/mm/kalloc.c\<close>. The record \<open>memory\<close> adds the memory that the
  kernel addresses, byte by byte, and the variables of \<open>kmem\<close>; the free pages form a list that
  is linked through their first words. The end of the kernel image (\<open>end\<close>, set by the linker
  script) is the field \<open>kend\<close>, the start of its data (\<open>data\<close>) the field \<open>kdata\<close>.
\<close>

section \<open>State and definitions\<close>

record memory = kernel +
  mem :: bytes
  use_lock :: bool
  freelist :: "32 word"
  kend :: "32 word"
  kdata :: "32 word"

abbreviation (input) PGSIZE :: "32 word" where "PGSIZE \<equiv> 0x1000"
abbreviation (input) PHYSTOP :: "32 word" where "PHYSTOP \<equiv> 0xE000000"
abbreviation (input) KERNBASE :: "32 word" where "KERNBASE \<equiv> 0x80000000"

definition load32 :: "bytes \<Rightarrow> ptr \<Rightarrow> 32 word" where
  "load32 m p = ucast (m p) OR push_bit 8 (ucast (m (p + 1))) OR push_bit 16 (ucast (m (p + 2)))
     OR push_bit 24 (ucast (m (p + 3)))"

definition PGROUNDUP :: "32 word \<Rightarrow> 32 word" where
  "PGROUNDUP n = (n + PGSIZE - 1) AND NOT (PGSIZE - 1)"

definition PGROUNDDOWN :: "32 word \<Rightarrow> 32 word" where
  "PGROUNDDOWN a = a AND NOT (PGSIZE - 1)"

definition upd_mem :: "(bytes \<Rightarrow> bytes) \<Rightarrow> ('a memory_scheme, unit) kmon" where
  "upd_mem f = modify (\<lambda>s. s\<lparr>mem := f (mem s)\<rparr>)"

definition kfree :: "ptr \<Rightarrow> ('a memory_scheme, unit) kmon" where
  "kfree v =
     bind (gets kend) (\<lambda>e.
     if v mod PGSIZE \<noteq> 0 \<or> v < e \<or> V2P v \<ge> PHYSTOP then panic ''kfree''
     else bind (gets use_lock) (\<lambda>locking. seqs [
       upd_mem (memset v 1 PGSIZE),
       cwhen locking (acquire KmemLock),
       modify (\<lambda>s. s\<lparr>mem := store32 v (freelist s) (mem s)\<rparr>),
       modify (\<lambda>s. s\<lparr>freelist := v\<rparr>),
       cwhen locking (release KmemLock)]))"

definition kalloc :: "('a memory_scheme, ptr) kmon" where
  "kalloc =
     bind (gets use_lock) (\<lambda>locking.
     bind (cwhen locking (acquire KmemLock)) (\<lambda>_.
     bind (gets freelist) (\<lambda>r.
     bind (cwhen (r \<noteq> 0) (modify (\<lambda>s. s\<lparr>freelist := load32 (mem s) r\<rparr>))) (\<lambda>_.
     bind (cwhen locking (release KmemLock)) (\<lambda>_.
     return r)))))"

text \<open>The loop of \<open>freerange\<close> passes each of the \<open>2 ^ 20\<close> pages of the address space at most once.\<close>

primrec freerange_loop :: "nat \<Rightarrow> ptr \<Rightarrow> ptr \<Rightarrow> ('a memory_scheme, unit) kmon" where
  "freerange_loop 0 p vend = fail Diverge"
| "freerange_loop (Suc n) p vend =
     (if p + PGSIZE \<le> vend then bind (kfree p) (\<lambda>_. freerange_loop n (p + PGSIZE) vend)
      else return ())"

definition freerange :: "ptr \<Rightarrow> ptr \<Rightarrow> ('a memory_scheme, unit) kmon" where
  "freerange vstart vend = freerange_loop (2 ^ 20) (PGROUNDUP vstart) vend"

definition kinit1 :: "ptr \<Rightarrow> ptr \<Rightarrow> ('a memory_scheme, unit) kmon" where
  "kinit1 vstart vend = seqs [
     initlock KmemLock,
     modify (\<lambda>s. s\<lparr>use_lock := False\<rparr>),
     freerange vstart vend]"

definition kinit2 :: "ptr \<Rightarrow> ptr \<Rightarrow> ('a memory_scheme, unit) kmon" where
  "kinit2 vstart vend = seqs [
     freerange vstart vend,
     modify (\<lambda>s. s\<lparr>use_lock := True\<rparr>)]"

section \<open>Frame\<close>

lemma set_cur_memory [simp]:
  "mem (set_cur k s) = mem s" "use_lock (set_cur k s) = use_lock s"
  "freelist (set_cur k s) = freelist s" "kend (set_cur k s) = kend s"
  by (simp_all add: set_cur_def)

lemma cli_memory [simp]:
  "mem (cli_enter s) = mem s" "mem (cli_leave s) = mem s" "mem (cli_touch s) = mem s"
  "use_lock (cli_enter s) = use_lock s" "use_lock (cli_leave s) = use_lock s"
  "use_lock (cli_touch s) = use_lock s"
  "freelist (cli_enter s) = freelist s" "freelist (cli_leave s) = freelist s"
  "freelist (cli_touch s) = freelist s"
  "kend (cli_enter s) = kend s" "kend (cli_leave s) = kend s" "kend (cli_touch s) = kend s"
  by (simp_all add: cli_defs)

lemma machine_memory [simp]:
  "this_cpu (s\<lparr>mem := m\<rparr>) = this_cpu s" "this_cpu (s\<lparr>freelist := f\<rparr>) = this_cpu s"
  "cur (s\<lparr>mem := m\<rparr>) = cur s" "cur (s\<lparr>freelist := f\<rparr>) = cur s"
  "cpu_ok (s\<lparr>mem := m\<rparr>) = cpu_ok s" "cpu_ok (s\<lparr>freelist := f\<rparr>) = cpu_ok s"
  by (simp_all add: this_cpu_def cur_def cpu_ok_def)

lemma cli_memory_upd [simp]:
  "cli_enter (s\<lparr>mem := m\<rparr>) = (cli_enter s)\<lparr>mem := m\<rparr>"
  "cli_leave (s\<lparr>mem := m\<rparr>) = (cli_leave s)\<lparr>mem := m\<rparr>"
  "cli_touch (s\<lparr>mem := m\<rparr>) = (cli_touch s)\<lparr>mem := m\<rparr>"
  "cli_enter (s\<lparr>freelist := f\<rparr>) = (cli_enter s)\<lparr>freelist := f\<rparr>"
  "cli_leave (s\<lparr>freelist := f\<rparr>) = (cli_leave s)\<lparr>freelist := f\<rparr>"
  "cli_touch (s\<lparr>freelist := f\<rparr>) = (cli_touch s)\<lparr>freelist := f\<rparr>"
  by (simp_all add: cli_defs set_cur_def this_cpu_def cur_def)

section \<open>Words in memory\<close>

lemma ptr_offsets [simp]:
  "p + 1 \<noteq> p" "p + 2 \<noteq> p" "p + 3 \<noteq> p" "p + 2 \<noteq> p + 1" "p + 3 \<noteq> p + 1" "p + 3 \<noteq> p + 2"
  "p \<noteq> p + 1" "p \<noteq> p + 2" "p \<noteq> p + 3" "p + 1 \<noteq> p + 2" "p + 1 \<noteq> p + 3" "p + 2 \<noteq> p + 3" for p :: ptr
  by auto

lemma bytes_of_word:
  "(ucast (ucast w :: 8 word) :: 32 word) OR push_bit 8 (ucast (ucast (drop_bit 8 w) :: 8 word))
   OR push_bit 16 (ucast (ucast (drop_bit 16 w) :: 8 word))
   OR push_bit 24 (ucast (ucast (drop_bit 24 w) :: 8 word)) = w" for w :: "32 word"
proof (rule bit_word_eqI, goal_cases)
  case (1 n)
  then show ?case by (cases "n < 16"; cases "n < 24") (auto simp: bit_simps not_bit_8)
qed

lemma load32_store32 [simp]: "load32 (store32 p w m) p = w"
  using bytes_of_word [of w] by (simp add: load32_def store32_def)

lemma load32_cong:
  assumes "\<And>x. within p 4 x \<Longrightarrow> m x = m' x" "fits p 4"
  shows "load32 m p = load32 m' p"
  using assms(1) [OF within_add [OF assms(2), of 0]] assms(1) [OF within_add [OF assms(2), of 1]]
    assms(1) [OF within_add [OF assms(2), of 2]] assms(1) [OF within_add [OF assms(2), of 3]]
  by (simp add: load32_def)

lemma store32_other: "\<not> within p 4 x \<Longrightarrow> fits p 4 \<Longrightarrow> store32 p w m x = m x"
  using within_add [of p 4 0] within_add [of p 4 1] within_add [of p 4 2] within_add [of p 4 3]
  by (auto simp: store32_def)

section \<open>Pages\<close>

definition page_ok :: "ptr \<Rightarrow> ptr \<Rightarrow> bool" where
  "page_ok e v \<longleftrightarrow> v mod PGSIZE = 0 \<and> e \<le> v \<and> V2P v < PHYSTOP"

text \<open>\<open>in_page v x\<close>: the address \<open>x\<close> lies in the page at \<open>v\<close>.\<close>

abbreviation in_page :: "ptr \<Rightarrow> ptr \<Rightarrow> bool" where
  "in_page v x \<equiv> within v 4096 x"

lemma unat_mod_page: "v mod 0x1000 = 0 \<longleftrightarrow> unat v mod 4096 = 0" for v :: "32 word"
  by (simp add: word_unat_eq_iff unat_mod)
lemma page_ok_bounds:
  assumes "page_ok e v"
  shows "0x80000000 \<le> unat v" "unat v < 0x8E000000" "unat v mod 4096 = 0" "v \<noteq> 0" "fits v 4096" "fits v 4"
proof -
  have *: "unat (v - 0x80000000) < 0xE000000" using assms by (simp add: page_ok_def V2P_def word_less_nat_alt)
  show m: "unat v mod 4096 = 0" using assms by (simp add: page_ok_def unat_mod_page)
  show a: "0x80000000 \<le> unat v" "unat v < 0x8E000000"
    using * unsigned_less [of v] by (auto simp: unat_sub_if' split: if_splits)
  show "v \<noteq> 0" using a by auto
  show "fits v 4096" "fits v 4" using a by (auto simp: fits_def)
qed

lemma page_of: "unat v mod 4096 = 0 \<Longrightarrow> in_page v x \<Longrightarrow> unat v = unat x div 4096 * 4096"
  by (auto simp: within_def mod_eq_0_iff_dvd elim!: dvdE)

lemma pages_disjoint:
  assumes "unat v mod 4096 = 0" "unat w mod 4096 = 0" "in_page v x" "in_page w x"
  shows "v = w"
  using page_of [OF assms(1,3)] page_of [OF assms(2,4)] by (simp add: word_unat_eq_iff)

section \<open>The list of free pages\<close>

primrec free_chain :: "bytes \<Rightarrow> ptr \<Rightarrow> ptr list \<Rightarrow> bool" where
  "free_chain m l [] \<longleftrightarrow> l = 0"
| "free_chain m l (x # xs) \<longleftrightarrow> l = x \<and> free_chain m (load32 m x) xs"

definition free_pages :: "'a memory_scheme \<Rightarrow> ptr list \<Rightarrow> bool" where
  "free_pages s xs \<longleftrightarrow> free_chain (mem s) (freelist s) xs \<and> distinct xs \<and> (\<forall>x\<in>set xs. page_ok (kend s) x)"

text \<open>\<open>kmem_ready\<close>: the allocator can be called, with or without its lock.\<close>

definition kmem_ready :: "'a memory_scheme \<Rightarrow> bool" where
  "kmem_ready s \<longleftrightarrow> cpu_ok s \<and> (use_lock s \<longrightarrow> locks s KmemLock = free_lock)"

definition kmem_touch :: "'a memory_scheme \<Rightarrow> 'a memory_scheme" where
  "kmem_touch s = (if use_lock s then cli_touch s else s)"

lemma kmem_touch_fields [simp]:
  "mem (kmem_touch s) = mem s" "freelist (kmem_touch s) = freelist s" "kend (kmem_touch s) = kend s"
  "use_lock (kmem_touch s) = use_lock s" "locks (kmem_touch s) = locks s"
  "ptable (kmem_touch s) = ptable s" "queues (kmem_touch s) = queues s"
  "cpu_ok s \<Longrightarrow> cpu_ok (kmem_touch s)" "this_cpu (kmem_touch s) = this_cpu s"
  by (simp_all add: kmem_touch_def)

lemma kmem_ready_upd [simp]:
  "kmem_ready (s\<lparr>mem := m\<rparr>) = kmem_ready s" "kmem_ready (s\<lparr>freelist := f\<rparr>) = kmem_ready s"
  "kmem_ready s \<Longrightarrow> kmem_ready (kmem_touch s)"
  by (auto simp: kmem_ready_def)

lemma free_chain_cong:
  "free_chain m l xs \<Longrightarrow> (\<And>x. x \<in> set xs \<Longrightarrow> load32 m x = load32 m' x) \<Longrightarrow> free_chain m' l xs"
  by (induction xs arbitrary: l) auto

lemma free_chain_0: "\<forall>x\<in>set xs. x \<noteq> 0 \<Longrightarrow> free_chain m 0 xs \<longleftrightarrow> xs = []"
  by (cases xs) auto

lemma kalloc_exec:
  assumes "free_pages s xs" "kmem_ready s"
  shows "kalloc s = (case xs of [] \<Rightarrow> Done 0 (kmem_touch s)
    | x # _ \<Rightarrow> Done x ((kmem_touch s)\<lparr>freelist := load32 (mem s) x\<rparr>))"
proof -
  have "cpu_ok s" "use_lock s \<Longrightarrow> locks s KmemLock = free_lock" "freelist s = (case xs of [] \<Rightarrow> 0 | x # _ \<Rightarrow> x)"
    "\<forall>x\<in>set xs. x \<noteq> 0"
    using assms page_ok_bounds(4) by (auto simp: kmem_ready_def free_pages_def split: list.split)
  then show ?thesis
    using cpu_ok_ncli [of s]
    by (cases "use_lock s"; cases xs) (auto simp: kalloc_def kmem_touch_def exec_simps fun_upd_idem)
qed

lemma free_pages_tl:
  "free_pages s (x # xs) \<Longrightarrow> free_pages (s\<lparr>freelist := load32 (mem s) x\<rparr>) xs"
  by (simp add: free_pages_def)

lemma free_pages_touch [simp]: "free_pages (kmem_touch s) xs = free_pages s xs"
  by (simp add: free_pages_def)

definition kfree_mem :: "ptr \<Rightarrow> ptr \<Rightarrow> bytes \<Rightarrow> bytes" where
  "kfree_mem v f m = store32 v f (memset v 1 PGSIZE m)"

lemma kfree_exec:
  assumes "page_ok (kend s) v" "kmem_ready s"
  shows "kfree v s = Done () ((kmem_touch s)\<lparr>mem := kfree_mem v (freelist s) (mem s), freelist := v\<rparr>)"
proof -
  have "cpu_ok s" "use_lock s \<Longrightarrow> locks s KmemLock = free_lock" using assms(2) by (auto simp: kmem_ready_def)
  moreover have "v mod 0x1000 = 0" "\<not> v < kend s" "\<not> V2P v \<ge> 0xE000000" using assms(1) by (auto simp: page_ok_def)
  ultimately show ?thesis
    using cpu_ok_ncli [of s]
    by (cases "use_lock s") (simp_all add: kfree_def kfree_mem_def upd_mem_def kmem_touch_def exec_simps fun_upd_idem)
qed

lemma kfree_panic: "\<not> page_ok (kend s) v \<Longrightarrow> kfree v s = Fail (Panic ''kfree'')"
proof -
  assume "\<not> page_ok (kend s) v"
  then have "v mod PGSIZE \<noteq> 0 \<or> v < kend s \<or> V2P v \<ge> PHYSTOP" by (simp only: page_ok_def de_Morgan_conj not_less not_le)
  then show ?thesis by (simp only: kfree_def bind_exec gets_exec outcome.case if_True panic_exec)
qed

lemma kfree_mem_other:
  assumes "page_ok e v" "\<not> in_page v x"
  shows "kfree_mem v f m x = m x"
proof -
  have "\<not> within v 4 x" using assms(2) unfolding within_def by linarith
  then show ?thesis
    using assms page_ok_bounds(5,6) [OF assms(1)]
    by (simp add: kfree_mem_def store32_other memset_eq_stosb stosb_spec)
qed

lemma load32_other_page:
  assumes "page_ok e v" "page_ok e x" "x \<noteq> v"
  shows "load32 (kfree_mem v f m) x = load32 m x"
proof (rule load32_cong)
  show "fits x 4" using page_ok_bounds [OF assms(2)] by simp
next
  fix y assume "within x 4 y"
  then have "in_page x y" by (simp add: within_def)
  then have "\<not> in_page v y" using pages_disjoint page_ok_bounds(3) assms by metis
  then show "kfree_mem v f m y = m y" using kfree_mem_other [OF assms(1)] by simp
qed

lemma free_pages_Cons:
  assumes "free_pages s xs" "page_ok (kend s) v" "v \<notin> set xs"
  shows "free_pages (s\<lparr>mem := kfree_mem v (freelist s) (mem s), freelist := v\<rparr>) (v # xs)"
proof -
  have "free_chain (kfree_mem v (freelist s) (mem s)) (freelist s) xs"
  proof (rule free_chain_cong)
    show "free_chain (mem s) (freelist s) xs" using assms(1) by (simp add: free_pages_def)
    show "load32 (mem s) x = load32 (kfree_mem v (freelist s) (mem s)) x" if "x \<in> set xs" for x
    proof -
      have "x \<noteq> v" "page_ok (kend s) x" using assms that by (auto simp: free_pages_def)
      then show ?thesis using load32_other_page [OF assms(2), of x] by simp
    qed
  qed
  then show ?thesis using assms by (simp add: free_pages_def) (simp add: kfree_mem_def)
qed

section \<open>Filling the allocator\<close>

definition page_seq :: "ptr \<Rightarrow> nat \<Rightarrow> ptr list" where
  "page_seq p n = map (\<lambda>i. p + of_nat i * PGSIZE) [0..<n]"

lemma page_seq_Suc: "page_seq p (Suc n) = p # page_seq (p + PGSIZE) n"
  by (simp add: page_seq_def upt_conv_Cons map_Suc_upt [symmetric] algebra_simps del: upt_Suc)

lemma page_seq_0 [simp]: "page_seq p 0 = []"
  by (simp add: page_seq_def)

lemma freerange_loop_exec:
  assumes "free_pages s xs" "kmem_ready s" "\<forall>x\<in>set (page_seq p n). page_ok (kend s) x"
    "distinct (page_seq p n)" "set (page_seq p n) \<inter> set xs = {}"
    "n < k" "unat p + 4096 * n \<le> unat vend" "unat vend < unat p + 4096 * n + 4096"
    "unat p + 4096 * n + 4096 < 2 ^ 32"
  shows "\<exists>t. freerange_loop k p vend s = Done () t \<and> free_pages t (rev (page_seq p n) @ xs) \<and>
    kmem_ready t \<and> kend t = kend s \<and> use_lock t = use_lock s \<and>
    (\<forall>x. (\<forall>v\<in>set (page_seq p n). \<not> in_page v x) \<longrightarrow> mem t x = mem s x)"
  using assms
proof (induction n arbitrary: p k s xs)
  case 0
  then have "\<not> p + 0x1000 \<le> vend" by (simp add: word_le_nat_alt unat_word_ariths)
  with 0 show ?case by (cases k) (simp_all add: exec_simps)
next
  case (Suc n)
  obtain k' where k: "k = Suc k'" using Suc.prems(6) by (cases k) auto
  define t where "t = (kmem_touch s)\<lparr>mem := kfree_mem p (freelist s) (mem s), freelist := p\<rparr>"
  have ok: "page_ok (kend s) p" "p \<notin> set xs" "p + 0x1000 \<le> vend" "unat (p + 0x1000) = unat p + 4096"
    using Suc.prems by (auto simp: page_seq_Suc word_le_nat_alt unat_word_ariths)
  have "free_pages t (p # xs)" "kmem_ready t" "kend t = kend s" "use_lock t = use_lock s"
    "\<And>x. \<not> in_page p x \<Longrightarrow> mem t x = mem s x"
    using free_pages_Cons [of "kmem_touch s" xs p] Suc.prems(1,2) ok kfree_mem_other [OF ok(1)]
    by (simp_all add: t_def)
  moreover have "kfree p s = Done () t" using kfree_exec [OF ok(1) Suc.prems(2)] by (simp add: t_def)
  ultimately show ?case
    using Suc.IH [of t "p # xs" "p + 0x1000" k'] Suc.prems(3-) ok k
    by (auto simp: exec_simps page_seq_Suc)
qed

lemma PGROUNDDOWN_eq: "PGROUNDDOWN a = (a div 0x1000) * 0x1000"
proof -
  have *: "(0x1000 - 1 :: 32 word) = mask 12" by (simp add: mask_eq_exp_minus_1)
  have "PGROUNDDOWN a = push_bit 12 (drop_bit 12 a)"
    unfolding PGROUNDDOWN_def *
    by (rule bit_word_eqI) (auto simp: bit_and_iff bit_not_iff bit_mask_iff bit_push_bit_iff bit_drop_bit_eq simp del: mask_numeral)
  then show ?thesis by (simp add: push_bit_eq_mult drop_bit_eq_div)
qed

lemma unat_PGROUNDDOWN: "unat (PGROUNDDOWN a) = unat a div 4096 * 4096"
proof -
  have "unat a div 4096 * 4096 \<le> unat a" by (metis div_mult_mod_eq le_add1)
  also have "unat a < 4294967296" by (rule order_less_le_trans [OF unsigned_less]) simp
  finally show ?thesis by (simp add: PGROUNDDOWN_eq unat_word_ariths unat_div)
qed

lemma PGROUNDUP_eq: "PGROUNDUP a = PGROUNDDOWN (a + 0xFFF)"
  by (simp add: PGROUNDUP_def PGROUNDDOWN_def algebra_simps)

lemma unat_PGROUNDUP:
  assumes "unat a + 4095 < 2 ^ 32"
  shows "unat (PGROUNDUP a) = (unat a + 4095) div 4096 * 4096"
  using assms by (simp add: PGROUNDUP_eq unat_PGROUNDDOWN unat_word_ariths)

lemma page_seq_unat:
  assumes "unat (p :: ptr) + 4096 * n < 2 ^ 32" "i < n"
  shows "unat (p + of_nat i * 0x1000) = unat p + 4096 * i"
proof -
  have "unat (of_nat i :: 32 word) = i" using assms by (simp add: unat_of_nat)
  moreover have "unat p + i * 4096 < 2 ^ 32" using assms by simp
  ultimately show ?thesis by (simp add: unat_word_ariths)
qed

lemma page_okI:
  assumes "unat v mod 4096 = 0" "unat e \<le> unat v" "0x80000000 \<le> unat v" "unat v < 0x8E000000"
  shows "page_ok e v"
proof -
  have "unat (v - 0x80000000) = unat v - 0x80000000"
    using unat_sub [of "0x80000000" v] assms(3) by (simp add: word_le_nat_alt)
  then show ?thesis using assms by (simp add: page_ok_def V2P_def unat_mod_page word_le_nat_alt word_less_nat_alt)
qed

lemma page_seq_ok:
  assumes "unat p mod 4096 = 0" "0x80000000 \<le> unat p" "unat e \<le> unat p" "unat p + 4096 * n \<le> 0x8E000000"
  shows "distinct (page_seq p n)" "\<forall>x\<in>set (page_seq p n). page_ok e x"
proof -
  have u: "unat (p + of_nat i * 0x1000) = unat p + 4096 * i" if "i < n" for i
    using page_seq_unat [of p n i] assms(4) that by simp
  have "i = j" if "i < n" "j < n" "p + of_nat i * 0x1000 = p + of_nat j * 0x1000" for i j
    using u [OF that(1)] u [OF that(2)] unfolding that(3) by simp
  then show "distinct (page_seq p n)" unfolding page_seq_def distinct_map inj_on_def by simp
  have "page_ok e (p + of_nat i * 0x1000)" if "i < n" for i
    by (rule page_okI; unfold u [OF that]) (use that assms in simp_all)
  then show "\<forall>x\<in>set (page_seq p n). page_ok e x" by (auto simp: page_seq_def)
qed

text \<open>The number of whole pages from \<open>p\<close> up to \<open>vend\<close>.\<close>

definition page_count :: "ptr \<Rightarrow> ptr \<Rightarrow> nat" where
  "page_count p vend = (unat vend - unat p) div 4096"

lemma freerange_exec:
  assumes "free_pages s xs" "kmem_ready s" "KERNBASE \<le> vstart" "kend s \<le> vstart"
    "PGROUNDUP vstart \<le> vend" "vend \<le> 0x8E000000" "vstart \<le> 0x8E000000"
    and ps: "ps = page_seq (PGROUNDUP vstart) (page_count (PGROUNDUP vstart) vend)" "set ps \<inter> set xs = {}"
  shows "\<exists>t. freerange vstart vend s = Done () t \<and> free_pages t (rev ps @ xs) \<and>
    kmem_ready t \<and> kend t = kend s \<and> use_lock t = use_lock s \<and>
    (\<forall>x. (\<forall>v\<in>set ps. \<not> in_page v x) \<longrightarrow> mem t x = mem s x)"
proof -
  let ?p = "PGROUNDUP vstart" and ?n = "page_count (PGROUNDUP vstart) vend"
  have v: "unat vstart \<le> 0x8E000000" "unat vend \<le> 0x8E000000" "unat ?p \<le> unat vend"
    using assms by (simp_all add: word_le_nat_alt)
  then have u: "unat ?p = (unat vstart + 4095) div 4096 * 4096" by (simp add: unat_PGROUNDUP)
  then have p: "unat vstart \<le> unat ?p" "unat ?p mod 4096 = 0" by (linarith, simp)
  have n: "unat ?p + 4096 * ?n \<le> unat vend" "unat vend < unat ?p + 4096 * ?n + 4096"
    using v(3) unfolding page_count_def by linarith+
  have ok: "distinct (page_seq ?p ?n)" "\<forall>x\<in>set (page_seq ?p ?n). page_ok (kend s) x"
    using page_seq_ok [of ?p "kend s" ?n] p n v assms(3,4) by (simp_all add: word_le_nat_alt)
  have "?n < 2 ^ 20" "unat ?p + 4096 * ?n + 4096 < 2 ^ 32" using n(1) v(2) by simp_all
  from freerange_loop_exec [OF assms(1,2) ok(2,1) _ this(1) n this(2)] ps
  show ?thesis unfolding freerange_def ps(1) by blast
qed

lemma kinit1_exec:
  assumes "cpu_ok s" "freelist s = 0" "KERNBASE \<le> vstart" "kend s \<le> vstart"
    "PGROUNDUP vstart \<le> vend" "vend \<le> 0x8E000000" "vstart \<le> 0x8E000000"
  shows "\<exists>t. kinit1 vstart vend s = Done () t \<and> \<not> use_lock t \<and> kmem_ready t \<and>
    free_pages t (rev (page_seq (PGROUNDUP vstart) (page_count (PGROUNDUP vstart) vend)))"
proof -
  define u where "u = s\<lparr>locks := (locks s)(KmemLock := free_lock), use_lock := False\<rparr>"
  have "free_pages u []" "kmem_ready u" "kend u = kend s" "\<not> use_lock u"
    using assms(1,2) by (simp_all add: u_def free_pages_def kmem_ready_def cpu_ok_def cur_def this_cpu_def)
  note u = this
  have run: "kinit1 vstart vend s = freerange vstart vend u"
    by (simp add: kinit1_def initlock_def set_lock_def bind_exec modify_exec u_def)
  from freerange_exec [of u "[]" vstart vend, OF u(1,2) _ _ _ _ _ refl] u assms(3-)
  show ?thesis unfolding run by auto
qed

section \<open>The interface of the allocator\<close>

text \<open>
  What the callers of \<open>kalloc\<close> and \<open>kfree\<close> rely on: allocation takes the first of the free pages,
  whose contents nobody else uses, and answers 0 when there is none; freeing gives a page back.
\<close>

locale page_allocator =
  fixes alloc :: "('s, ptr) kmon" and dealloc :: "ptr \<Rightarrow> ('s, unit) kmon"
    and free :: "'s \<Rightarrow> ptr list \<Rightarrow> bool" and contents :: "'s \<Rightarrow> bytes" and usable :: "'s \<Rightarrow> ptr \<Rightarrow> bool"
  assumes alloc_Nil: "free s [] \<Longrightarrow> \<exists>t. alloc s = Done 0 t \<and> free t [] \<and> contents t = contents s \<and> usable t = usable s"
    and alloc_Cons: "free s (x # xs) \<Longrightarrow>
      \<exists>t. alloc s = Done x t \<and> free t xs \<and> contents t = contents s \<and> usable t = usable s"
    and dealloc: "free s xs \<Longrightarrow> usable s v \<Longrightarrow> v \<notin> set xs \<Longrightarrow>
      \<exists>t. dealloc v s = Done () t \<and> free t (v # xs) \<and> usable t = usable s \<and>
          (\<forall>x. \<not> in_page v x \<longrightarrow> contents t x = contents s x)"
    and free_usable: "free s xs \<Longrightarrow> distinct xs \<and> (\<forall>x\<in>set xs. usable s x \<and> x \<noteq> 0)"
begin

text \<open>Allocate \<open>n\<close> pages.\<close>

primrec allocs :: "nat \<Rightarrow> ('s, ptr list) kmon" where
  "allocs 0 = return []"
| "allocs (Suc n) = bind alloc (\<lambda>p. bind (allocs n) (\<lambda>ps. return (p # ps)))"

lemma allocs_take:
  "free s xs \<Longrightarrow> n \<le> length xs \<Longrightarrow>
   \<exists>t. allocs n s = Done (take n xs) t \<and> free t (drop n xs) \<and> contents t = contents s \<and> usable t = usable s"
proof (induction n arbitrary: s xs)
  case 0
  then show ?case by (simp add: exec_simps)
next
  case (Suc n)
  then obtain y ys where xs: "xs = y # ys" by (cases xs) auto
  then obtain u where u: "alloc s = Done y u" "free u ys" "contents u = contents s" "usable u = usable s"
    using alloc_Cons Suc.prems by blast
  from Suc.IH [OF this(2)] Suc.prems xs obtain t where
    "allocs n u = Done (take n ys) t \<and> free t (drop n ys) \<and> contents t = contents u \<and> usable t = usable u" by auto
  with u xs show ?case by (simp add: exec_simps)
qed

lemma allocs_distinct:
  assumes "free s xs" "n \<le> length xs"
  shows "\<exists>ps t. allocs n s = Done ps t \<and> length ps = n \<and> distinct ps \<and> 0 \<notin> set ps"
  using allocs_take [OF assms] free_usable [OF assms(1)] assms(2) by (fastforce dest: in_set_takeD)

lemma dealloc_alloc:
  assumes "free s xs" "usable s v" "v \<notin> set xs"
  shows "\<exists>t. bind (dealloc v) (\<lambda>_. alloc) s = Done v t \<and> free t xs \<and>
    (\<forall>x. \<not> in_page v x \<longrightarrow> contents t x = contents s x)"
proof -
  obtain u where "dealloc v s = Done () u" "free u (v # xs)" "\<forall>x. \<not> in_page v x \<longrightarrow> contents u x = contents s x"
    using dealloc [OF assms] by blast
  with alloc_Cons [of u v xs] show ?thesis by (auto simp: exec_simps)
qed

end

definition kmem_free :: "'a memory_scheme \<Rightarrow> ptr list \<Rightarrow> bool" where
  "kmem_free s xs \<longleftrightarrow> free_pages s xs \<and> kmem_ready s"

interpretation kmem: page_allocator kalloc kfree kmem_free mem "\<lambda>s. page_ok (kend s)"
proof unfold_locales
  fix s :: "'a memory_scheme"
  assume "kmem_free s []"
  then show "\<exists>t. kalloc s = Done 0 t \<and> kmem_free t [] \<and> mem t = mem s \<and> page_ok (kend t) = page_ok (kend s)"
    using kalloc_exec [of s "[]"] by (auto simp: kmem_free_def)
next
  fix s :: "'a memory_scheme" and x xs
  assume "kmem_free s (x # xs)"
  then show "\<exists>t. kalloc s = Done x t \<and> kmem_free t xs \<and> mem t = mem s \<and> page_ok (kend t) = page_ok (kend s)"
    using kalloc_exec [of s "x # xs"] free_pages_tl [of "kmem_touch s" x xs] by (auto simp: kmem_free_def)
next
  fix s :: "'a memory_scheme" and xs v
  assume "kmem_free s xs" "page_ok (kend s) v" "v \<notin> set xs"
  then show "\<exists>t. kfree v s = Done () t \<and> kmem_free t (v # xs) \<and> page_ok (kend t) = page_ok (kend s) \<and>
     (\<forall>x. \<not> in_page v x \<longrightarrow> mem t x = mem s x)"
    using kfree_exec [of s v] free_pages_Cons [of "kmem_touch s" xs v] kfree_mem_other [of "kend s" v]
    by (auto simp: kmem_free_def)
next
  fix s :: "'a memory_scheme" and xs
  assume "kmem_free s xs"
  then show "distinct xs \<and> (\<forall>x\<in>set xs. page_ok (kend s) x \<and> x \<noteq> 0)"
    using page_ok_bounds(4) by (auto simp: kmem_free_def free_pages_def)
qed

end
