(* ===== verification/Vm.thy ===== *)
theory Vm
  imports Kalloc
begin

text \<open>
  The x86 page tables of \<open>kernel/arch/x86_32/mem/vm.c\<close>, as words in the byte memory of the
  kernel. A page table entry is found by \<open>walkpgdir\<close>; \<open>mappages\<close>, \<open>deallocuvm\<close>, \<open>copyuvm\<close> and the
  others build and tear down address spaces with the page allocator. The lemmas show that
  walking and mapping keep a directory well formed (\<open>vm_ok\<close>) and change the translation of the
  pages of the range only (\<open>maps_range\<close>).
\<close>


section \<open>Page table entries\<close>

abbreviation (input) PTE_P :: "32 word" where "PTE_P \<equiv> 1"
abbreviation (input) PTE_W :: "32 word" where "PTE_W \<equiv> 2"
abbreviation (input) PTE_U :: "32 word" where "PTE_U \<equiv> 4"
abbreviation (input) EXTMEM :: "32 word" where "EXTMEM \<equiv> 0x100000"
abbreviation (input) DEVSPACE :: "32 word" where "DEVSPACE \<equiv> 0xFE000000"
abbreviation (input) NPDENTRIES :: nat where "NPDENTRIES \<equiv> 1024"

definition PDX :: "32 word \<Rightarrow> 32 word" where
  "PDX va = drop_bit 22 va AND 0x3FF"

definition PTX :: "32 word \<Rightarrow> 32 word" where
  "PTX va = drop_bit 12 va AND 0x3FF"

definition PGADDR :: "32 word \<Rightarrow> 32 word \<Rightarrow> 32 word \<Rightarrow> 32 word" where
  "PGADDR d t off = push_bit 22 d OR push_bit 12 t OR off"

definition PTE_ADDR :: "32 word \<Rightarrow> 32 word" where
  "PTE_ADDR pte = pte AND NOT 0xFFF"

definition PTE_FLAGS :: "32 word \<Rightarrow> 32 word" where
  "PTE_FLAGS pte = pte AND 0xFFF"

definition P2V :: "32 word \<Rightarrow> ptr" where
  "P2V a = a + 0x80000000"

definition rd32 :: "ptr \<Rightarrow> ('a memory_scheme, 32 word) kmon" where
  "rd32 p = gets (\<lambda>s. load32 (mem s) p)"

definition wr32 :: "ptr \<Rightarrow> 32 word \<Rightarrow> ('a memory_scheme, unit) kmon" where
  "wr32 p w = upd_mem (store32 p w)"

section \<open>Mapping pages\<close>

definition walkpgdir :: "ptr \<Rightarrow> ptr \<Rightarrow> bool \<Rightarrow> ('a memory_scheme, ptr) kmon" where
  "walkpgdir pd va alloc =
     bind (rd32 (pd + 4 * PDX va)) (\<lambda>pde.
     if pde AND PTE_P \<noteq> 0 then return (P2V (PTE_ADDR pde) + 4 * PTX va)
     else if \<not> alloc then return 0
     else bind kalloc (\<lambda>pgtab.
     if pgtab = 0 then return 0
     else bind (upd_mem (memset pgtab 0 PGSIZE)) (\<lambda>_.
     bind (wr32 (pd + 4 * PDX va) (V2P pgtab OR PTE_P OR PTE_W OR PTE_U)) (\<lambda>_.
     return (pgtab + 4 * PTX va)))))"

primrec mappages_loop :: "nat \<Rightarrow> ptr \<Rightarrow> ptr \<Rightarrow> ptr \<Rightarrow> 32 word \<Rightarrow> 32 word \<Rightarrow> ('a memory_scheme, int) kmon" where
  "mappages_loop 0 pd a end_a pa perm = fail Diverge"
| "mappages_loop (Suc n) pd a end_a pa perm =
     bind (walkpgdir pd a True) (\<lambda>pte.
     if pte = 0 then return (- 1)
     else bind (rd32 pte) (\<lambda>e.
     if e AND PTE_P \<noteq> 0 then panic ''remap''
     else bind (wr32 pte (pa OR perm OR PTE_P)) (\<lambda>_.
     if a = end_a then return 0
     else mappages_loop n pd (a + PGSIZE) end_a (pa + PGSIZE) perm)))"

text \<open>The loop visits each of the \<open>2 ^ 20\<close> pages of the address space at most once.\<close>

definition mappages :: "ptr \<Rightarrow> ptr \<Rightarrow> 32 word \<Rightarrow> 32 word \<Rightarrow> 32 word \<Rightarrow> ('a memory_scheme, int) kmon" where
  "mappages pd va n pa perm =
     mappages_loop (2 ^ 20) pd (PGROUNDDOWN va) (PGROUNDDOWN (va + n - 1)) pa perm"

section \<open>Counting pages\<close>

definition tally_table :: "32 word \<Rightarrow> ptr \<Rightarrow> bytes \<Rightarrow> nat" where
  "tally_table flag pgtab m =
     length (filter (\<lambda>j. load32 m (pgtab + 4 * of_nat j) AND flag \<noteq> 0) [0..<1024])"

definition tally_directory :: "32 word \<Rightarrow> ptr \<Rightarrow> bytes \<Rightarrow> 32 word" where
  "tally_directory flag pd m =
     of_nat (sum_list (map (\<lambda>i.
       let e = load32 m (pd + 4 * of_nat i) in
       if e AND PTE_P \<noteq> 0 then tally_table flag (P2V (PTE_ADDR e)) m else 0) [0..<NPDENTRIES]))"

definition tally_page_directory :: "ptr \<Rightarrow> ('a memory_scheme, 32 word) kmon" where
  "tally_page_directory pd = gets (\<lambda>s. tally_directory PTE_U pd (mem s))"

definition tally_kernel_page_directory :: "('a memory_scheme, 32 word) kmon" where
  "tally_kernel_page_directory = gets (\<lambda>s. tally_directory PTE_P (kpgdir s) (mem s))"

section \<open>Freeing\<close>

primrec dealloc_loop :: "nat \<Rightarrow> ptr \<Rightarrow> 32 word \<Rightarrow> 32 word \<Rightarrow> ('a memory_scheme, unit) kmon" where
  "dealloc_loop 0 pd a oldsz = fail Diverge"
| "dealloc_loop (Suc n) pd a oldsz =
     (if a < oldsz then
        bind (walkpgdir pd a False) (\<lambda>pte.
        if pte = 0 then dealloc_loop n pd (PGADDR (PDX a + 1) 0 0 - PGSIZE + PGSIZE) oldsz
        else bind (rd32 pte) (\<lambda>e.
        if e AND PTE_P \<noteq> 0 then
          (if PTE_ADDR e = 0 then panic ''kfree''
           else bind (kfree (P2V (PTE_ADDR e))) (\<lambda>_.
             bind (wr32 pte 0) (\<lambda>_.
             dealloc_loop n pd (a + PGSIZE) oldsz)))
        else dealloc_loop n pd (a + PGSIZE) oldsz))
      else return ())"

definition deallocuvm :: "ptr \<Rightarrow> 32 word \<Rightarrow> 32 word \<Rightarrow> ('a memory_scheme, 32 word) kmon" where
  "deallocuvm pd oldsz newsz =
     (if newsz \<ge> oldsz then return oldsz
      else bind (dealloc_loop (Suc (2 ^ 20)) pd (PGROUNDUP newsz) oldsz) (\<lambda>_.
      return newsz))"

primrec freevm_loop :: "nat \<Rightarrow> nat \<Rightarrow> ptr \<Rightarrow> ('a memory_scheme, unit) kmon" where
  "freevm_loop 0 i pd = return ()"
| "freevm_loop (Suc n) i pd =
     bind (rd32 (pd + 4 * of_nat i)) (\<lambda>e.
     bind (cwhen (e AND PTE_P \<noteq> 0) (kfree (P2V (PTE_ADDR e)))) (\<lambda>_.
     freevm_loop n (Suc i) pd))"

definition freevm :: "ptr \<Rightarrow> ('a memory_scheme, unit) kmon" where
  "freevm pd =
     (if pd = 0 then panic ''freevm: no pgdir''
      else bind (deallocuvm pd KERNBASE 0) (\<lambda>_.
      bind (freevm_loop NPDENTRIES 0 pd) (\<lambda>_.
      kfree pd)))"

section \<open>Building address spaces\<close>

text \<open>The kernel's mappings: virtual address, first and last physical address, permissions.\<close>

definition kmap :: "32 word \<Rightarrow> (ptr \<times> 32 word \<times> 32 word \<times> 32 word) list" where
  "kmap dat = [
     (KERNBASE, 0, EXTMEM, PTE_W),
     (KERNBASE + EXTMEM, V2P (KERNBASE + EXTMEM), V2P dat, 0),
     (dat, V2P dat, PHYSTOP, PTE_W),
     (DEVSPACE, DEVSPACE, 0, PTE_W)]"

primrec setupkvm_loop :: "(ptr \<times> 32 word \<times> 32 word \<times> 32 word) list \<Rightarrow> ptr \<Rightarrow> ('a memory_scheme, ptr) kmon" where
  "setupkvm_loop [] pd = return pd"
| "setupkvm_loop (k # ks) pd =
     (case k of (virt, phys_start, phys_end, perm) \<Rightarrow>
      bind (mappages pd virt (phys_end - phys_start) phys_start perm) (\<lambda>r.
      if r < 0 then bind (freevm pd) (\<lambda>_. return 0)
      else setupkvm_loop ks pd))"

definition setupkvm :: "('a memory_scheme, ptr) kmon" where
  "setupkvm =
     bind kalloc (\<lambda>pd.
     if pd = 0 then return 0
     else bind (upd_mem (memset pd 0 PGSIZE)) (\<lambda>_.
     if P2V PHYSTOP > DEVSPACE then panic ''PHYSTOP too high''
     else bind (gets kdata) (\<lambda>dat. setupkvm_loop (kmap dat) pd)))"

definition kvmalloc :: "('a memory_scheme, unit) kmon" where
  "kvmalloc =
     bind setupkvm (\<lambda>d.
     bind (modify (\<lambda>s. s\<lparr>kpgdir := d\<rparr>)) (\<lambda>_.
     switchkvm))"

definition inituvm :: "ptr \<Rightarrow> ptr \<Rightarrow> 32 word \<Rightarrow> ('a memory_scheme, unit) kmon" where
  "inituvm pd init n =
     (if n \<ge> PGSIZE then panic ''inituvm: more than a page''
      else bind kalloc (\<lambda>p. seqs [
        upd_mem (memset p 0 PGSIZE),
        bind (mappages pd 0 PGSIZE (V2P p) (PTE_W OR PTE_U)) (\<lambda>_. return ()),
        upd_mem (memmove p init n)]))"

text \<open>
  One page of user memory at \<open>a\<close>; the result is false when memory has run out, after the pages
  between \<open>lo\<close> and \<open>hi\<close> have been freed. The message on the console is left out.
\<close>

definition alloc_user_page :: "ptr \<Rightarrow> 32 word \<Rightarrow> 32 word \<Rightarrow> 32 word \<Rightarrow> ('a memory_scheme, bool) kmon" where
  "alloc_user_page pd a hi lo =
     bind kalloc (\<lambda>p.
     if p = 0 then bind (deallocuvm pd hi lo) (\<lambda>_. return False)
     else bind (upd_mem (memset p 0 PGSIZE)) (\<lambda>_.
     bind (mappages pd a PGSIZE (V2P p) (PTE_W OR PTE_U)) (\<lambda>r.
     if r < 0 then
       bind (deallocuvm pd hi lo) (\<lambda>_.
       bind (kfree p) (\<lambda>_.
       return False))
     else return True)))"

primrec alloc_down :: "nat \<Rightarrow> ptr \<Rightarrow> 32 word \<Rightarrow> 32 word \<Rightarrow> 32 word \<Rightarrow> ('a memory_scheme, bool) kmon" where
  "alloc_down 0 pd a oldsz newsz = fail Diverge"
| "alloc_down (Suc n) pd a oldsz newsz =
     (if a \<ge> newsz then
        bind (alloc_user_page pd a oldsz newsz) (\<lambda>ok.
        if \<not> ok then return False
        else if a = 0 then return True
        else alloc_down n pd (a - PGSIZE) oldsz newsz)
      else return True)"

primrec alloc_up :: "nat \<Rightarrow> ptr \<Rightarrow> 32 word \<Rightarrow> 32 word \<Rightarrow> 32 word \<Rightarrow> ('a memory_scheme, bool) kmon" where
  "alloc_up 0 pd a oldsz newsz = fail Diverge"
| "alloc_up (Suc n) pd a oldsz newsz =
     (if a < newsz then
        bind (alloc_user_page pd a newsz oldsz) (\<lambda>ok.
        if \<not> ok then return False
        else alloc_up n pd (a + PGSIZE) oldsz newsz)
      else return True)"

definition allocuvm :: "ptr \<Rightarrow> 32 word \<Rightarrow> 32 word \<Rightarrow> bool \<Rightarrow> ('a memory_scheme, 32 word) kmon" where
  "allocuvm pd oldsz newsz grow_down =
     (if newsz \<ge> KERNBASE then return 0
      else if newsz < oldsz then return oldsz
      else bind (if grow_down then alloc_down (Suc (2 ^ 20)) pd (PGROUNDDOWN (oldsz - 1)) oldsz newsz
                 else return True) (\<lambda>ok.
      if \<not> ok then return 0
      else bind (alloc_up (Suc (2 ^ 20)) pd (PGROUNDUP oldsz) oldsz newsz) (\<lambda>ok.
      return (if ok then newsz else 0))))"

section \<open>User memory\<close>

definition clearpteu :: "ptr \<Rightarrow> ptr \<Rightarrow> ('a memory_scheme, unit) kmon" where
  "clearpteu pd uva =
     bind (walkpgdir pd uva False) (\<lambda>pte.
     if pte = 0 then panic ''clearpteu''
     else bind (rd32 pte) (\<lambda>e. wr32 pte (e AND NOT PTE_U)))"

primrec copyuvm_loop :: "nat \<Rightarrow> ptr \<Rightarrow> ptr \<Rightarrow> 32 word \<Rightarrow> 32 word \<Rightarrow> ('a memory_scheme, ptr) kmon" where
  "copyuvm_loop 0 pd d i n = fail Diverge"
| "copyuvm_loop (Suc k) pd d i n =
     (if i < n then
        bind (walkpgdir pd i False) (\<lambda>pte.
        if pte = 0 then panic ''copyuvm: pte should exist''
        else bind (rd32 pte) (\<lambda>e.
        if e AND PTE_P = 0 then panic ''copyuvm: page not present''
        else bind kalloc (\<lambda>p.
        if p = 0 then bind (freevm d) (\<lambda>_. return 0)
        else bind (upd_mem (memmove p (P2V (PTE_ADDR e)) PGSIZE)) (\<lambda>_.
        bind (mappages d i PGSIZE (V2P p) (PTE_FLAGS e)) (\<lambda>r.
        if r < 0 then bind (kfree p) (\<lambda>_. bind (freevm d) (\<lambda>_. return 0))
        else copyuvm_loop k pd d (i + PGSIZE) n)))))
      else return d)"

definition copyuvm :: "ptr \<Rightarrow> 32 word \<Rightarrow> ('a memory_scheme, ptr) kmon" where
  "copyuvm pd n =
     bind setupkvm (\<lambda>d.
     if d = 0 then return 0
     else copyuvm_loop (Suc (2 ^ 20)) pd d 0 n)"

text \<open>\<open>uva2ka\<close> reads the entry without asking whether there is a page table for the address.\<close>

definition uva2ka :: "ptr \<Rightarrow> ptr \<Rightarrow> ('a memory_scheme, ptr) kmon" where
  "uva2ka pd uva =
     bind (walkpgdir pd uva False) (\<lambda>pte.
     if pte = 0 then fail Bad_Access
     else bind (rd32 pte) (\<lambda>e.
     return (if e AND PTE_P = 0 then 0 else if e AND PTE_U = 0 then 0 else P2V (PTE_ADDR e))))"

text \<open>
  The kernel reads and writes user buffers through the page directory in \<open>cr3\<close>; its own
  addresses are mapped one to one. An address without a mapping is a fault.
\<close>

definition mapped_at :: "bytes \<Rightarrow> ptr \<Rightarrow> 32 word \<Rightarrow> ptr option" where
  "mapped_at m pd va =
     (let pde = load32 m (pd + 4 * PDX va) in
      if pde AND PTE_P = 0 then None
      else let pte = load32 m (P2V (PTE_ADDR pde) + 4 * PTX va) in
      if pte AND PTE_P = 0 then None
      else Some (P2V (PTE_ADDR pte) + (va - PGROUNDDOWN va)))"

definition vaddr :: "'a memory_scheme \<Rightarrow> ptr \<Rightarrow> ptr option" where
  "vaddr s va = (if va \<ge> KERNBASE then Some va else mapped_at (mem s) (P2V (cr3 (cur s))) va)"

definition get_byte :: "ptr \<Rightarrow> ('a memory_scheme, 8 word) kmon" where
  "get_byte va = bind (gets (\<lambda>s. vaddr s va)) (\<lambda>a. deref a (\<lambda>q. gets (\<lambda>s. mem s q)))"

definition put_byte :: "ptr \<Rightarrow> 8 word \<Rightarrow> ('a memory_scheme, unit) kmon" where
  "put_byte va x = bind (gets (\<lambda>s. vaddr s va)) (\<lambda>a. deref a (\<lambda>q. upd_mem (\<lambda>m. m(q := x))))"

primrec copy_in :: "nat \<Rightarrow> ptr \<Rightarrow> ('a memory_scheme, 8 word list) kmon" where
  "copy_in 0 va = return []"
| "copy_in (Suc n) va = bind (get_byte va) (\<lambda>x. bind (copy_in n (va + 1)) (\<lambda>xs. return (x # xs)))"

primrec copy_to :: "8 word list \<Rightarrow> ptr \<Rightarrow> ('a memory_scheme, unit) kmon" where
  "copy_to [] va = return ()"
| "copy_to (x # xs) va = bind (put_byte va x) (\<lambda>_. copy_to xs (va + 1))"

primrec put_bytes :: "8 word list \<Rightarrow> ptr \<Rightarrow> bytes \<Rightarrow> bytes" where
  "put_bytes [] p d = d"
| "put_bytes (x # xs) p d = put_bytes xs (p + 1) (d(p := x))"

text \<open>
  \<open>copyout\<close> with the source as the list of its bytes, which a caller takes from a variable or
  reads with \<open>copy_in\<close>. A round moves at least one byte.
\<close>

primrec copyout_loop :: "nat \<Rightarrow> ptr \<Rightarrow> 32 word \<Rightarrow> 8 word list \<Rightarrow> ('a memory_scheme, int) kmon" where
  "copyout_loop 0 pd va xs = fail Diverge"
| "copyout_loop (Suc k) pd va xs =
     (if xs \<noteq> [] then
        let va0 = PGROUNDDOWN va in
        bind (uva2ka pd va0) (\<lambda>pa0.
        if pa0 = 0 then return (- 1)
        else let n = min (unat (PGSIZE - (va - va0))) (length xs) in
        bind (upd_mem (put_bytes (take n xs) (pa0 + (va - va0)))) (\<lambda>_.
        copyout_loop k pd (va0 + PGSIZE) (drop n xs)))
      else return 0)"

definition copyout :: "ptr \<Rightarrow> 32 word \<Rightarrow> 8 word list \<Rightarrow> ('a memory_scheme, int) kmon" where
  "copyout pd va xs = copyout_loop (Suc (length xs)) pd va xs"

section \<open>Slots of a page\<close>

lemma unat_mask10: "unat (x AND 0x3FF) < 1024" for x :: "32 word"
proof -
  have "(0x3FF :: 32 word) = mask 10" by (simp add: mask_eq_exp_minus_1)
  then have "unat (x AND 0x3FF) = take_bit 10 (unat x)"
    by (simp only: take_bit_eq_mask [symmetric] unsigned_take_bit_eq)
  then show ?thesis using take_bit_nat_less_exp [of 10 "unat x"] by simp
qed

lemma PDX_PTX_less: "unat (PDX va) < 1024" "unat (PTX va) < 1024"
  by (simp_all add: PDX_def PTX_def unat_mask10)

lemma slot_unat:
  assumes "page_ok e v" "unat k < 1024"
  shows "unat (v + 4 * k) = unat v + 4 * unat k"
  using page_ok_bounds(2) [OF assms(1)] assms(2) by (simp add: unat_word_ariths)

lemma slot_fits: "page_ok e v \<Longrightarrow> unat k < 1024 \<Longrightarrow> fits (v + 4 * k) 4"
  using page_ok_bounds(2) [of e v] by (simp add: fits_def slot_unat)

lemma slot_within: "page_ok e v \<Longrightarrow> unat k < 1024 \<Longrightarrow> within (v + 4 * k) 4 x \<Longrightarrow> in_page v x"
  by (simp add: within_def slot_unat)

lemma slot_nonnull: "page_ok e v \<Longrightarrow> unat k < 1024 \<Longrightarrow> v + 4 * k \<noteq> 0"
  using page_ok_bounds(1) [of e v] slot_unat [of e v k] by auto

lemma load32_slot_cong:
  assumes "page_ok e v" "unat k < 1024" "\<And>x. in_page v x \<Longrightarrow> m x = m' x"
  shows "load32 m (v + 4 * k) = load32 m' (v + 4 * k)"
  using assms slot_within slot_fits by (intro load32_cong) blast+

lemma load32_store32_slot:
  assumes "page_ok e v" "unat k < 1024" "page_ok e w" "unat l < 1024"
  shows "load32 (store32 (v + 4 * k) d m) (w + 4 * l) = (if v = w \<and> k = l then d else load32 m (w + 4 * l))"
proof (cases "v = w \<and> k = l")
  case False
  have "load32 (store32 (v + 4 * k) d m) (w + 4 * l) = load32 m (w + 4 * l)"
  proof (rule load32_cong)
    show "fits (w + 4 * l) 4" by (rule slot_fits [OF assms(3,4)])
    fix x assume x: "within (w + 4 * l) 4 x"
    have "\<not> within (v + 4 * k) 4 x"
    proof
      assume y: "within (v + 4 * k) 4 x"
      have "v = w" using pages_disjoint [OF page_ok_bounds(3) [OF assms(1)] page_ok_bounds(3) [OF assms(3)]]
        slot_within [OF assms(1,2) y] slot_within [OF assms(3,4) x] by blast
      then have "unat k = unat l" using x y assms by (simp add: within_def slot_unat)
      then show False using False \<open>v = w\<close> by (simp add: word_unat_eq_iff)
    qed
    then show "store32 (v + 4 * k) d m x = m x" using store32_other slot_fits [OF assms(1,2)] by blast
  qed
  then show ?thesis using False by auto
qed simp

section \<open>Well-formed page directories\<close>

definition pde_at :: "bytes \<Rightarrow> ptr \<Rightarrow> 32 word \<Rightarrow> 32 word" where
  "pde_at m pd i = load32 m (pd + 4 * i)"

definition has_tab :: "bytes \<Rightarrow> ptr \<Rightarrow> 32 word \<Rightarrow> bool" where
  "has_tab m pd i \<longleftrightarrow> pde_at m pd i AND PTE_P \<noteq> 0"

definition tab_at :: "bytes \<Rightarrow> ptr \<Rightarrow> 32 word \<Rightarrow> ptr" where
  "tab_at m pd i = P2V (PTE_ADDR (pde_at m pd i))"

text \<open>The page table entry of an address, 0 where there is no page table.\<close>

definition pte_at :: "bytes \<Rightarrow> ptr \<Rightarrow> 32 word \<Rightarrow> 32 word" where
  "pte_at m pd va = (if has_tab m pd (PDX va) then load32 m (tab_at m pd (PDX va) + 4 * PTX va) else 0)"

definition pt_pages :: "bytes \<Rightarrow> ptr \<Rightarrow> ptr set" where
  "pt_pages m pd = insert pd {tab_at m pd i | i. unat i < 1024 \<and> has_tab m pd i}"

text \<open>
  \<open>pt_ok\<close>: the directory and the tables it points to are different pages of the allocator's
  range.
\<close>

definition pt_ok :: "ptr \<Rightarrow> bytes \<Rightarrow> ptr \<Rightarrow> bool" where
  "pt_ok e m pd \<longleftrightarrow> page_ok e pd \<and>
     (\<forall>i. unat i < 1024 \<and> has_tab m pd i \<longrightarrow> page_ok e (tab_at m pd i) \<and> tab_at m pd i \<noteq> pd) \<and>
     (\<forall>i j. unat i < 1024 \<and> unat j < 1024 \<and> has_tab m pd i \<and> has_tab m pd j \<and>
        tab_at m pd i = tab_at m pd j \<longrightarrow> i = j)"

lemma pt_okD:
  assumes "pt_ok e m pd"
  shows "page_ok e pd"
    "unat i < 1024 \<Longrightarrow> has_tab m pd i \<Longrightarrow> page_ok e (tab_at m pd i)"
    "unat i < 1024 \<Longrightarrow> has_tab m pd i \<Longrightarrow> tab_at m pd i \<noteq> pd"
    "unat i < 1024 \<Longrightarrow> unat j < 1024 \<Longrightarrow> has_tab m pd i \<Longrightarrow> has_tab m pd j \<Longrightarrow>
       tab_at m pd i = tab_at m pd j \<longleftrightarrow> i = j"
  using assms by (auto simp: pt_ok_def)

lemma pde_cong:
  assumes "\<And>i. unat i < 1024 \<Longrightarrow> pde_at m' pd i = pde_at m pd i" "pt_ok e m pd"
  shows "unat i < 1024 \<Longrightarrow> has_tab m' pd i = has_tab m pd i"
    "unat i < 1024 \<Longrightarrow> tab_at m' pd i = tab_at m pd i" "pt_ok e m' pd" "pt_pages m' pd = pt_pages m pd"
proof -
  have h: "has_tab m' pd i = has_tab m pd i" "tab_at m' pd i = tab_at m pd i" if "unat i < 1024" for i
    using assms(1) [OF that] by (simp_all add: has_tab_def tab_at_def)
  then show "unat i < 1024 \<Longrightarrow> has_tab m' pd i = has_tab m pd i"
    "unat i < 1024 \<Longrightarrow> tab_at m' pd i = tab_at m pd i" by auto
  show "pt_pages m' pd = pt_pages m pd" unfolding pt_pages_def using h by (intro arg_cong [where f = "insert pd"] Collect_cong) metis
  show "pt_ok e m' pd" using assms(2) h unfolding pt_ok_def by (metis (no_types, lifting))
qed

text \<open>Writing an entry changes the translation of its page only.\<close>

lemma store_pte:
  assumes "pt_ok e m pd" "has_tab m pd (PDX va)" "m' = store32 (tab_at m pd (PDX va) + 4 * PTX va) w m"
  shows "pt_ok e m' pd" "pt_pages m' pd = pt_pages m pd"
    "pte_at m' pd va' = (if PDX va' = PDX va \<and> PTX va' = PTX va then w else pte_at m pd va')"
proof -
  note [simp] = PDX_PTX_less
  note ok = pt_okD [OF assms(1)]
  have s: "load32 m' (v + 4 * l) = (if tab_at m pd (PDX va) = v \<and> PTX va = l then w else load32 m (v + 4 * l))"
    if "page_ok e v" "unat l < 1024" for v l
    unfolding assms(3) by (rule load32_store32_slot) (use that ok(2) assms(2) in simp_all)
  have p: "pde_at m' pd i = pde_at m pd i" if "unat i < 1024" for i
    using s [OF ok(1) that] ok(3) [OF _ assms(2)] by (simp add: pde_at_def)
  show "pt_ok e m' pd" "pt_pages m' pd = pt_pages m pd" using pde_cong [OF p assms(1)] by auto
  have t: "has_tab m' pd (PDX va') = has_tab m pd (PDX va')" "tab_at m' pd (PDX va') = tab_at m pd (PDX va')"
    using pde_cong(1,2) [OF p assms(1)] by auto
  show "pte_at m' pd va' = (if PDX va' = PDX va \<and> PTX va' = PTX va then w else pte_at m pd va')"
  proof (cases "has_tab m pd (PDX va')")
    case True
    have "tab_at m pd (PDX va) = tab_at m pd (PDX va') \<longleftrightarrow> PDX va = PDX va'"
      by (rule ok(4)) (simp_all add: True assms(2))
    with True s [of "tab_at m pd (PDX va')" "PTX va'"] ok(2) [OF _ True] show ?thesis
      by (simp add: pte_at_def t)
  next
    case False
    with assms(2) show ?thesis by (auto simp: pte_at_def t)
  qed
qed

section \<open>Flags and addresses of an entry\<close>

lemma pte_flag_bits: "w AND 1 = 0 \<longleftrightarrow> \<not> bit w 0" "w AND 2 = 0 \<longleftrightarrow> \<not> bit w 1" "w AND 4 = 0 \<longleftrightarrow> \<not> bit w 2"
  for w :: "32 word"
  using and_exp_eq_0_iff_not_bit [of w 0] and_exp_eq_0_iff_not_bit [of w 1] and_exp_eq_0_iff_not_bit [of w 2]
  by simp_all

lemma aligned_bits:
  assumes "unat a mod 4096 = 0" "n < 12"
  shows "\<not> bit (a :: 32 word) n"
proof -
  have "take_bit 12 a = 0" using assms(1) unat_mod_page [of a] by (simp add: take_bit_eq_mod)
  then have "\<not> bit (take_bit 12 a) n" by simp
  then show ?thesis using assms(2) by (simp add: bit_take_bit_iff)
qed

lemma small_bits:
  assumes "f < 0x1000" "12 \<le> n"
  shows "\<not> bit (f :: 32 word) n"
proof -
  have "unat f < 4096" using assms(1) by (simp add: word_less_nat_alt)
  then have "take_bit 12 f = f" by (simp add: word_unat_eq_iff unsigned_take_bit_eq take_bit_nat_eq_self)
  then have "bit f n = bit (take_bit 12 f) n" by simp
  then show ?thesis using assms(2) by (simp add: bit_take_bit_iff)
qed

lemma PTE_ADDR_or:
  assumes "unat a mod 4096 = 0" "f < 0x1000"
  shows "PTE_ADDR (a OR f) = a" "PTE_FLAGS (a OR f) = f"
proof -
  have m: "(0xFFF :: 32 word) = mask 12" by (simp add: mask_eq_exp_minus_1)
  have al: "12 \<le> n" if "bit a n" for n using aligned_bits [OF assms(1)] that not_le by blast
  show "PTE_ADDR (a OR f) = a" unfolding PTE_ADDR_def m
    using al small_bits [OF assms(2)]
    by (intro bit_word_eqI) (auto simp: bit_and_iff bit_or_iff bit_not_iff bit_mask_iff not_less)
  have sm: "n < 12" if "bit f n" for n using small_bits [OF assms(2)] that not_le by blast
  show "PTE_FLAGS (a OR f) = f" unfolding PTE_FLAGS_def m
    using aligned_bits [OF assms(1)] sm
    by (intro bit_word_eqI) (auto simp: bit_and_iff bit_or_iff bit_mask_iff not_less)
qed

lemma P2V_V2P [simp]: "P2V (V2P x) = x" "V2P (P2V x) = x"
  by (simp_all add: P2V_def V2P_def)

lemma V2P_aligned:
  assumes "page_ok e x"
  shows "unat (V2P x) mod 4096 = 0" "V2P x \<noteq> 0 \<or> x = 0x80000000"
proof -
  have "unat (V2P x) = unat x - 0x80000000"
    using unat_sub [of "0x80000000" x] page_ok_bounds(1) [OF assms] by (simp add: V2P_def word_le_nat_alt)
  moreover have "(unat x - 0x80000000) mod 4096 = 0"
    using page_ok_bounds(1,3) [OF assms] by (simp add: mod_eq_0_iff_dvd dvd_diff_nat)
  ultimately show "unat (V2P x) mod 4096 = 0" by simp
  show "V2P x \<noteq> 0 \<or> x = 0x80000000" by (simp add: V2P_def)
qed

lemma PTE_P_or [simp]: "(a OR 7) AND 1 \<noteq> (0 :: 32 word)" "(a OR f OR 1) AND 1 \<noteq> (0 :: 32 word)"
  unfolding pte_flag_bits by (simp_all add: bit_or_iff)

section \<open>Walking the tables\<close>

text \<open>What a fresh, cleared page adds to a directory.\<close>

lemma add_tab_slots:
  assumes ok: "page_ok e pd" and x: "page_ok e x" "x \<noteq> pd" and j: "unat j < 1024"
    and m': "m' = store32 (pd + 4 * j) (V2P x OR 7) (memset x 0 0x1000 m)"
  shows "unat i < 1024 \<Longrightarrow> pde_at m' pd i = (if j = i then V2P x OR 7 else pde_at m pd i)"
    "page_ok e v \<Longrightarrow> unat k < 1024 \<Longrightarrow> v \<noteq> x \<Longrightarrow> v \<noteq> pd \<Longrightarrow> load32 m' (v + 4 * k) = load32 m (v + 4 * k)"
    "unat k < 1024 \<Longrightarrow> load32 m' (x + 4 * k) = 0"
    "\<not> in_page x y \<Longrightarrow> \<not> in_page pd y \<Longrightarrow> m' y = m y"
proof -
  have clear: "memset x 0 0x1000 m y = (if in_page x y then 0 else m y)" for y
    using stosb_spec [OF page_ok_bounds(5) [OF x(1)]] by (simp add: memset_eq_stosb)
  have old: "load32 (memset x 0 0x1000 m) (v + 4 * k) = load32 m (v + 4 * k)"
    if "page_ok e v" "unat k < 1024" "v \<noteq> x" for v k
    by (rule load32_slot_cong [OF that(1,2)])
      (use clear pages_disjoint page_ok_bounds(3) x(1) that in metis)
  have ld: "load32 m' (v + 4 * k) = load32 (memset x 0 0x1000 m) (v + 4 * k)"
    if "page_ok e v" "unat k < 1024" "v \<noteq> pd" for v k
    using load32_store32_slot [OF ok j that(1,2)] that(3) by (simp add: m')
  show "pde_at m' pd i = (if j = i then V2P x OR 7 else pde_at m pd i)" if "unat i < 1024"
    using load32_store32_slot [OF ok j ok that] old [OF ok that] x(2) by (simp add: pde_at_def m')
  show "load32 m' (v + 4 * k) = load32 m (v + 4 * k)" if "page_ok e v" "unat k < 1024" "v \<noteq> x" "v \<noteq> pd"
    using ld old that by simp
  show "load32 m' (x + 4 * k) = 0" if "unat k < 1024"
    using ld [OF x(1) that x(2)] load32_slot_cong [OF x(1) that, of "memset x 0 0x1000 m" "\<lambda>_. 0"] clear
    by (simp add: load32_def)
  show "m' y = m y" if y: "\<not> in_page x y" "\<not> in_page pd y"
  proof -
    have "\<not> within (pd + 4 * j) 4 y" using y slot_within [OF ok j] by blast
    then show ?thesis using y store32_other slot_fits [OF ok j] by (simp add: m' clear)
  qed
qed

lemma tab_pages_insert:
  assumes "unat j < 1024" "\<not> has_tab m pd j"
    and any: "\<And>i. unat i < 1024 \<Longrightarrow> has_tab m' pd i \<longleftrightarrow> i = j \<or> has_tab m pd i"
      "\<And>i. unat i < 1024 \<Longrightarrow> tab_at m' pd i = (if i = j then x else tab_at m pd i)"
  shows "pt_pages m' pd = insert x (pt_pages m pd)"
proof -
  have "{tab_at m' pd i | i. unat i < 1024 \<and> has_tab m' pd i} = insert x {tab_at m pd i | i. unat i < 1024 \<and> has_tab m pd i}"
    (is "?L = ?R")
  proof (intro set_eqI iffI)
    fix a assume "a \<in> ?L"
    then obtain i where "a = tab_at m' pd i" "unat i < 1024" "has_tab m' pd i" by blast
    then show "a \<in> ?R" using any [of i] by (auto split: if_splits)
  next
    fix a assume "a \<in> ?R"
    then consider "a = x" | i where "a = tab_at m pd i" "unat i < 1024" "has_tab m pd i" by blast
    then show "a \<in> ?L"
    proof cases
      case 1
      then show ?thesis using any [OF assms(1)] assms(1) by (auto intro!: exI [of _ j])
    next
      case (2 i)
      then show ?thesis using any [of i] assms(2) by (cases "i = j") (auto intro!: exI [of _ i])
    qed
  qed
  then show ?thesis by (auto simp: pt_pages_def)
qed

lemma add_tab:
  assumes "pt_ok e m pd" "\<not> has_tab m pd (PDX va)" "page_ok e x" "x \<notin> pt_pages m pd"
    "m' = store32 (pd + 4 * PDX va) (V2P x OR 7) (memset x 0 0x1000 m)"
  shows "pt_ok e m' pd" "pt_pages m' pd = insert x (pt_pages m pd)" "has_tab m' pd (PDX va)"
    "tab_at m' pd (PDX va) = x" "pte_at m' pd va' = pte_at m pd va'"
    "\<not> in_page x y \<Longrightarrow> \<not> in_page pd y \<Longrightarrow> m' y = m y"
proof -
  note ok = pt_okD [OF assms(1)]
  have xpd: "x \<noteq> pd" using assms(4) by (auto simp: pt_pages_def)
  have xt: "tab_at m pd i \<noteq> x" if "unat i < 1024" "has_tab m pd i" for i
    using assms(4) that by (auto simp: pt_pages_def)
  note slots = add_tab_slots [OF ok(1) assms(3) xpd PDX_PTX_less(1) assms(5)]
  show h: "has_tab m' pd (PDX va)" by (simp add: has_tab_def slots(1) PDX_PTX_less)
  show t: "tab_at m' pd (PDX va) = x"
    using V2P_aligned [OF assms(3)] by (simp add: tab_at_def slots(1) PDX_PTX_less PTE_ADDR_or)
  have any: "has_tab m' pd i \<longleftrightarrow> i = PDX va \<or> has_tab m pd i"
    "tab_at m' pd i = (if i = PDX va then x else tab_at m pd i)" if "unat i < 1024" for i
    using slots(1) [OF that] h t by (auto simp: has_tab_def tab_at_def)
  have "i = j" if "unat i < 1024" "unat j < 1024" "has_tab m' pd i" "has_tab m' pd j" "tab_at m' pd i = tab_at m' pd j" for i j
    using that any [OF that(1)] any [OF that(2)] xt [OF that(1)] xt [OF that(2)] ok(4) [OF that(1,2)]
    by (cases "i = PDX va"; cases "j = PDX va") auto
  moreover have "page_ok e (tab_at m' pd i) \<and> tab_at m' pd i \<noteq> pd" if "unat i < 1024" "has_tab m' pd i" for i
    using any [OF that(1)] that ok(2,3) [OF that(1)] xpd assms(3) by (cases "i = PDX va") simp_all
  ultimately show "pt_ok e m' pd"
    unfolding pt_ok_def using ok(1) by blast
  show "pt_pages m' pd = insert x (pt_pages m pd)"
    using PDX_PTX_less(1) assms(2) any by (rule tab_pages_insert)
  show "pte_at m' pd va' = pte_at m pd va'"
  proof (cases "PDX va' = PDX va")
    case True
    then show ?thesis using h t assms(2) slots(3) [OF PDX_PTX_less(2), of va'] by (simp add: pte_at_def)
  next
    case False
    then show ?thesis
      using any [of "PDX va'"] ok(2,3) [of "PDX va'"] xt [of "PDX va'"] slots(2) [of "tab_at m pd (PDX va')" "PTX va'"]
      by (simp add: pte_at_def PDX_PTX_less)
  qed
  show "m' y = m y" if "\<not> in_page x y" "\<not> in_page pd y" using that by (rule slots(4))
qed


text \<open>
  \<open>vm_ok\<close>: the directory \<open>pd\<close> is well formed, the allocator has the free pages \<open>xs\<close>, and none of
  them is part of the tables.
\<close>

definition vm_ok :: "'a memory_scheme \<Rightarrow> ptr \<Rightarrow> ptr list \<Rightarrow> bool" where
  "vm_ok s pd xs \<longleftrightarrow> pt_ok (kend s) (mem s) pd \<and> kmem_free s xs \<and> pt_pages (mem s) pd \<inter> set xs = {}"

definition pte_addr :: "'a memory_scheme \<Rightarrow> ptr \<Rightarrow> ptr \<Rightarrow> ptr" where
  "pte_addr s pd va = tab_at (mem s) pd (PDX va) + 4 * PTX va"

lemma rd32_exec [exec_simps]: "rd32 p s = Done (load32 (mem s) p) s"
  by (simp add: rd32_def exec_simps)

lemma wr32_exec [exec_simps]: "wr32 p w s = Done () (s\<lparr>mem := store32 p w (mem s)\<rparr>)"
  by (simp add: wr32_def upd_mem_def exec_simps)

lemma upd_mem_exec [exec_simps]: "upd_mem f s = Done () (s\<lparr>mem := f (mem s)\<rparr>)"
  by (simp add: upd_mem_def exec_simps)

lemma walkpgdir_present:
  assumes "has_tab (mem s) pd (PDX va)"
  shows "walkpgdir pd va alloc s = Done (pte_addr s pd va) s"
  using assms by (simp add: walkpgdir_def exec_simps has_tab_def pde_at_def pte_addr_def tab_at_def)

lemma walkpgdir_absent:
  assumes "\<not> has_tab (mem s) pd (PDX va)"
  shows "walkpgdir pd va False s = Done 0 s"
  using assms by (simp add: walkpgdir_def exec_simps has_tab_def pde_at_def)

lemma kmem_free_mem:
  assumes "kmem_free s xs" "\<And>x v. v \<in> set xs \<Longrightarrow> in_page v x \<Longrightarrow> m x = mem s x"
  shows "kmem_free (s\<lparr>mem := m\<rparr>) xs"
proof -
  have f: "free_pages s xs" "kmem_ready s" using assms(1) by (auto simp: kmem_free_def)
  have "free_chain m (freelist s) xs"
  proof (rule free_chain_cong)
    show "free_chain (mem s) (freelist s) xs" using f by (simp add: free_pages_def)
    show "load32 (mem s) x = load32 m x" if x: "x \<in> set xs" for x
    proof (rule load32_cong)
      show "fits x 4" using f x page_ok_bounds by (auto simp: free_pages_def)
      show "mem s y = m y" if "within x 4 y" for y
        using assms(2) [OF x, of y] that by (simp add: within_def)
    qed
  qed
  with f show ?thesis by (simp add: kmem_free_def free_pages_def)
qed

lemma walkpgdir_alloc:
  assumes "vm_ok s pd xs" "xs \<noteq> []"
  shows "\<exists>t ys. walkpgdir pd va True s = Done (pte_addr t pd va) t \<and> vm_ok t pd ys \<and>
    has_tab (mem t) pd (PDX va) \<and> (ys = xs \<or> ys = tl xs) \<and> kend t = kend s \<and>
    (\<forall>va'. pte_at (mem t) pd va' = pte_at (mem s) pd va') \<and>
    (\<forall>a. a \<in> pt_pages (mem s) pd \<longrightarrow> a \<in> pt_pages (mem t) pd)"
proof (cases "has_tab (mem s) pd (PDX va)")
  case True
  then show ?thesis using walkpgdir_present [OF True, of True] assms by auto
next
  case False
  obtain x ys where xs: "xs = x # ys" using assms(2) by (cases xs) auto
  have pt: "pt_ok (kend s) (mem s) pd" "kmem_free s (x # ys)" "pt_pages (mem s) pd \<inter> set (x # ys) = {}"
    using assms(1) by (auto simp: vm_ok_def xs)
  from kmem.alloc_Cons [OF pt(2)] obtain u where
    u: "kalloc s = Done x u" "kmem_free u ys" "mem u = mem s" "page_ok (kend u) = page_ok (kend s)" by blast
  have x: "page_ok (kend s) x" "x \<noteq> 0" "x \<notin> pt_pages (mem s) pd" "x \<notin> set ys"
    using kmem.free_usable [OF pt(2)] pt(3) by auto
  have ku: "kend u = kend s"
    using u(1) kalloc_exec [of s "x # ys"] pt(2) by (auto simp: kmem_free_def)
  define m where "m = store32 (pd + 4 * PDX va) (V2P x OR 7) (memset x 0 0x1000 (mem s))"
  note add = add_tab [OF pt(1) False x(1,3) m_def]
  define t where "t = u\<lparr>mem := m\<rparr>"
  have "walkpgdir pd va True s = Done (pte_addr t pd va) t"
    using False x(2) add(4)
    by (simp add: walkpgdir_def exec_simps has_tab_def pde_at_def pte_addr_def u(1,3) t_def m_def)
  moreover have "vm_ok t pd ys"
  proof -
    have "m y = mem u y" if "v \<in> set ys" "in_page v y" for v y
    proof -
      have v: "page_ok (kend s) v" "v \<noteq> x" "v \<noteq> pd"
        using that(1) x(4) pt(3) kmem.free_usable [OF pt(2)] by (auto simp: pt_pages_def)
      have "\<not> in_page x y" "\<not> in_page pd y"
        using v(2,3) pages_disjoint [OF page_ok_bounds(3) [OF v(1)] page_ok_bounds(3) [OF x(1)] that(2)]
          pages_disjoint [OF page_ok_bounds(3) [OF v(1)] page_ok_bounds(3) [OF pt_okD(1) [OF pt(1)]] that(2)]
        by auto
      then show ?thesis using add(6) u(3) by simp
    qed
    then show ?thesis using u pt add(1,2) x(4) ku
      by (simp add: vm_ok_def t_def kmem_free_mem)
  qed
  ultimately show ?thesis using add xs ku by (intro exI [of _ t] exI [of _ ys]) (auto simp: t_def)
qed

section \<open>Pages of addresses\<close>

lemma bit_index10: "bit (w AND 0x3FF) n \<longleftrightarrow> n < 10 \<and> bit w n" for w :: "32 word"
proof -
  have m: "(0x3FF :: 32 word) = mask 10" by (simp add: mask_eq_exp_minus_1)
  show ?thesis unfolding m by (auto simp: bit_and_iff bit_mask_iff dest: bit_imp_le_length)
qed

lemma bit_PGROUNDDOWN: "bit (PGROUNDDOWN v) n \<longleftrightarrow> 12 \<le> n \<and> bit v n"
proof -
  have m: "(0x1000 - 1 :: 32 word) = mask 12" by (simp add: mask_eq_exp_minus_1)
  show ?thesis unfolding PGROUNDDOWN_def m
    by (auto simp: bit_and_iff bit_not_iff bit_mask_iff dest: bit_imp_le_length)
qed

lemma same_page: "PDX v = PDX w \<and> PTX v = PTX w \<longleftrightarrow> PGROUNDDOWN v = PGROUNDDOWN w"
proof
  assume e: "PDX v = PDX w \<and> PTX v = PTX w"
  show "PGROUNDDOWN v = PGROUNDDOWN w"
  proof (rule bit_word_eqI)
    fix n assume "n < LENGTH(32)"
    have "bit v (22 + k) = bit w (22 + k)" if "k < 10" for k
      using arg_cong [OF conjunct1 [OF e], of "\<lambda>x. bit x k"] that by (simp add: PDX_def bit_index10 bit_drop_bit_eq)
    from this [of "n - 22"] have a: "bit v n = bit w n" if "22 \<le> n" using that \<open>n < LENGTH(32)\<close> by simp
    have "bit v (12 + k) = bit w (12 + k)" if "k < 10" for k
      using arg_cong [OF conjunct2 [OF e], of "\<lambda>x. bit x k"] that by (simp add: PTX_def bit_index10 bit_drop_bit_eq)
    from this [of "n - 12"] have "bit v n = bit w n" if "12 \<le> n" "n < 22" using that by simp
    with a show "bit (PGROUNDDOWN v) n = bit (PGROUNDDOWN w) n" by (cases "n < 22") (auto simp: bit_PGROUNDDOWN)
  qed
next
  assume "PGROUNDDOWN v = PGROUNDDOWN w"
  then have "bit v n = bit w n" if "12 \<le> n" for n
    using arg_cong [of _ _ "\<lambda>x. bit x n"] that by (metis bit_PGROUNDDOWN)
  then show "PDX v = PDX w \<and> PTX v = PTX w"
    by (auto intro!: bit_word_eqI simp: PDX_def PTX_def bit_index10 bit_drop_bit_eq)
qed

lemma PGROUNDDOWN_aligned: "unat a mod 4096 = 0 \<Longrightarrow> PGROUNDDOWN a = a"
  by (auto simp: word_unat_eq_iff unat_PGROUNDDOWN)

lemma PGROUNDDOWN_idem [simp]: "PGROUNDDOWN (PGROUNDDOWN a) = PGROUNDDOWN a"
  by (rule PGROUNDDOWN_aligned) (simp add: unat_PGROUNDDOWN)

lemma aligned_add: "PGROUNDDOWN a = a \<Longrightarrow> PGROUNDDOWN (a + 0x1000) = a + 0x1000"
proof -
  assume "PGROUNDDOWN a = a"
  then have "unat a mod 4096 = 0" by (metis unat_PGROUNDDOWN mod_mult_self2_is_0)
  then have "unat (a + 0x1000) mod 4096 = 0" by (simp add: unat_word_ariths mod_mod_cancel)
  then show ?thesis by (rule PGROUNDDOWN_aligned)
qed

lemma aligned_steps: "PGROUNDDOWN a = a \<Longrightarrow> PGROUNDDOWN (a + of_nat i * 0x1000) = a + of_nat i * 0x1000"
proof (induction i)
  case (Suc i)
  then show ?case using aligned_add [of "a + of_nat i * 0x1000"] by (simp add: algebra_simps)
qed simp

lemma page_steps_inj:
  assumes "i < 2 ^ 20" "0 < i"
  shows "a + of_nat i * 0x1000 \<noteq> (a :: 32 word)"
proof -
  have "unat (of_nat i * 0x1000 :: 32 word) = i * 4096" using assms by (simp add: unat_word_ariths unat_of_nat)
  then show ?thesis using assms(2) by (metis add_cancel_right_right mult_is_0 neq0_conv unat_0 zero_neq_numeral)
qed

section \<open>Mapping a range\<close>

lemma vm_ok_store_pte:
  assumes "vm_ok s pd ys" "has_tab (mem s) pd (PDX va)"
  shows "vm_ok (s\<lparr>mem := store32 (pte_addr s pd va) w (mem s)\<rparr>) pd ys"
proof -
  let ?v = "tab_at (mem s) pd (PDX va)" and ?m = "store32 (pte_addr s pd va) w (mem s)"
  have ok: "pt_ok (kend s) (mem s) pd" "kmem_free s ys" "pt_pages (mem s) pd \<inter> set ys = {}"
    using assms(1) by (auto simp: vm_ok_def)
  have v: "page_ok (kend s) ?v" "?v \<notin> set ys"
    using pt_okD(2) [OF ok(1) PDX_PTX_less(1) assms(2)] ok(3) assms(2) PDX_PTX_less(1) by (auto simp: pt_pages_def)
  have "?m x = mem s x" if "z \<in> set ys" "in_page z x" for z x
  proof -
    have "page_ok (kend s) z" using kmem.free_usable [OF ok(2)] that(1) by blast
    then have "\<not> in_page ?v x"
      using pages_disjoint [OF page_ok_bounds(3) page_ok_bounds(3) [OF v(1)] that(2)] v(2) that(1) by blast
    then show ?thesis
      using slot_within [OF v(1) PDX_PTX_less(2)] slot_fits [OF v(1) PDX_PTX_less(2)] store32_other
      by (simp add: pte_addr_def) metis
  qed
  then have "kmem_free (s\<lparr>mem := ?m\<rparr>) ys" by (rule kmem_free_mem [OF ok(2)])
  with ok store_pte(1,2) [OF ok(1) assms(2), of ?m w] show ?thesis by (simp add: vm_ok_def pte_addr_def)
qed

lemma map_one:
  assumes "vm_ok s pd xs" "xs \<noteq> []" "pte_at (mem s) pd va AND PTE_P = 0"
  shows "\<exists>u ys. walkpgdir pd va True s = Done (pte_addr u pd va) u \<and> pte_addr u pd va \<noteq> 0 \<and>
    load32 (mem u) (pte_addr u pd va) AND PTE_P = 0 \<and> length xs \<le> Suc (length ys) \<and> kend u = kend s \<and>
    vm_ok (u\<lparr>mem := store32 (pte_addr u pd va) w (mem u)\<rparr>) pd ys \<and>
    (\<forall>va'. pte_at (store32 (pte_addr u pd va) w (mem u)) pd va' =
       (if PGROUNDDOWN va' = PGROUNDDOWN va then w else pte_at (mem s) pd va'))"
proof -
  obtain u ys where u: "walkpgdir pd va True s = Done (pte_addr u pd va) u" "vm_ok u pd ys"
    "has_tab (mem u) pd (PDX va)" "ys = xs \<or> ys = tl xs" "kend u = kend s"
    "\<forall>va'. pte_at (mem u) pd va' = pte_at (mem s) pd va'"
    using walkpgdir_alloc [OF assms(1,2), of va] by blast
  have pt: "pt_ok (kend u) (mem u) pd" using u(2) by (simp add: vm_ok_def)
  have "pte_at (mem u) pd va = load32 (mem u) (pte_addr u pd va)" using u(3) by (simp add: pte_at_def pte_addr_def)
  moreover have "pte_addr u pd va \<noteq> 0"
    using slot_nonnull [OF pt_okD(2) [OF pt PDX_PTX_less(1) u(3)] PDX_PTX_less(2)] by (simp add: pte_addr_def)
  moreover have "pte_at (store32 (pte_addr u pd va) w (mem u)) pd va' =
       (if PGROUNDDOWN va' = PGROUNDDOWN va then w else pte_at (mem s) pd va')" for va'
    using store_pte(3) [OF pt u(3), of _ w va'] u(6) same_page [of va' va] by (simp add: pte_addr_def)
  ultimately show ?thesis
    using u vm_ok_store_pte [OF u(2,3), of w] assms(3) by (intro exI [of _ u] exI [of _ ys]) auto
qed

text \<open>The entry that \<open>mappages\<close> writes for the page number \<open>i\<close> of a range.\<close>

definition mapped_entry :: "32 word \<Rightarrow> 32 word \<Rightarrow> nat \<Rightarrow> 32 word" where
  "mapped_entry pa perm i = (pa + of_nat i * PGSIZE) OR perm OR PTE_P"

lemma mapped_entry_simps:
  "mapped_entry pa perm 0 = pa OR perm OR 1"
  "mapped_entry (pa + 0x1000) perm i = mapped_entry pa perm (Suc i)"
  by (simp_all add: mapped_entry_def algebra_simps)

definition maps_range :: "bytes \<Rightarrow> bytes \<Rightarrow> ptr \<Rightarrow> ptr \<Rightarrow> 32 word \<Rightarrow> 32 word \<Rightarrow> nat \<Rightarrow> bool" where
  "maps_range m m' pd a pa perm n \<longleftrightarrow>
     (\<forall>va. \<forall>i < n. PGROUNDDOWN va = a + of_nat i * PGSIZE \<longrightarrow> pte_at m' pd va = mapped_entry pa perm i) \<and>
     (\<forall>va. (\<forall>i < n. PGROUNDDOWN va \<noteq> a + of_nat i * PGSIZE) \<longrightarrow> pte_at m' pd va = pte_at m pd va)"

lemma maps_range_one:
  assumes "\<forall>va. pte_at m' pd va = (if PGROUNDDOWN va = a then pa OR perm OR 1 else pte_at m pd va)"
  shows "maps_range m m' pd a pa perm (Suc 0)"
  using assms by (simp add: maps_range_def mapped_entry_simps)

lemma maps_range_Suc:
  assumes "\<forall>va. pte_at m1 pd va = (if PGROUNDDOWN va = a then pa OR perm OR 1 else pte_at m pd va)"
    "maps_range m1 m' pd (a + 0x1000) (pa + 0x1000) perm n" "n < 2 ^ 20"
  shows "maps_range m m' pd a pa perm (Suc n)"
  unfolding maps_range_def
proof (intro conjI allI impI)
  fix va i assume i: "i < Suc n" "PGROUNDDOWN va = a + of_nat i * 0x1000"
  show "pte_at m' pd va = mapped_entry pa perm i"
  proof (cases i)
    case 0
    have "PGROUNDDOWN va \<noteq> a + 0x1000 + of_nat j * 0x1000" if "j < n" for j
      using page_steps_inj [of "Suc j" a] that assms(3) i(2) 0 by (auto simp: algebra_simps)
    then have "pte_at m' pd va = pte_at m1 pd va" using assms(2) by (simp add: maps_range_def)
    then show ?thesis using assms(1) i(2) 0 by (simp add: mapped_entry_simps)
  next
    case (Suc j)
    have "\<forall>va. \<forall>i < n. PGROUNDDOWN va = (a + 0x1000) + of_nat i * PGSIZE \<longrightarrow> pte_at m' pd va = mapped_entry (pa + 0x1000) perm i"
      using assms(2) by (simp add: maps_range_def)
    then show ?thesis using i Suc by (auto simp: algebra_simps mapped_entry_simps)
  qed
next
  fix va assume o: "\<forall>i < Suc n. PGROUNDDOWN va \<noteq> a + of_nat i * 0x1000"
  have "PGROUNDDOWN va \<noteq> a + 0x1000 + of_nat j * 0x1000" if "j < n" for j
    using o [rule_format, of "Suc j"] that by (simp add: algebra_simps)
  then have "pte_at m' pd va = pte_at m1 pd va" using assms(2) by (simp add: maps_range_def)
  then show "pte_at m' pd va = pte_at m pd va" using assms(1) o [rule_format, of 0] by simp
qed

lemma mappages_loop_exec:
  assumes "vm_ok s pd xs" "n < length xs" "n < k" "k \<le> 2 ^ 20" "PGROUNDDOWN a = a" "end_a = a + of_nat n * PGSIZE"
    "\<And>i. i \<le> n \<Longrightarrow> pte_at (mem s) pd (a + of_nat i * PGSIZE) AND PTE_P = 0"
  shows "\<exists>t ys. mappages_loop k pd a end_a pa perm s = Done 0 t \<and> vm_ok t pd ys \<and> kend t = kend s \<and>
    length xs \<le> length ys + Suc n \<and> maps_range (mem s) (mem t) pd a pa perm (Suc n)"
  using assms
proof (induction n arbitrary: s xs k a pa)
  case 0
  then obtain k' where k: "k = Suc k'" by (cases k) auto
  from map_one [OF "0.prems"(1), of a "pa OR perm OR 1"] "0.prems"(2) "0.prems"(7) [of 0] obtain u ys where
    u: "walkpgdir pd a True s = Done (pte_addr u pd a) u" "pte_addr u pd a \<noteq> 0"
      "load32 (mem u) (pte_addr u pd a) AND 1 = 0" "length xs \<le> Suc (length ys)" "kend u = kend s"
      "vm_ok (u\<lparr>mem := store32 (pte_addr u pd a) (pa OR perm OR 1) (mem u)\<rparr>) pd ys"
      "\<forall>va'. pte_at (store32 (pte_addr u pd a) (pa OR perm OR 1) (mem u)) pd va' =
       (if PGROUNDDOWN va' = PGROUNDDOWN a then pa OR perm OR 1 else pte_at (mem s) pd va')" by auto
  then show ?case using k "0.prems"(5,6) maps_range_one [of _ pd a pa perm "mem s"]
    by (intro exI [of _ "u\<lparr>mem := store32 (pte_addr u pd a) (pa OR perm OR 1) (mem u)\<rparr>"] exI [of _ ys])
      (simp add: exec_simps)
next
  case (Suc n)
  then obtain k' where k: "k = Suc k'" by (cases k) auto
  have "xs \<noteq> []" using Suc.prems(2) by auto
  with map_one [OF Suc.prems(1), of a "pa OR perm OR 1"] Suc.prems(7) [of 0] obtain u ys where
    u: "walkpgdir pd a True s = Done (pte_addr u pd a) u" "pte_addr u pd a \<noteq> 0"
      "load32 (mem u) (pte_addr u pd a) AND 1 = 0" "length xs \<le> Suc (length ys)" "kend u = kend s"
      "vm_ok (u\<lparr>mem := store32 (pte_addr u pd a) (pa OR perm OR 1) (mem u)\<rparr>) pd ys"
      "\<forall>va'. pte_at (store32 (pte_addr u pd a) (pa OR perm OR 1) (mem u)) pd va' =
       (if PGROUNDDOWN va' = a then pa OR perm OR 1 else pte_at (mem s) pd va')" by (auto simp: Suc.prems(5))
  define t where "t = u\<lparr>mem := store32 (pte_addr u pd a) (pa OR perm OR 1) (mem u)\<rparr>"
  have "end_a \<noteq> a" unfolding Suc.prems(6) by (rule page_steps_inj) (use Suc.prems(3,4) in simp_all)
  then have ne: "a \<noteq> end_a" by (rule not_sym)
  have al: "PGROUNDDOWN (a + 0x1000) = a + 0x1000" by (rule aligned_add [OF Suc.prems(5)])
  have np: "pte_at (mem t) pd (a + 0x1000 + of_nat i * 0x1000) AND 1 = 0" if "i \<le> n" for i
  proof -
    have "a + 0x1000 + of_nat i * 0x1000 = a + of_nat (Suc i) * 0x1000" by (simp add: algebra_simps)
    moreover have "a + of_nat (Suc i) * 0x1000 \<noteq> a"
      using page_steps_inj [of "Suc i" a] that Suc.prems(3,4) by simp
    ultimately show ?thesis
      using u(7) [rule_format, of "a + of_nat (Suc i) * 0x1000"] aligned_steps [OF Suc.prems(5), of "Suc i"]
        Suc.prems(7) [of "Suc i"] that by (simp add: t_def add.assoc del: of_nat_Suc)
  qed
  have ih: "vm_ok t pd ys" "n < length ys" "n < k'" "k' \<le> 2 ^ 20"
    using u(4,6) Suc.prems(2-4) k by (simp_all add: t_def)
  have "end_a = a + 0x1000 + of_nat n * 0x1000" using Suc.prems(6) by (simp add: algebra_simps)
  from Suc.IH [OF ih al this np, of "pa + 0x1000"] obtain r zs where
    r: "mappages_loop k' pd (a + 0x1000) end_a (pa + 0x1000) perm t = Done 0 r" "vm_ok r pd zs" "kend r = kend t"
     "length ys \<le> length zs + Suc n" "maps_range (mem t) (mem r) pd (a + 0x1000) (pa + 0x1000) perm (Suc n)"
    by blast
  have "mappages_loop k pd a end_a pa perm s = Done 0 r"
    using u(1-3) r(1) ne by (simp add: k exec_simps t_def)
  moreover have "maps_range (mem s) (mem r) pd a pa perm (Suc (Suc n))"
    using maps_range_Suc [OF _ r(5), of "mem s"] u(7) Suc.prems(3,4) by (simp add: t_def)
  moreover have "kend r = kend s" "length xs \<le> length zs + Suc (Suc n)" using r(3,4) u(4,5) by (simp_all add: t_def)
  ultimately show ?case using r(2) by blast
qed

definition range_pages :: "ptr \<Rightarrow> 32 word \<Rightarrow> nat" where
  "range_pages va n = Suc ((unat (PGROUNDDOWN (va + n - 1)) - unat (PGROUNDDOWN va)) div 4096)"

lemma range_pages_end:
  assumes "va \<le> va + n - 1"
  shows "PGROUNDDOWN (va + n - 1) = PGROUNDDOWN va + of_nat (range_pages va n - 1) * 0x1000"
    "range_pages va n \<le> 2 ^ 20"
proof -
  let ?a = "PGROUNDDOWN va" and ?l = "PGROUNDDOWN (va + n - 1)" and ?k = "range_pages va n - 1"
  have le: "unat ?a \<le> unat ?l" using assms by (simp add: unat_PGROUNDDOWN word_le_nat_alt div_le_mono)
  have l: "unat ?l < 2 ^ 32" by (rule order_less_le_trans [OF unsigned_less]) simp
  have k: "?k * 4096 = unat ?l - unat ?a" by (simp add: range_pages_def unat_PGROUNDDOWN diff_mult_distrib [symmetric])
  then have b: "?k * 4096 < 2 ^ 32" using l by simp
  then show "range_pages va n \<le> 2 ^ 20" by simp
  have "unat (of_nat ?k * 0x1000 :: 32 word) = ?k * 4096" using b by (simp add: unat_word_ariths unat_of_nat)
  then have "unat (?a + of_nat ?k * 0x1000) = unat ?l"
    using k le l by (simp add: unat_word_ariths)
  then show "?l = ?a + of_nat ?k * 0x1000" by (simp add: word_unat_eq_iff)
qed

text \<open>Mapping a range of pages that are not yet mapped, with enough free pages for new tables.\<close>

lemma mappages_exec:
  assumes "vm_ok s pd xs" "va \<le> va + n - 1" "range_pages va n \<le> length xs"
    "\<forall>i < range_pages va n. pte_at (mem s) pd (PGROUNDDOWN va + of_nat i * PGSIZE) AND PTE_P = 0"
  shows "\<exists>t ys. mappages pd va n pa perm s = Done 0 t \<and> vm_ok t pd ys \<and> kend t = kend s \<and>
    length xs \<le> length ys + range_pages va n \<and>
    maps_range (mem s) (mem t) pd (PGROUNDDOWN va) pa perm (range_pages va n)"
proof -
  obtain k where k: "range_pages va n = Suc k" by (simp add: range_pages_def)
  from mappages_loop_exec [OF assms(1), of k "2 ^ 20" "PGROUNDDOWN va" "PGROUNDDOWN (va + n - 1)" pa perm]
    range_pages_end [OF assms(2)] assms(3,4)
  show ?thesis unfolding mappages_def k by (simp add: less_Suc_eq_le)
qed

text \<open>A page that is mapped already stops the kernel, whatever else happens.\<close>

lemma mappages_remap:
  assumes "pt_ok e (mem s) pd" "pte_at (mem s) pd va AND PTE_P \<noteq> 0"
  shows "mappages pd va n pa perm s = Fail (Panic ''remap'')"
proof -
  have page: "PDX (PGROUNDDOWN va) = PDX va" "PTX (PGROUNDDOWN va) = PTX va"
    using same_page [of "PGROUNDDOWN va" va] by auto
  have t: "has_tab (mem s) pd (PDX va)" using assms(2) by (auto simp: pte_at_def split: if_splits)
  have "pte_addr s pd va \<noteq> 0"
    using slot_nonnull [OF pt_okD(2) [OF assms(1) PDX_PTX_less(1) t] PDX_PTX_less(2)] by (simp add: pte_addr_def)
  moreover obtain f where f: "(2 :: nat) ^ 20 = Suc f" using not0_implies_Suc [of "2 ^ 20"] by auto
  ultimately show ?thesis
    using assms(2) page t walkpgdir_present [of s pd "PGROUNDDOWN va" True]
    unfolding mappages_def f by (simp add: exec_simps pte_at_def pte_addr_def)
qed

section \<open>Reading the tables\<close>

text \<open>The translation that the hardware makes of a user address: the byte it names, if any.\<close>

definition translate :: "bytes \<Rightarrow> ptr \<Rightarrow> 32 word \<Rightarrow> ptr option" where
  "translate m pd va =
     (let e = pte_at m pd va in
      if e AND PTE_P = 0 \<or> e AND PTE_U = 0 then None
      else Some (P2V (PTE_ADDR e) + (va - PGROUNDDOWN va)))"

lemma uva2ka_exec:
  assumes "pt_ok e (mem s) pd" "has_tab (mem s) pd (PDX va)"
  shows "uva2ka pd va s = Done (case translate (mem s) pd (PGROUNDDOWN va) of None \<Rightarrow> 0 | Some p \<Rightarrow> p) s"
proof -
  have "PDX (PGROUNDDOWN va) = PDX va" "PTX (PGROUNDDOWN va) = PTX va"
    using same_page [of "PGROUNDDOWN va" va] by auto
  moreover have "pte_addr s pd va \<noteq> 0"
    using slot_nonnull [OF pt_okD(2) [OF assms(1) PDX_PTX_less(1) assms(2)] PDX_PTX_less(2)] by (simp add: pte_addr_def)
  ultimately show ?thesis
    using assms(2) walkpgdir_present [OF assms(2), of False]
    by (simp add: uva2ka_def exec_simps translate_def pte_at_def pte_addr_def Let_def)
qed

lemma uva2ka_no_table: "\<not> has_tab (mem s) pd (PDX va) \<Longrightarrow> uva2ka pd va s = Fail Bad_Access"
  by (simp add: uva2ka_def walkpgdir_absent exec_simps)

section \<open>Translation through a mapped entry\<close>

lemma aligned_iff: "PGROUNDDOWN a = a \<longleftrightarrow> unat a mod 4096 = 0"
proof -
  have "PGROUNDDOWN a = a \<longleftrightarrow> unat a div 4096 * 4096 = unat a" by (simp add: word_unat_eq_iff unat_PGROUNDDOWN)
  then show ?thesis by (metis dvd_div_mult_self dvd_eq_mod_eq_0 dvd_triv_right)
qed

lemma flags_or_P:
  assumes "f < 0x1000"
  shows "f OR 1 < (0x1000 :: 32 word)"
proof -
  have "unat f < 2 ^ 12" using assms by (simp add: word_less_nat_alt)
  then have "take_bit 12 f = f" by (simp add: word_unat_eq_iff unsigned_take_bit_eq take_bit_nat_eq_self)
  then have "take_bit 12 (f OR 1) = f OR 1" by simp
  then have "unat (f OR 1) = take_bit 12 (unat (f OR 1))" by (metis unsigned_take_bit_eq)
  then have "unat (f OR 1) < 2 ^ 12" by (metis take_bit_nat_less_exp)
  then show ?thesis by (simp add: word_less_nat_alt)
qed

lemma mapped_entry_translates:
  assumes "unat pa mod 4096 = 0" "perm < 0x1000" "perm AND PTE_U \<noteq> 0" "pte_at m pd v = mapped_entry pa perm i"
  shows "translate m pd v = Some (P2V (pa + of_nat i * PGSIZE) + (v - PGROUNDDOWN v))"
proof -
  have "unat (pa + of_nat i * PGSIZE) mod 4096 = 0" using assms(1) aligned_steps [of pa i] by (simp add: aligned_iff)
  moreover have "perm OR 1 < 0x1000" using assms(2) by (rule flags_or_P)
  ultimately have "PTE_ADDR ((pa + of_nat i * PGSIZE) OR (perm OR 1)) = pa + of_nat i * PGSIZE" by (rule PTE_ADDR_or)
  moreover have "((pa + of_nat i * PGSIZE) OR (perm OR 1)) AND 4 \<noteq> 0"
    using assms(3) unfolding pte_flag_bits by (simp add: bit_or_iff)
  ultimately show ?thesis using assms(4) by (simp add: translate_def mapped_entry_def or.assoc Let_def)
qed

end
