(* ===== verification/Ksys.thy ===== *)
theory Ksys
  imports Vm
begin

text \<open>
  The data of the file system, the pipes, the semaphores, the disk driver and the console, from
  \<open>kernel/lock\<close>, \<open>kernel/fs\<close>, \<open>kernel/dev\<close> and \<open>kernel/drivers\<close>, as the record \<open>system\<close> that extends \<open>memory\<close>
  by the two fields \<open>fsys\<close> and \<open>con\<close>.
\<close>

section \<open>Sleep locks, semaphores and pipes\<close>

text \<open>
  A sleep lock is named by the spinlock inside it. A semaphore has an index; the lock it points
  to is \<open>SemLock\<close> of that index. A pipe lives in a page of its own and is named by the address
  of the page.
\<close>

record sleeplock =
  sl_locked :: bool
  sl_pid :: int

record semaphore =
  sem_value :: int
  sem_waiting :: int
  sem_holding :: int
  holder_pids :: "int list"

record pipe =
  p_data :: "nat \<Rightarrow> 8 word"
  nread :: "32 word"
  nwrite :: "32 word"
  readopen :: bool
  writeopen :: bool

section \<open>Buffers, inodes and files\<close>

text \<open>
  The data of a block are addressed from 0. The flags of a buffer are kept bit by bit; the
  entry number \<open>NBUF\<close> of the cache is the head of the list. The superblocks, inode caches and
  disk queues are indexed by device: \<open>sb2\<close> and \<open>icache2\<close> belong to device 2, \<open>sb\<close> and \<open>icache\<close> to
  every other one.
\<close>

abbreviation (input) BSIZE :: "32 word" where "BSIZE \<equiv> 512"
abbreviation (input) NBUF :: nat where "NBUF \<equiv> 30"
abbreviation (input) LOGSIZE :: int where "LOGSIZE \<equiv> 30"
abbreviation (input) MAXOPBLOCKS :: int where "MAXOPBLOCKS \<equiv> 10"
abbreviation (input) NINODE :: nat where "NINODE \<equiv> 50"
abbreviation (input) NFILE :: nat where "NFILE \<equiv> 100"
abbreviation (input) NDEV :: nat where "NDEV \<equiv> 10"
abbreviation (input) FSSIZE :: "32 word" where "FSSIZE \<equiv> 1000"
abbreviation (input) NDIRECT :: nat where "NDIRECT \<equiv> 12"
abbreviation (input) NINDIRECT :: nat where "NINDIRECT \<equiv> 128"
abbreviation (input) DIRSIZ :: nat where "DIRSIZ \<equiv> 14"
abbreviation (input) ROOTINO :: "32 word" where "ROOTINO \<equiv> 1"
abbreviation (input) T_DIR :: "16 word" where "T_DIR \<equiv> 1"
abbreviation (input) T_FILE :: "16 word" where "T_FILE \<equiv> 2"
abbreviation (input) T_DEV :: "16 word" where "T_DEV \<equiv> 3"

record buf =
  b_valid :: bool
  b_dirty :: bool
  b_dev :: "32 word"
  b_blockno :: "32 word"
  b_refcnt :: "32 word"
  b_prev :: nat
  b_next :: nat
  b_qnext :: "nat option"
  b_data :: bytes

record superblock =
  sb_size :: "32 word"
  sb_nblocks :: "32 word"
  sb_ninodes :: "32 word"
  sb_nlog :: "32 word"
  sb_logstart :: "32 word"
  sb_inodestart :: "32 word"
  sb_bmapstart :: "32 word"

record inode =
  i_dev :: "32 word"
  i_inum :: "32 word"
  i_ref :: int
  i_valid :: bool
  i_type :: "16 word"
  i_major :: "16 word"
  i_minor :: "16 word"
  i_nlink :: "16 word"
  i_size :: "32 word"
  is_mount_point :: bool
  i_addrs :: "nat \<Rightarrow> 32 word"

datatype fdtype = FD_NONE | FD_PIPE | FD_INODE | FD_FIFO

type_synonym inode_id = "nat \<times> nat"

record kfile =
  f_type :: fdtype
  f_ref :: int
  f_readable :: bool
  f_writable :: bool
  f_pipe :: ptr
  f_ip :: "inode_id option"
  f_off :: "32 word"

record logheader =
  lh_n :: int
  lh_block :: "nat \<Rightarrow> 32 word"

record logstate =
  l_start :: "32 word"
  l_size :: int
  l_outstanding :: int
  l_committing :: bool
  l_dev :: "32 word"
  l_lh :: logheader

section \<open>The state\<close>

text \<open>An access to the I/O ports: one byte, or the words of a block.\<close>

datatype port_event = Outb "32 word" "8 word" | Outsl "32 word" bytes

text \<open>
  \<open>mount_locked\<close> is the flag of the non-blocking lock \<open>mountlock\<close>. \<open>disk\<close> is what the blocks of the
  disks hold; no code changes it, only the controllers do. \<open>ports\<close> records what the disk
  driver wrote to the I/O ports, latest first, \<open>disk_presence\<close> is the driver's mask of disks, \<open>startup\<close> its mask
  of the disks that were selected once, and \<open>first_run\<close> the static variable of \<open>forkret\<close>.
\<close>

record fsystem =
  slocks :: "lockid \<Rightarrow> sleeplock"
  sems :: "nat \<Rightarrow> semaphore"
  pipes :: "ptr \<Rightarrow> pipe"
  bufs :: "nat \<Rightarrow> buf"
  disk :: "32 word \<Rightarrow> 32 word \<Rightarrow> bytes"
  idequeue :: "32 word \<Rightarrow> nat option"
  ports :: "port_event list"
  disk_presence :: "8 word"
  startup :: "8 word"
  lg :: logstate
  sbs :: "32 word \<Rightarrow> superblock"
  icache :: "nat \<Rightarrow> nat \<Rightarrow> inode"
  ftable :: "nat \<Rightarrow> kfile"
  mount_locked :: bool
  mount_point :: "inode_id option"
  mount_root :: "inode_id option"
  first_run :: bool

text \<open>
  The console: the ring buffer of the line editor, the screen with the cursor position that the
  display controller keeps, whether there is a serial port with the characters sent to it, latest
  first, and the modifier keys that the keyboard driver keeps.
\<close>

record console =
  cons_locking :: bool
  passwd_mode :: bool
  in_buf :: "nat \<Rightarrow> 8 word"
  in_r :: "32 word"
  in_w :: "32 word"
  in_e :: "32 word"
  crt :: "nat \<Rightarrow> 16 word"
  crt_pos :: int
  uart :: bool
  uart_out :: "32 word list"
  kbd_shift :: "32 word"

record system = memory +
  fsys :: fsystem
  con :: console

definition upd_fs :: "(fsystem \<Rightarrow> fsystem) \<Rightarrow> ('a system_scheme, unit) kmon" where
  "upd_fs f = modify (\<lambda>s. s\<lparr>fsys := f (fsys s)\<rparr>)"

definition gets_fs :: "(fsystem \<Rightarrow> 'b) \<Rightarrow> ('a system_scheme, 'b) kmon" where
  "gets_fs f = gets (\<lambda>s. f (fsys s))"

text \<open>
  What the routines of the file system are given: the behaviour of the rest of the system while
  a process is switched out, the disk driver \<open>iderw\<close> (buffer and device) and the functions of
  the device table \<open>devsw\<close>, by major number. The disk controllers answer a read of a port, and of
  the data of a block, as a function of the contents of the disks and of what was written to the ports before. \<open>elf_var\<close> and \<open>ph_var\<close>
  are the addresses of the local variables \<open>elf\<close> and \<open>ph\<close> of \<open>exec\<close> on the kernel stack, and \<open>proc_addr\<close> those of the
  slots of the process table.
\<close>

record 's kparams =
  env :: "'s environment"
  disk_rw :: "nat \<Rightarrow> 32 word \<Rightarrow> ('s, unit) kmon"
  dev_read :: "nat \<Rightarrow> (inode_id \<Rightarrow> ptr \<Rightarrow> int \<Rightarrow> ('s, int) kmon) option"
  dev_write :: "nat \<Rightarrow> (inode_id \<Rightarrow> ptr \<Rightarrow> int \<Rightarrow> ('s, int) kmon) option"
  port_in :: "port_event list \<Rightarrow> 32 word \<Rightarrow> 8 word"
  port_data :: "(32 word \<Rightarrow> 32 word \<Rightarrow> bytes) \<Rightarrow> port_event list \<Rightarrow> 32 word \<Rightarrow> bytes"
  elf_var :: ptr
  ph_var :: ptr
  proc_addr :: "nat \<Rightarrow> ptr"

section \<open>Frame\<close>

lemma fs_access_exec [exec_simps]:
  "upd_fs f s = Done () (s\<lparr>fsys := f (fsys s)\<rparr>)" "gets_fs g s = Done (g (fsys s)) s"
  by (simp_all add: upd_fs_def gets_fs_def exec_simps)

lemma cli_fsys [simp]:
  "fsys (cli_enter s) = fsys s" "fsys (cli_leave s) = fsys s" "fsys (cli_touch s) = fsys s"
  "fsys (set_cur k s) = fsys s"
  "con (cli_enter s) = con s" "con (cli_leave s) = con s" "con (cli_touch s) = con s"
  "con (set_cur k s) = con s"
  by (simp_all add: cli_defs set_cur_def)

lemma machine_fsys [simp]:
  "this_cpu (s\<lparr>fsys := f\<rparr>) = this_cpu s" "cur (s\<lparr>fsys := f\<rparr>) = cur s" "cpu_ok (s\<lparr>fsys := f\<rparr>) = cpu_ok s"
  "this_cpu (s\<lparr>con := c\<rparr>) = this_cpu s" "cur (s\<lparr>con := c\<rparr>) = cur s" "cpu_ok (s\<lparr>con := c\<rparr>) = cpu_ok s"
  by (simp_all add: this_cpu_def cur_def cpu_ok_def)

lemma cli_fsys_upd [simp]:
  "cli_enter (s\<lparr>fsys := f\<rparr>) = (cli_enter s)\<lparr>fsys := f\<rparr>"
  "cli_leave (s\<lparr>fsys := f\<rparr>) = (cli_leave s)\<lparr>fsys := f\<rparr>"
  "cli_touch (s\<lparr>fsys := f\<rparr>) = (cli_touch s)\<lparr>fsys := f\<rparr>"
  "set_cur k (s\<lparr>fsys := f\<rparr>) = (set_cur k s)\<lparr>fsys := f\<rparr>"
  "cli_enter (s\<lparr>con := c\<rparr>) = (cli_enter s)\<lparr>con := c\<rparr>"
  "cli_leave (s\<lparr>con := c\<rparr>) = (cli_leave s)\<lparr>con := c\<rparr>"
  "cli_touch (s\<lparr>con := c\<rparr>) = (cli_touch s)\<lparr>con := c\<rparr>"
  "set_cur k (s\<lparr>con := c\<rparr>) = (set_cur k s)\<lparr>con := c\<rparr>"
  by (simp_all add: cli_defs set_cur_def this_cpu_def cur_def)

end
