(* ===== verification/Calm.thy ===== *)
theory Calm
  imports Ksys
begin

text \<open>
  The states in which a system call of a single process runs undisturbed, and what the lock,
  wakeup and memory routines do in them. The file system, pipe and console proofs run their
  routines from such states.
\<close>

section \<open>Calm states\<close>

text \<open>
  A process runs in the kernel on its CPU: it is first in the run queue, it holds no spinlock and
  no other CPU does, and nobody is asleep or still has a wait channel.
\<close>

definition calm :: "'a system_scheme \<Rightarrow> bool" where
  "calm s \<longleftrightarrow> (\<exists>p rest R. on_cpu p rest R s \<and> R SleepQ = []) \<and> ncli (cur s) = 0
     \<and> intena (cur s) = if_flag s \<and> locks s = (\<lambda>_. free_lock) \<and> (\<forall>x. chan (ptable s x) = None)"

definition me :: "'a system_scheme \<Rightarrow> nat" where
  "me s = the (cproc (cur s))"

abbreviation my_pid :: "'a system_scheme \<Rightarrow> int" where
  "my_pid s \<equiv> pid (ptable s (me s))"

definition inside :: "lockid \<Rightarrow> 'a machine_scheme \<Rightarrow> 'a machine_scheme" where
  "inside l s = (cli_enter s)\<lparr>locks := (locks s)(l := held_by (this_cpu s))\<rparr>"

lemma calmD:
  assumes "calm s"
  shows "cpu_ok s" "locks s l = free_lock" "cproc (cur s) = Some (me s)" "ncli (cur s) = 0" "locks s = (\<lambda>_. free_lock)"
  using assms by (auto simp: calm_def on_cpu_def me_def)

lemma cpus_same [simp]: "cpus s = C \<Longrightarrow> s\<lparr>cpus := C\<rparr> = s"
  by (cases s) simp

lemma calm_touch [simp]:
  assumes "calm s"
  shows "cli_touch s = s"
proof -
  have "cpu_touch (if_flag s) (cur s) = cur s" using assms by (cases "cur s") (simp add: calm_def cpu_touch_def)
  then show ?thesis by (simp add: cli_touch_def)
qed

lemma inside_fields [simp]:
  "fsys (inside l s) = fsys s" "con (inside l s) = con s" "mem (inside l s) = mem s" "ptable (inside l s) = ptable s"
  "queues (inside l s) = queues s" "switches (inside l s) = switches s" "this_cpu (inside l s) = this_cpu s"
  "freelist (inside l s) = freelist s" "kend (inside l s) = kend s"
  by (simp_all add: inside_def)

lemma inside_upd [simp]:
  "(inside l s)\<lparr>fsys := f\<rparr> = inside l (s\<lparr>fsys := f\<rparr>)"
  "(inside l s)\<lparr>con := k\<rparr> = inside l (s\<lparr>con := k\<rparr>)"
  "(inside l s)\<lparr>mem := m\<rparr> = inside l (s\<lparr>mem := m\<rparr>)"
  by (simp_all add: inside_def)

lemma on_cpu_upd [simp]:
  "on_cpu p rest R (s\<lparr>fsys := f\<rparr>) = on_cpu p rest R s" "on_cpu p rest R (s\<lparr>con := k\<rparr>) = on_cpu p rest R s"
  "on_cpu p rest R (s\<lparr>mem := m\<rparr>) = on_cpu p rest R s"
  by (simp_all add: on_cpu_def qinv_def)

lemma calm_upd [simp]:
  "calm (s\<lparr>fsys := f\<rparr>) = calm s" "calm (s\<lparr>con := k\<rparr>) = calm s" "calm (s\<lparr>mem := m\<rparr>) = calm s"
  by (simp_all add: calm_def)

lemma me_upd [simp]:
  "me (s\<lparr>fsys := f\<rparr>) = me s" "me (s\<lparr>con := k\<rparr>) = me s" "me (s\<lparr>mem := m\<rparr>) = me s"
  by (simp_all add: me_def)

lemma calm_acquire [exec_simps]: "calm s \<Longrightarrow> acquire l s = Done () (inside l s)"
  by (simp add: acquire_exec calmD inside_def)

lemma calm_release [exec_simps]:
  assumes "calm s"
  shows "release l (inside l s) = Done () s"
proof -
  have "(locks s)(l := free_lock) = locks s" using calmD(5) [OF assms] by auto
  then show ?thesis using assms calmD [OF assms] by (simp add: inside_def release_exec)
qed

lemma calm_myproc [exec_simps]:
  "calm s \<Longrightarrow> myproc s = Done (Some (me s)) s"
  "calm s \<Longrightarrow> myproc (inside l s) = Done (Some (me s)) (inside l s)"
  using calmD [of s] by (simp_all add: inside_def myproc_exec)

lemma calm_wakeup [exec_simps]:
  assumes "calm s" "l \<noteq> PtableLock"
  shows "wakeup ch (inside l s) = Done () (inside l s)"
proof -
  let ?s = "inside l s"
  have ok: "cpu_ok ?s" "ncli (cur ?s) = 1" "locks ?s PtableLock = free_lock" "this_cpu ?s = this_cpu s"
    using calmD [OF assms(1)] assms(2) by (simp_all add: inside_def)
  obtain R where R: "qinv s R" "R SleepQ = []" using assms(1) by (auto simp: calm_def on_cpu_def)
  let ?u = "(cli_enter ?s)\<lparr>locks := (locks ?s)(PtableLock := held_by (this_cpu s))\<rparr>"
  have "qinv ?u R" using R(1) by (simp add: qinv_def)
  then have w: "wakeup1 ch ?u = Done () ?u" using R(2) by (intro wakeup1_none) auto
  have "(locks ?s)(PtableLock := free_lock) = locks ?s" using ok(3) by (intro ext) simp
  then show ?thesis using ok w by (simp add: wakeup_def exec_simps)
qed

lemma calm_wakeup_free [exec_simps]:
  assumes "calm s"
  shows "wakeup ch s = Done () s"
proof -
  obtain R where R: "qinv s R" "R SleepQ = []" using assms(1) by (auto simp: calm_def on_cpu_def)
  then have "wakeup1 ch (inside PtableLock s) = Done () (inside PtableLock s)"
    by (intro wakeup1_none) (auto simp: inside_def qinv_def)
  then show ?thesis using assms by (simp add: wakeup_def exec_simps)
qed

section \<open>User memory\<close>

lemma vaddr_calm [simp]:
  "calm s \<Longrightarrow> vaddr (inside l s) a = vaddr s a" "vaddr (s\<lparr>fsys := f\<rparr>) a = vaddr s a"
  using calmD [of s] by (simp_all add: vaddr_def inside_def cur_cli)

lemma get_byte_calm:
  "calm s \<Longrightarrow> get_byte a s = Done x s \<Longrightarrow> get_byte a (inside l s) = Done x (inside l s)"
  by (auto simp: get_byte_def exec_simps deref_def split: option.splits)

lemma put_byte_calm:
  "calm s \<Longrightarrow> put_byte a x s = Done () t \<Longrightarrow> put_byte a x (inside l s) = Done () (inside l t) \<and> (\<exists>m. t = s\<lparr>mem := m\<rparr>)"
  by (auto simp: put_byte_def upd_mem_def exec_simps deref_def split: option.splits)

lemma get_byte_state: "get_byte a s = Done x t \<Longrightarrow> t = s"
  by (auto simp: get_byte_def exec_simps deref_def split: option.splits)

lemma copy_in_Suc:
  assumes "copy_in (Suc n) a s = Done xs t"
  obtains y ys where "xs = y # ys" "get_byte a s = Done y s" "copy_in n (a + 1) s = Done ys t"
  using assms by (auto simp: exec_simps dest: get_byte_state split: outcome.splits)

lemma copy_in_length: "copy_in n a s = Done xs t \<Longrightarrow> length xs = n"
  by (induction n arbitrary: a xs s) (auto simp: exec_simps split: outcome.splits)

end
