(* ===== verification/Klock.thy ===== *)
theory Klock
  imports Calm
begin

text \<open>
  The locks that a process may hold while it sleeps: \<open>kernel/lock/sleeplock.c\<close>,
  \<open>kernel/lock/nonblockinglock.c\<close> and \<open>kernel/lock/semaphore.c\<close>.
\<close>

section \<open>Sleep locks\<close>

definition upd_slock :: "lockid \<Rightarrow> (sleeplock \<Rightarrow> sleeplock) \<Rightarrow> ('a system_scheme, unit) kmon" where
  "upd_slock l f = upd_fs (\<lambda>x. x\<lparr>slocks := (slocks x)(l := f (slocks x l))\<rparr>)"

definition initsleeplock :: "lockid \<Rightarrow> ('a system_scheme, unit) kmon" where
  "initsleeplock l = seqs [
     initlock l,
     upd_slock l (\<lambda>x. x\<lparr>sl_locked := False\<rparr>),
     upd_slock l (\<lambda>x. x\<lparr>sl_pid := 0\<rparr>)]"

text \<open>The loop of \<open>acquiresleep\<close>, which sleeps at most \<open>n\<close> times.\<close>

primrec sleep_while_locked :: "nat \<Rightarrow> 'a system_scheme environment \<Rightarrow> lockid \<Rightarrow> ('a system_scheme, unit) kmon" where
  "sleep_while_locked 0 e l = fail Diverge"
| "sleep_while_locked (Suc n) e l =
     bind (gets_fs (\<lambda>x. sl_locked (slocks x l))) (\<lambda>busy.
     if busy then bind (sleep e (Some (ChSleep l)) (Some l)) (\<lambda>_. sleep_while_locked n e l)
     else return ())"

text \<open>
  Every round of the loop but the last uses one of the context switches after which the caller
  runs again, so \<open>Suc (switches s)\<close> rounds are enough: the fuel is never used up.
\<close>

definition acquiresleep :: "'a system_scheme environment \<Rightarrow> lockid \<Rightarrow> ('a system_scheme, unit) kmon" where
  "acquiresleep e l =
     bind (acquire l) (\<lambda>_.
     bind (gets switches) (\<lambda>k.
     bind (sleep_while_locked (Suc k) e l) (\<lambda>_.
     bind (upd_slock l (\<lambda>x. x\<lparr>sl_locked := True\<rparr>)) (\<lambda>_.
     bind myproc (\<lambda>mp. deref mp (\<lambda>p.
     bind (proc_at p) (\<lambda>pp.
     bind (upd_slock l (\<lambda>x. x\<lparr>sl_pid := pid pp\<rparr>)) (\<lambda>_.
     release l))))))))"

definition releasesleep :: "lockid \<Rightarrow> ('a system_scheme, unit) kmon" where
  "releasesleep l = seqs [
     acquire l,
     upd_slock l (\<lambda>x. x\<lparr>sl_locked := False\<rparr>),
     upd_slock l (\<lambda>x. x\<lparr>sl_pid := 0\<rparr>),
     wakeup (Some (ChSleep l)),
     release l]"

definition holdingsleep :: "lockid \<Rightarrow> ('a system_scheme, bool) kmon" where
  "holdingsleep l =
     bind (acquire l) (\<lambda>_.
     bind (gets_fs (\<lambda>x. slocks x l)) (\<lambda>k.
     bind (if sl_locked k then bind myproc (\<lambda>mp. deref mp (\<lambda>p.
             bind (proc_at p) (\<lambda>pp. return (sl_pid k = pid pp))))
           else return False) (\<lambda>r.
     bind (release l) (\<lambda>_.
     return r))))"

section \<open>The non-blocking lock\<close>

text \<open>There is one such lock, \<open>mountlock\<close> of \<open>kernel/fs/mount.c\<close>.\<close>

definition initnonblockinglock :: "('a system_scheme, unit) kmon" where
  "initnonblockinglock = seqs [initlock MountLock, upd_fs (\<lambda>x. x\<lparr>mount_locked := False\<rparr>)]"

definition acquirenonblockinglock :: "('a system_scheme, bool) kmon" where
  "acquirenonblockinglock =
     bind (acquire MountLock) (\<lambda>_.
     bind (gets_fs mount_locked) (\<lambda>busy.
     if busy then bind (release MountLock) (\<lambda>_. return False)
     else bind (upd_fs (\<lambda>x. x\<lparr>mount_locked := True\<rparr>)) (\<lambda>_.
     bind (release MountLock) (\<lambda>_. return True))))"

definition releasenonblocking :: "('a system_scheme, unit) kmon" where
  "releasenonblocking = seqs [
     acquire MountLock,
     upd_fs (\<lambda>x. x\<lparr>mount_locked := False\<rparr>),
     release MountLock]"

section \<open>Semaphores\<close>

abbreviation (input) MAX_HOLDERS :: nat where "MAX_HOLDERS \<equiv> 10"
abbreviation (input) MAX_SEM_VAL :: int where "MAX_SEM_VAL \<equiv> 16"
abbreviation (input) EINVL :: int where "EINVL \<equiv> 1"
abbreviation (input) ECANTINSERT :: int where "ECANTINSERT \<equiv> 2"

definition upd_sem :: "nat \<Rightarrow> (semaphore \<Rightarrow> semaphore) \<Rightarrow> ('a system_scheme, unit) kmon" where
  "upd_sem i f = upd_fs (\<lambda>x. x\<lparr>sems := (sems x)(i := f (sems x i))\<rparr>)"

text \<open>Replace the first entry that is \<open>old\<close>; the flag tells whether there was one.\<close>

primrec replace_first :: "int \<Rightarrow> int \<Rightarrow> int list \<Rightarrow> int list \<times> bool" where
  "replace_first old new [] = ([], False)"
| "replace_first old new (x # xs) =
     (if x = old then (new # xs, True)
      else case replace_first old new xs of (ys, b) \<Rightarrow> (x # ys, b))"

definition remove_pid :: "int \<Rightarrow> nat \<Rightarrow> ('a system_scheme, bool) kmon" where
  "remove_pid q i =
     bind (gets_fs (\<lambda>x. replace_first q 0 (holder_pids (sems x i)))) (\<lambda>r.
     bind (upd_sem i (\<lambda>m. m\<lparr>holder_pids := fst r\<rparr>)) (\<lambda>_.
     return (snd r)))"

definition insert_pid :: "int \<Rightarrow> nat \<Rightarrow> ('a system_scheme, bool) kmon" where
  "insert_pid q i =
     bind (gets_fs (\<lambda>x. replace_first 0 q (holder_pids (sems x i)))) (\<lambda>r.
     bind (upd_sem i (\<lambda>m. m\<lparr>holder_pids := fst r\<rparr>)) (\<lambda>_.
     return (snd r)))"

definition sem_inc :: "nat \<Rightarrow> ('a system_scheme, unit) kmon" where
  "sem_inc i =
     bind myproc (\<lambda>mp.
     bind (upd_sem i (\<lambda>m. m\<lparr>sem_value := sem_value m + 1\<rparr>)) (\<lambda>_.
     bind (upd_sem i (\<lambda>m. m\<lparr>sem_holding := sem_holding m - 1\<rparr>)) (\<lambda>_.
     deref mp (\<lambda>p.
     bind (proc_at p) (\<lambda>pp.
     bind (remove_pid (pid pp) i) (\<lambda>_.
     bind (gets_fs (\<lambda>x. sem_waiting (sems x i))) (\<lambda>w.
     cwhen (w > 0) (wakeup (Some (ChSem i))))))))))"

definition init_sem :: "nat \<Rightarrow> int \<Rightarrow> ('a system_scheme, int) kmon" where
  "init_sem i v =
     (if v \<le> 0 \<or> v > MAX_SEM_VAL then return (- EINVL)
      else bind (upd_sem i (\<lambda>m. \<lparr>sem_value = v, sem_waiting = 0, sem_holding = 0,
             holder_pids = replicate MAX_HOLDERS 0\<rparr>)) (\<lambda>_.
      return 1))"

definition sem_dec :: "'a system_scheme environment \<Rightarrow> nat \<Rightarrow> ('a system_scheme, int) kmon" where
  "sem_dec e i =
     bind myproc (\<lambda>mp.
     bind (acquire (SemLock i)) (\<lambda>_.
     bind (gets_fs (\<lambda>x. sem_value (sems x i))) (\<lambda>v.
     bind (cwhen (v = 0) (sleep e (Some (ChSem i)) (Some (SemLock i)))) (\<lambda>_.
     deref mp (\<lambda>p.
     bind (proc_at p) (\<lambda>pp.
     bind (insert_pid (pid pp) i) (\<lambda>ok.
     if \<not> ok then return (- ECANTINSERT)
     else bind (upd_sem i (\<lambda>m. m\<lparr>sem_value := sem_value m - 1\<rparr>)) (\<lambda>_.
     bind (upd_sem i (\<lambda>m. m\<lparr>sem_holding := sem_holding m + 1\<rparr>)) (\<lambda>_.
     bind (release (SemLock i)) (\<lambda>_.
     return 0))))))))))"

section \<open>Sleep locks of calm states\<close>

definition set_slock :: "lockid \<Rightarrow> sleeplock \<Rightarrow> 'a system_scheme \<Rightarrow> 'a system_scheme" where
  "set_slock l k s = s\<lparr>fsys := (fsys s)\<lparr>slocks := (slocks (fsys s))(l := k)\<rparr>\<rparr>"

definition slocked :: "lockid \<Rightarrow> 'a system_scheme \<Rightarrow> bool" where
  "slocked l s \<longleftrightarrow> slocks (fsys s) l = \<lparr>sl_locked = True, sl_pid = my_pid s\<rparr>"

abbreviation (input) free_slock :: sleeplock where "free_slock \<equiv> \<lparr>sl_locked = False, sl_pid = 0\<rparr>"

lemma sleeplock_eta [simp]: "(k :: sleeplock)\<lparr>sl_locked := a, sl_pid := b\<rparr> = \<lparr>sl_locked = a, sl_pid = b\<rparr>"
  by (cases k) simp

lemma acquiresleep_exec [exec_simps]:
  "\<lbrakk>calm s; \<not> sl_locked (slocks (fsys s) l)\<rbrakk>
   \<Longrightarrow> acquiresleep e l s = Done () (set_slock l \<lparr>sl_locked = True, sl_pid = my_pid s\<rparr> s)"
  by (simp add: acquiresleep_def upd_slock_def exec_simps set_slock_def)

lemma releasesleep_exec [exec_simps]:
  "\<lbrakk>calm s; l \<noteq> PtableLock\<rbrakk> \<Longrightarrow> releasesleep l s = Done () (set_slock l free_slock s)"
  by (simp add: releasesleep_def upd_slock_def exec_simps set_slock_def)

lemma holdingsleep_exec [exec_simps]:
  "calm s \<Longrightarrow> holdingsleep l s = Done (sl_locked (slocks (fsys s) l) \<and> sl_pid (slocks (fsys s) l) = my_pid s) s"
  by (simp add: holdingsleep_def exec_simps)

end
