(* ===== verification/Pipe.thy ===== *)
theory Pipe
  imports Klock
begin

text \<open>
  The pipes of \<open>kernel/ipc/pipe.c\<close>: a ring buffer of 512 bytes with two counters that wrap around.
\<close>

section \<open>Pipes\<close>

abbreviation (input) PIPESIZE :: "32 word" where "PIPESIZE \<equiv> 512"
abbreviation (input) pipe_lock :: "ptr \<Rightarrow> lockid" where "pipe_lock p \<equiv> PipeLock (unat p)"
abbreviation (input) ch_nread :: "ptr \<Rightarrow> chan option" where "ch_nread p \<equiv> Some (ChPipeRead (unat p))"
abbreviation (input) ch_nwrite :: "ptr \<Rightarrow> chan option" where "ch_nwrite p \<equiv> Some (ChPipeWrite (unat p))"

definition upd_pipe :: "ptr \<Rightarrow> (pipe \<Rightarrow> pipe) \<Rightarrow> ('a system_scheme, unit) kmon" where
  "upd_pipe p f = upd_fs (\<lambda>x. x\<lparr>pipes := (pipes x)(p := f (pipes x p))\<rparr>)"

definition pipe_at :: "ptr \<Rightarrow> ('a system_scheme, pipe) kmon" where
  "pipe_at p = gets_fs (\<lambda>x. pipes x p)"

definition pipeclose :: "ptr \<Rightarrow> bool \<Rightarrow> ('a system_scheme, unit) kmon" where
  "pipeclose p writable =
     bind (acquire (pipe_lock p)) (\<lambda>_.
     bind (if writable then seqs [upd_pipe p (\<lambda>q. q\<lparr>writeopen := False\<rparr>), wakeup (ch_nread p)]
           else seqs [upd_pipe p (\<lambda>q. q\<lparr>readopen := False\<rparr>), wakeup (ch_nwrite p)]) (\<lambda>_.
     bind (pipe_at p) (\<lambda>q.
     if \<not> readopen q \<and> \<not> writeopen q then bind (release (pipe_lock p)) (\<lambda>_. kfree p)
     else release (pipe_lock p))))"

text \<open>Wait until the pipe has room. The result is false when the writer has to give up.\<close>

primrec wait_room :: "nat \<Rightarrow> 'a system_scheme environment \<Rightarrow> ptr \<Rightarrow> ('a system_scheme, bool) kmon" where
  "wait_room 0 e p = fail Diverge"
| "wait_room (Suc k) e p =
     bind (pipe_at p) (\<lambda>q.
     if nwrite q = nread q + PIPESIZE then
       bind (if readopen q then bind myproc (\<lambda>mp. deref mp (\<lambda>i.
               bind (proc_at i) (\<lambda>pp. return (killed pp)))) else return True) (\<lambda>stop.
       if stop then bind (release (pipe_lock p)) (\<lambda>_. return False)
       else bind (wakeup (ch_nread p)) (\<lambda>_.
       bind (sleep e (ch_nwrite p) (Some (pipe_lock p))) (\<lambda>_.
       wait_room k e p)))
     else return True)"

text \<open>The loops over the bytes of a transfer, with \<open>n\<close> bytes to go from \<open>addr\<close>.\<close>

primrec pipewrite_loop :: "nat \<Rightarrow> 'a system_scheme environment \<Rightarrow> ptr \<Rightarrow> ptr \<Rightarrow> ('a system_scheme, bool) kmon" where
  "pipewrite_loop 0 e p addr = return True"
| "pipewrite_loop (Suc n) e p addr =
     bind (gets switches) (\<lambda>k.
     bind (wait_room (Suc k) e p) (\<lambda>ok.
     if \<not> ok then return False
     else bind (get_byte addr) (\<lambda>x.
     bind (upd_pipe p (\<lambda>q. q\<lparr>p_data := (p_data q)(unat (nwrite q mod PIPESIZE) := x),
                             nwrite := nwrite q + 1\<rparr>)) (\<lambda>_.
     pipewrite_loop n e p (addr + 1)))))"

definition pipewrite :: "'a system_scheme environment \<Rightarrow> ptr \<Rightarrow> ptr \<Rightarrow> int \<Rightarrow> ('a system_scheme, int) kmon" where
  "pipewrite e p addr n =
     bind (acquire (pipe_lock p)) (\<lambda>_.
     bind (pipewrite_loop (nat n) e p addr) (\<lambda>ok.
     if \<not> ok then return (- 1)
     else bind (wakeup (ch_nread p)) (\<lambda>_.
     bind (release (pipe_lock p)) (\<lambda>_.
     return n))))"

primrec wait_data :: "nat \<Rightarrow> 'a system_scheme environment \<Rightarrow> ptr \<Rightarrow> ('a system_scheme, bool) kmon" where
  "wait_data 0 e p = fail Diverge"
| "wait_data (Suc k) e p =
     bind (pipe_at p) (\<lambda>q.
     if nread q = nwrite q \<and> writeopen q then
       bind myproc (\<lambda>mp. deref mp (\<lambda>i.
       bind (proc_at i) (\<lambda>pp.
       if killed pp then bind (release (pipe_lock p)) (\<lambda>_. return False)
       else bind (sleep e (ch_nread p) (Some (pipe_lock p))) (\<lambda>_.
       wait_data k e p))))
     else return True)"

primrec piperead_loop :: "nat \<Rightarrow> nat \<Rightarrow> ptr \<Rightarrow> ptr \<Rightarrow> ('a system_scheme, nat) kmon" where
  "piperead_loop 0 i p addr = return i"
| "piperead_loop (Suc n) i p addr =
     bind (pipe_at p) (\<lambda>q.
     if nread q = nwrite q then return i
     else bind (upd_pipe p (\<lambda>q. q\<lparr>nread := nread q + 1\<rparr>)) (\<lambda>_.
     bind (put_byte addr (p_data q (unat (nread q mod PIPESIZE)))) (\<lambda>_.
     piperead_loop n (Suc i) p (addr + 1))))"

definition piperead :: "'a system_scheme environment \<Rightarrow> ptr \<Rightarrow> ptr \<Rightarrow> int \<Rightarrow> ('a system_scheme, int) kmon" where
  "piperead e p addr n =
     bind (acquire (pipe_lock p)) (\<lambda>_.
     bind (gets switches) (\<lambda>k.
     bind (wait_data (Suc k) e p) (\<lambda>ok.
     if \<not> ok then return (- 1)
     else bind (piperead_loop (nat n) 0 p addr) (\<lambda>i.
     bind (wakeup (ch_nwrite p)) (\<lambda>_.
     bind (release (pipe_lock p)) (\<lambda>_.
     return (int i)))))))"

section \<open>Pipes as byte queues\<close>

text \<open>The bytes in a pipe, oldest first.\<close>

definition pipe_bytes :: "pipe \<Rightarrow> 8 word list" where
  "pipe_bytes q = map (\<lambda>i. p_data q (unat ((nread q + of_nat i) mod PIPESIZE))) [0..<unat (nwrite q - nread q)]"

definition pipe_ok :: "pipe \<Rightarrow> bool" where
  "pipe_ok q \<longleftrightarrow> nwrite q - nread q \<le> PIPESIZE"

definition pipe_put :: "8 word \<Rightarrow> pipe \<Rightarrow> pipe" where
  "pipe_put x q = q\<lparr>p_data := (p_data q)(unat (nwrite q mod PIPESIZE) := x), nwrite := nwrite q + 1\<rparr>"

lemma length_pipe_bytes: "length (pipe_bytes q) = unat (nwrite q - nread q)"
  by (simp add: pipe_bytes_def)

lemma unat_mod512: "unat (w mod 512 :: 32 word) = unat w mod 512"
  by (simp add: unat_mod)

lemma ring_index: "unat (r + of_nat i :: 32 word) mod 512 = (unat r + i) mod 512"
  by (simp add: unat_word_ariths unat_of_nat mod_mod_cancel mod_add_right_eq)

lemma ring_index_other:
  fixes r w :: "32 word"
  assumes "i < unat (w - r)" "w - r < 512"
  shows "(unat r + i) mod 512 \<noteq> unat w mod 512"
proof
  assume a: "(unat r + i) mod 512 = unat w mod 512"
  define d where "d = unat (w - r)"
  have d: "d < 512" "i < d" using assms by (simp_all add: d_def word_less_nat_alt)
  have "unat (r + (w - r)) = (unat r + d) mod 2 ^ 32" unfolding d_def by (subst unat_word_ariths(1)) simp
  then have "unat w mod 512 = (unat r + d) mod 512" by (simp add: mod_mod_cancel)
  with a have "(unat r + d) mod 512 = (unat r + i) mod 512" by simp
  then have "512 dvd (unat r + d) - (unat r + i)" using d by (subst (asm) mod_eq_dvd_iff_nat) auto
  then show False using d by (auto dest!: dvd_imp_le)
qed

lemma pipe_put_bytes:
  assumes "pipe_ok q" "nwrite q - nread q \<noteq> PIPESIZE"
  shows "pipe_ok (pipe_put x q)" "pipe_bytes (pipe_put x q) = pipe_bytes q @ [x]"
proof -
  let ?d = "nwrite q - nread q"
  have lt: "?d < 512" using assms by (simp add: pipe_ok_def)
  have s: "nwrite q + 1 - nread q = ?d + 1" by simp
  have u: "unat (?d + 1) = Suc (unat ?d)"
    using lt by (simp add: unat_word_ariths word_less_nat_alt)
  show "pipe_ok (pipe_put x q)" using u lt by (simp add: pipe_ok_def pipe_put_def s word_le_nat_alt word_less_nat_alt)
  have old: "p_data (pipe_put x q) (unat ((nread q + of_nat i) mod 512)) = p_data q (unat ((nread q + of_nat i) mod 512))"
    if "i < unat ?d" for i
    using ring_index_other [OF that lt] by (simp add: pipe_put_def ring_index unat_mod512)
  have new: "unat ((nread q + of_nat (unat ?d)) mod 512) = unat (nwrite q mod 512)" by simp
  show "pipe_bytes (pipe_put x q) = pipe_bytes q @ [x]"
    using old new u by (simp add: pipe_bytes_def pipe_put_def [of x q] s cong: map_cong)
qed

lemma pipe_get_bytes:
  assumes "pipe_ok q" "nread q \<noteq> nwrite q"
  shows "pipe_ok (q\<lparr>nread := nread q + 1\<rparr>)"
    "pipe_bytes q = p_data q (unat (nread q mod PIPESIZE)) # pipe_bytes (q\<lparr>nread := nread q + 1\<rparr>)"
proof -
  let ?d = "nwrite q - nread q"
  have le: "?d \<le> 512" "0 < ?d" using assms by (simp_all add: pipe_ok_def word_greater_zero_iff)
  have s: "nwrite q - (nread q + 1) = ?d - 1" by simp
  have u: "Suc (unat (?d - 1)) = unat ?d"
    using le(2) unat_gt_0 [of ?d] by (simp add: unat_minus_one word_greater_zero_iff)
  show "pipe_ok (q\<lparr>nread := nread q + 1\<rparr>)" using u le by (simp add: pipe_ok_def s word_le_nat_alt)
  have "[0..<unat ?d] = 0 # map Suc [0..<unat (?d - 1)]" unfolding u [symmetric] by (simp add: upt_conv_Cons map_Suc_upt del: upt_Suc)
  then show "pipe_bytes q = p_data q (unat (nread q mod PIPESIZE)) # pipe_bytes (q\<lparr>nread := nread q + 1\<rparr>)"
    unfolding pipe_bytes_def by (simp add: s) (simp add: ac_simps)
qed

section \<open>Transfers\<close>

definition set_pipe :: "ptr \<Rightarrow> pipe \<Rightarrow> 'a system_scheme \<Rightarrow> 'a system_scheme" where
  "set_pipe p q s = s\<lparr>fsys := (fsys s)\<lparr>pipes := (pipes (fsys s))(p := q)\<rparr>\<rparr>"

lemma set_pipe_simps [simp]:
  "calm (set_pipe p q s) = calm s" "mem (set_pipe p q s) = mem s" "pipes (fsys (set_pipe p q s)) = (pipes (fsys s))(p := q)"
  "set_pipe p q' (set_pipe p q s) = set_pipe p q' s" "set_pipe p q (s\<lparr>mem := m\<rparr>) = (set_pipe p q s)\<lparr>mem := m\<rparr>"
  "set_pipe p q (inside l s) = inside l (set_pipe p q s)" "switches (set_pipe p q s) = switches s"
  by (simp_all add: set_pipe_def)

lemma set_pipe_same [simp]: "set_pipe p (pipes (fsys s) p) s = s"
  by (simp add: set_pipe_def)

lemma pipe_exec [exec_simps]:
  "pipe_at p s = Done (pipes (fsys s) p) s" "upd_pipe p f s = Done () (set_pipe p (f (pipes (fsys s) p)) s)"
  by (simp_all add: pipe_at_def upd_pipe_def exec_simps set_pipe_def)

lemma vaddr_set_pipe [simp]: "vaddr (set_pipe p q s) a = vaddr s a"
  by (simp add: set_pipe_def)

lemma get_byte_set_pipe: "get_byte a s = Done x s \<Longrightarrow> get_byte a (set_pipe p q s) = Done x (set_pipe p q s)"
  by (auto simp: get_byte_def exec_simps deref_def split: option.splits)

lemma copy_in_set_pipe: "copy_in n a s = Done xs s \<Longrightarrow> copy_in n a (set_pipe p q s) = Done xs (set_pipe p q s)"
proof (induction n arbitrary: a xs)
  case (Suc n)
  then obtain y ys where "xs = y # ys" "get_byte a s = Done y s" "copy_in n (a + 1) s = Done ys s" by (elim copy_in_Suc)
  then show ?case using Suc.IH [of "a + 1" ys] by (simp add: exec_simps get_byte_set_pipe)
qed (simp add: exec_simps)

lemma pipewrite_loop_exec:
  "\<lbrakk>calm s; q = pipes (fsys s) p; pipe_ok q; length (pipe_bytes q) + n \<le> 512; copy_in n addr s = Done xs s\<rbrakk>
   \<Longrightarrow> \<exists>q'. pipewrite_loop n e p addr (inside l s) = Done True (inside l (set_pipe p q' s))
     \<and> pipe_ok q' \<and> pipe_bytes q' = pipe_bytes q @ xs \<and> readopen q' = readopen q \<and> writeopen q' = writeopen q"
proof (induction n arbitrary: s q addr xs)
  case 0
  then show ?case by (intro exI [of _ q]) (simp add: exec_simps)
next
  case (Suc n)
  obtain x ys where xs: "xs = x # ys" "get_byte addr s = Done x s" "copy_in n (addr + 1) s = Done ys s"
    using Suc.prems(5) by (elim copy_in_Suc)
  let ?q = "pipe_put x q"
  let ?s = "set_pipe p ?q s"
  have ne: "nwrite q - nread q \<noteq> PIPESIZE" using Suc.prems(4) by (auto simp: length_pipe_bytes)
  then have ne': "nwrite q \<noteq> nread q + PIPESIZE" by (metis add_diff_cancel_left')
  note put = pipe_put_bytes [OF Suc.prems(3) ne, of x]
  have "\<exists>q'. pipewrite_loop n e p (addr + 1) (inside l ?s) = Done True (inside l (set_pipe p q' ?s))
     \<and> pipe_ok q' \<and> pipe_bytes q' = pipe_bytes ?q @ ys \<and> readopen q' = readopen ?q \<and> writeopen q' = writeopen ?q"
    by (rule Suc.IH) (use Suc.prems put xs copy_in_set_pipe [of n "addr + 1" s] in auto)
  then obtain q' where q': "pipewrite_loop n e p (addr + 1) (inside l ?s) = Done True (inside l (set_pipe p q' s))"
    "pipe_ok q'" "pipe_bytes q' = pipe_bytes ?q @ ys" "readopen q' = readopen q" "writeopen q' = writeopen q"
    by (auto simp: pipe_put_def)
  have "pipewrite_loop (Suc n) e p addr (inside l s) = pipewrite_loop n e p (addr + 1) (inside l ?s)"
    using Suc.prems(1,2) ne' get_byte_calm [OF Suc.prems(1) xs(2)] by (simp add: exec_simps pipe_put_def)
  then show ?case using q' put xs(1) by (intro exI [of _ q']) simp
qed

lemma put_byte_set_pipe:
  "put_byte a x s = Done () t \<Longrightarrow> put_byte a x (set_pipe p q s) = Done () (set_pipe p q t) \<and> (\<exists>m. t = s\<lparr>mem := m\<rparr>)"
  by (auto simp: put_byte_def upd_mem_def exec_simps deref_def split: option.splits)

lemma copy_to_set_pipe:
  "copy_to xs a s = Done () t \<Longrightarrow> copy_to xs a (set_pipe p q s) = Done () (set_pipe p q t) \<and> (\<exists>m. t = s\<lparr>mem := m\<rparr>)"
proof (induction xs arbitrary: a s)
  case Nil
  then show ?case by (auto simp: exec_simps intro: exI [of _ "mem s"])
next
  case (Cons x xs)
  then obtain u where u: "put_byte a x s = Done () u" "copy_to xs (a + 1) u = Done () t"
    by (auto simp: exec_simps split: outcome.splits)
  from put_byte_set_pipe [OF u(1), of p q] Cons.IH [OF u(2)] show ?case by (auto simp: exec_simps)
qed

lemma piperead_loop_exec:
  "\<lbrakk>calm s; q = pipes (fsys s) p; pipe_ok q; copy_to (take n (pipe_bytes q)) addr s = Done () t\<rbrakk>
   \<Longrightarrow> \<exists>q'. piperead_loop n i p addr (inside l s) = Done (i + min n (length (pipe_bytes q))) (inside l (set_pipe p q' t))
     \<and> pipe_ok q' \<and> pipe_bytes q' = drop n (pipe_bytes q) \<and> readopen q' = readopen q \<and> writeopen q' = writeopen q"
proof (induction n arbitrary: s t q addr i)
  case 0
  then show ?case by (intro exI [of _ q]) (simp add: exec_simps)
next
  case (Suc n)
  show ?case
  proof (cases "nread q = nwrite q")
    case True
    then have "pipe_bytes q = []" by (simp add: pipe_bytes_def)
    with Suc.prems True show ?thesis by (intro exI [of _ q]) (simp add: exec_simps)
  next
    case False
    let ?q = "q\<lparr>nread := nread q + 1\<rparr>" and ?x = "p_data q (unat (nread q mod PIPESIZE))"
    note get = pipe_get_bytes [OF Suc.prems(3) False]
    obtain u where u: "put_byte addr ?x s = Done () u" "copy_to (take n (pipe_bytes ?q)) (addr + 1) u = Done () t"
      using Suc.prems(4) get(2) by (auto simp: exec_simps split: outcome.splits)
    note pu = put_byte_set_pipe [OF u(1), of p ?q]
    have b: "put_byte addr ?x (inside l (set_pipe p ?q s)) = Done () (inside l (set_pipe p ?q u))"
      using put_byte_calm [of "set_pipe p ?q s" addr ?x "set_pipe p ?q u" l] pu Suc.prems(1) by simp
    have cu: "calm (set_pipe p ?q u)" using pu Suc.prems(1) by auto
    have ct: "copy_to (take n (pipe_bytes ?q)) (addr + 1) (set_pipe p ?q u) = Done () (set_pipe p ?q t)"
      using copy_to_set_pipe [OF u(2)] by blast
    have fq: "?q = pipes (fsys (set_pipe p ?q u)) p" by simp
    from Suc.IH [OF cu fq get(1) ct, of "Suc i"] obtain q' where
      q': "piperead_loop n (Suc i) p (addr + 1) (inside l (set_pipe p ?q u))
          = Done (Suc i + min n (length (pipe_bytes ?q))) (inside l (set_pipe p q' t))"
      "pipe_ok q'" "pipe_bytes q' = drop n (pipe_bytes ?q)" "readopen q' = readopen q" "writeopen q' = writeopen q"
      by auto
    have "piperead_loop (Suc n) i p addr (inside l s) = piperead_loop n (Suc i) p (addr + 1) (inside l (set_pipe p ?q u))"
      using Suc.prems(1,2) False b by (simp add: exec_simps)
    then show ?thesis using q' get(2) by (intro exI [of _ q']) simp
  qed
qed

end
