(* ===== verification/Bcache.thy ===== *)
theory Bcache
  imports Pipe
begin

text \<open>
  The buffer cache of \<open>kernel/fs/bio.c\<close>.
\<close>

section \<open>The buffer cache\<close>

abbreviation (input) HEAD :: nat where "HEAD \<equiv> NBUF"
abbreviation (input) MAX_READA :: nat where "MAX_READA \<equiv> 4"

definition buf_at :: "nat \<Rightarrow> ('a system_scheme, buf) kmon" where
  "buf_at b = gets_fs (\<lambda>x. bufs x b)"

definition upd_buf :: "nat \<Rightarrow> (buf \<Rightarrow> buf) \<Rightarrow> ('a system_scheme, unit) kmon" where
  "upd_buf b f = upd_fs (\<lambda>x. x\<lparr>bufs := (bufs x)(b := f (bufs x b))\<rparr>)"

primrec binit_loop :: "nat \<Rightarrow> nat \<Rightarrow> ('a system_scheme, unit) kmon" where
  "binit_loop 0 b = return ()"
| "binit_loop (Suc n) b = seqs [
     bind (buf_at HEAD) (\<lambda>h. upd_buf b (\<lambda>x. x\<lparr>b_next := b_next h\<rparr>)),
     upd_buf b (\<lambda>x. x\<lparr>b_prev := HEAD\<rparr>),
     initsleeplock (BufLock b),
     bind (buf_at HEAD) (\<lambda>h. upd_buf (b_next h) (\<lambda>x. x\<lparr>b_prev := b\<rparr>)),
     upd_buf HEAD (\<lambda>x. x\<lparr>b_next := b\<rparr>),
     binit_loop n (Suc b)]"

definition binit :: "('a system_scheme, unit) kmon" where
  "binit = seqs [
     initlock BcacheLock,
     upd_buf HEAD (\<lambda>x. x\<lparr>b_prev := HEAD\<rparr>),
     upd_buf HEAD (\<lambda>x. x\<lparr>b_next := HEAD\<rparr>),
     binit_loop NBUF 0]"

text \<open>The two searches of \<open>bget\<close>, along \<open>next\<close> and along \<open>prev\<close>; a list has at most \<open>NBUF\<close> entries.\<close>

primrec bget_cached :: "nat \<Rightarrow> nat \<Rightarrow> 32 word \<Rightarrow> 32 word \<Rightarrow> ('a system_scheme, nat option) kmon" where
  "bget_cached 0 b dev blockno = fail Diverge"
| "bget_cached (Suc n) b dev blockno =
     (if b = HEAD then return None
      else bind (buf_at b) (\<lambda>x.
      if b_dev x = dev \<and> b_blockno x = blockno then return (Some b)
      else bget_cached n (b_next x) dev blockno))"

primrec bget_unused :: "nat \<Rightarrow> nat \<Rightarrow> ('a system_scheme, nat option) kmon" where
  "bget_unused 0 b = fail Diverge"
| "bget_unused (Suc n) b =
     (if b = HEAD then return None
      else bind (buf_at b) (\<lambda>x.
      if b_refcnt x = 0 \<and> \<not> b_dirty x then return (Some b)
      else bget_unused n (b_prev x)))"

definition bget :: "'a system_scheme kparams \<Rightarrow> 32 word \<Rightarrow> 32 word \<Rightarrow> ('a system_scheme, nat) kmon" where
  "bget K dev blockno =
     bind (acquire BcacheLock) (\<lambda>_.
     bind (buf_at HEAD) (\<lambda>h.
     bind (bget_cached (Suc NBUF) (b_next h) dev blockno) (\<lambda>r.
     case r of
       Some b \<Rightarrow>
         bind (upd_buf b (\<lambda>x. x\<lparr>b_refcnt := b_refcnt x + 1\<rparr>)) (\<lambda>_.
         bind (release BcacheLock) (\<lambda>_.
         bind (acquiresleep (env K) (BufLock b)) (\<lambda>_.
         return b)))
     | None \<Rightarrow>
         bind (buf_at HEAD) (\<lambda>h.
         bind (bget_unused (Suc NBUF) (b_prev h)) (\<lambda>r.
         case r of
           Some b \<Rightarrow>
             bind (upd_buf b (\<lambda>x. x\<lparr>b_dev := dev, b_blockno := blockno, b_valid := False,
                     b_dirty := False, b_refcnt := 1\<rparr>)) (\<lambda>_.
             bind (release BcacheLock) (\<lambda>_.
             bind (acquiresleep (env K) (BufLock b)) (\<lambda>_.
             return b)))
         | None \<Rightarrow> panic ''bget: no buffers'')))))"

definition bread :: "'a system_scheme kparams \<Rightarrow> 32 word \<Rightarrow> 32 word \<Rightarrow> ('a system_scheme, nat) kmon" where
  "bread K dev blockno =
     bind (bget K dev blockno) (\<lambda>b.
     bind (buf_at b) (\<lambda>x.
     bind (cwhen (\<not> b_valid x) (disk_rw K b dev)) (\<lambda>_.
     return b)))"

text \<open>
  Read-ahead. \<open>bget\<close> returns a buffer or panics, so the branch for its null result is never
  taken; the address \<open>-1\<close> is \<open>None\<close>. Without a block to read, the result is an uninitialised
  pointer.
\<close>

primrec breada_loop :: "nat \<Rightarrow> 'a system_scheme kparams \<Rightarrow> 32 word \<Rightarrow> 32 word \<Rightarrow> ('a system_scheme, nat list) kmon" where
  "breada_loop 0 K dev blockno = return []"
| "breada_loop (Suc n) K dev blockno =
     bind (bget K dev blockno) (\<lambda>b.
     bind (buf_at b) (\<lambda>x.
     bind (cwhen (\<not> b_valid x) (disk_rw K b dev)) (\<lambda>_.
     bind (breada_loop n K dev (blockno + 1)) (\<lambda>bs.
     return (b # bs)))))"

definition breada :: "'a system_scheme kparams \<Rightarrow> 32 word \<Rightarrow> 32 word \<Rightarrow> nat \<Rightarrow> ('a system_scheme, nat option) kmon" where
  "breada K dev blockno reada_len =
     (if reada_len > MAX_READA then return None
      else bind (breada_loop reada_len K dev blockno) (\<lambda>bs.
      case bs of [] \<Rightarrow> fail Bad_Access | b # _ \<Rightarrow> return (Some b)))"

definition bwrite :: "'a system_scheme kparams \<Rightarrow> nat \<Rightarrow> ('a system_scheme, unit) kmon" where
  "bwrite K b =
     bind (holdingsleep (BufLock b)) (\<lambda>h.
     if \<not> h then panic ''bwrite''
     else bind (upd_buf b (\<lambda>x. x\<lparr>b_dirty := True\<rparr>)) (\<lambda>_.
     bind (buf_at b) (\<lambda>x.
     disk_rw K b (b_dev x))))"

text \<open>Move a buffer to the front of the list.\<close>

definition make_recent :: "nat \<Rightarrow> ('a system_scheme, unit) kmon" where
  "make_recent b = seqs [
     bind (buf_at b) (\<lambda>x. upd_buf (b_next x) (\<lambda>y. y\<lparr>b_prev := b_prev x\<rparr>)),
     bind (buf_at b) (\<lambda>x. upd_buf (b_prev x) (\<lambda>y. y\<lparr>b_next := b_next x\<rparr>)),
     bind (buf_at HEAD) (\<lambda>h. upd_buf b (\<lambda>y. y\<lparr>b_next := b_next h\<rparr>)),
     upd_buf b (\<lambda>y. y\<lparr>b_prev := HEAD\<rparr>),
     bind (buf_at HEAD) (\<lambda>h. upd_buf (b_next h) (\<lambda>y. y\<lparr>b_prev := b\<rparr>)),
     upd_buf HEAD (\<lambda>y. y\<lparr>b_next := b\<rparr>)]"

definition brelse :: "nat \<Rightarrow> ('a system_scheme, unit) kmon" where
  "brelse b =
     bind (holdingsleep (BufLock b)) (\<lambda>h.
     if \<not> h then panic ''brelse''
     else seqs [
       releasesleep (BufLock b),
       acquire BcacheLock,
       upd_buf b (\<lambda>x. x\<lparr>b_refcnt := b_refcnt x - 1\<rparr>),
       bind (buf_at b) (\<lambda>x. cwhen (b_refcnt x = 0) (make_recent b)),
       release BcacheLock])"

end
