(* ===== verification/Fslog.thy ===== *)
theory Fslog
  imports Bcache
begin

text \<open>
  The write-ahead log of \<open>kernel/fs/log.c\<close>, and \<open>readsb\<close> of \<open>kernel/fs/fs.c\<close>.
\<close>

section \<open>The log\<close>

text \<open>The first \<open>BSIZE\<close> bytes of \<open>src\<close>, over \<open>dst\<close>.\<close>

definition move_block :: "bytes \<Rightarrow> bytes \<Rightarrow> bytes" where
  "move_block src dst = (\<lambda>x. if x < BSIZE then src x else dst x)"

definition superblock_of :: "bytes \<Rightarrow> superblock" where
  "superblock_of d = \<lparr>sb_size = load32 d 0, sb_nblocks = load32 d 4, sb_ninodes = load32 d 8,
     sb_nlog = load32 d 12, sb_logstart = load32 d 16, sb_inodestart = load32 d 20, sb_bmapstart = load32 d 24\<rparr>"

definition readsb :: "'a system_scheme kparams \<Rightarrow> 32 word \<Rightarrow> ('a system_scheme, superblock) kmon" where
  "readsb K dev =
     bind (bread K dev 1) (\<lambda>bp.
     bind (buf_at bp) (\<lambda>x.
     bind (brelse bp) (\<lambda>_.
     return (superblock_of (b_data x)))))"

definition upd_log :: "(logstate \<Rightarrow> logstate) \<Rightarrow> ('a system_scheme, unit) kmon" where
  "upd_log f = upd_fs (\<lambda>x. x\<lparr>lg := f (lg x)\<rparr>)"

definition log_at :: "('a system_scheme, logstate) kmon" where
  "log_at = gets_fs lg"

definition upd_lh :: "(logheader \<Rightarrow> logheader) \<Rightarrow> ('a system_scheme, unit) kmon" where
  "upd_lh f = upd_log (\<lambda>x. x\<lparr>l_lh := f (l_lh x)\<rparr>)"

text \<open>The loops over the logged blocks start at number \<open>i\<close> with \<open>n\<close> blocks to go.\<close>

primrec install_loop :: "nat \<Rightarrow> nat \<Rightarrow> 'a system_scheme kparams \<Rightarrow> ('a system_scheme, unit) kmon" where
  "install_loop 0 i K = return ()"
| "install_loop (Suc n) i K =
     bind log_at (\<lambda>l.
     bind (bread K (l_dev l) (l_start l + of_nat i + 1)) (\<lambda>lbuf.
     bind (bread K (l_dev l) (lh_block (l_lh l) i)) (\<lambda>dbuf.
     bind (buf_at lbuf) (\<lambda>x.
     bind (upd_buf dbuf (\<lambda>y. y\<lparr>b_data := move_block (b_data x) (b_data y)\<rparr>)) (\<lambda>_.
     bind (bwrite K dbuf) (\<lambda>_.
     bind (brelse lbuf) (\<lambda>_.
     bind (brelse dbuf) (\<lambda>_.
     install_loop n (Suc i) K))))))))"

definition install_trans :: "'a system_scheme kparams \<Rightarrow> ('a system_scheme, unit) kmon" where
  "install_trans K = bind log_at (\<lambda>l. install_loop (nat (lh_n (l_lh l))) 0 K)"

text \<open>The header has \<open>LOGSIZE\<close> entries; an entry beyond them is outside of the array.\<close>

definition header_of :: "bytes \<Rightarrow> logheader \<Rightarrow> logheader" where
  "header_of d h = \<lparr>lh_n = sint (load32 d 0),
     lh_block = (\<lambda>i. if int i < sint (load32 d 0) then load32 d (4 + 4 * of_nat i) else lh_block h i)\<rparr>"

definition read_head :: "'a system_scheme kparams \<Rightarrow> ('a system_scheme, unit) kmon" where
  "read_head K =
     bind log_at (\<lambda>l.
     bind (bread K (l_dev l) (l_start l)) (\<lambda>b.
     bind (buf_at b) (\<lambda>x.
     if sint (load32 (b_data x) 0) > LOGSIZE then fail Bad_Access
     else bind (upd_lh (header_of (b_data x))) (\<lambda>_.
     brelse b))))"

primrec put_blocks :: "nat \<Rightarrow> (nat \<Rightarrow> 32 word) \<Rightarrow> bytes \<Rightarrow> bytes" where
  "put_blocks 0 f d = d"
| "put_blocks (Suc n) f d = store32 (4 + 4 * of_nat n) (f n) (put_blocks n f d)"

definition header_bytes :: "logheader \<Rightarrow> bytes \<Rightarrow> bytes" where
  "header_bytes h d = put_blocks (nat (lh_n h)) (lh_block h) (store32 0 (of_int (lh_n h)) d)"

definition write_head :: "'a system_scheme kparams \<Rightarrow> ('a system_scheme, unit) kmon" where
  "write_head K =
     bind log_at (\<lambda>l.
     bind (bread K (l_dev l) (l_start l)) (\<lambda>b.
     bind (upd_buf b (\<lambda>x. x\<lparr>b_data := header_bytes (l_lh l) (b_data x)\<rparr>)) (\<lambda>_.
     bind (bwrite K b) (\<lambda>_.
     brelse b))))"

definition recover_from_log :: "'a system_scheme kparams \<Rightarrow> ('a system_scheme, unit) kmon" where
  "recover_from_log K = seqs [
     read_head K,
     install_trans K,
     upd_lh (\<lambda>h. h\<lparr>lh_n := 0\<rparr>),
     write_head K]"

definition initlog :: "'a system_scheme kparams \<Rightarrow> 32 word \<Rightarrow> ('a system_scheme, unit) kmon" where
  "initlog K dev =
     bind (initlock LogLock) (\<lambda>_.
     bind (readsb K dev) (\<lambda>b.
     bind (upd_log (\<lambda>l. l\<lparr>l_start := sb_logstart b, l_size := sint (sb_nlog b), l_dev := dev\<rparr>)) (\<lambda>_.
     recover_from_log K)))"

text \<open>\<open>begin_op\<close> sleeps until the log has room for one more operation.\<close>

primrec begin_op_loop :: "nat \<Rightarrow> 'a system_scheme environment \<Rightarrow> ('a system_scheme, unit) kmon" where
  "begin_op_loop 0 e = fail Diverge"
| "begin_op_loop (Suc n) e =
     bind log_at (\<lambda>l.
     if l_committing l then bind (sleep e (Some ChLog) (Some LogLock)) (\<lambda>_. begin_op_loop n e)
     else if lh_n (l_lh l) + (l_outstanding l + 1) * MAXOPBLOCKS > LOGSIZE then
       bind (sleep e (Some ChLog) (Some LogLock)) (\<lambda>_. begin_op_loop n e)
     else bind (upd_log (\<lambda>l. l\<lparr>l_outstanding := l_outstanding l + 1\<rparr>)) (\<lambda>_.
     release LogLock))"

definition begin_op :: "'a system_scheme kparams \<Rightarrow> ('a system_scheme, unit) kmon" where
  "begin_op K =
     bind (acquire LogLock) (\<lambda>_.
     bind (gets switches) (\<lambda>k.
     begin_op_loop (Suc k) (env K)))"

primrec write_log_loop :: "nat \<Rightarrow> nat \<Rightarrow> 'a system_scheme kparams \<Rightarrow> ('a system_scheme, unit) kmon" where
  "write_log_loop 0 i K = return ()"
| "write_log_loop (Suc n) i K =
     bind log_at (\<lambda>l.
     bind (bread K (l_dev l) (l_start l + of_nat i + 1)) (\<lambda>to.
     bind (bread K (l_dev l) (lh_block (l_lh l) i)) (\<lambda>src.
     bind (buf_at src) (\<lambda>x.
     bind (upd_buf to (\<lambda>y. y\<lparr>b_data := move_block (b_data x) (b_data y)\<rparr>)) (\<lambda>_.
     bind (bwrite K to) (\<lambda>_.
     bind (brelse src) (\<lambda>_.
     bind (brelse to) (\<lambda>_.
     write_log_loop n (Suc i) K))))))))"

definition write_log :: "'a system_scheme kparams \<Rightarrow> ('a system_scheme, unit) kmon" where
  "write_log K = bind log_at (\<lambda>l. write_log_loop (nat (lh_n (l_lh l))) 0 K)"

definition commit :: "'a system_scheme kparams \<Rightarrow> ('a system_scheme, unit) kmon" where
  "commit K =
     bind log_at (\<lambda>l.
     cwhen (lh_n (l_lh l) > 0) (seqs [
       write_log K,
       write_head K,
       install_trans K,
       upd_lh (\<lambda>h. h\<lparr>lh_n := 0\<rparr>),
       write_head K]))"

definition end_op :: "'a system_scheme kparams \<Rightarrow> ('a system_scheme, unit) kmon" where
  "end_op K =
     bind (acquire LogLock) (\<lambda>_.
     bind (upd_log (\<lambda>l. l\<lparr>l_outstanding := l_outstanding l - 1\<rparr>)) (\<lambda>_.
     bind log_at (\<lambda>l.
     if l_committing l then panic ''log.committing''
     else bind (if l_outstanding l = 0 then upd_log (\<lambda>l. l\<lparr>l_committing := True\<rparr>)
                else wakeup (Some ChLog)) (\<lambda>_.
     bind (release LogLock) (\<lambda>_.
     cwhen (l_outstanding l = 0) (seqs [
       commit K,
       acquire LogLock,
       upd_log (\<lambda>l. l\<lparr>l_committing := False\<rparr>),
       wakeup (Some ChLog),
       release LogLock]))))))"

text \<open>The index at which \<open>log_write\<close> records a block: where it is already, or the end.\<close>

primrec log_slot :: "nat \<Rightarrow> nat \<Rightarrow> (nat \<Rightarrow> 32 word) \<Rightarrow> 32 word \<Rightarrow> nat" where
  "log_slot 0 i f b = i"
| "log_slot (Suc n) i f b = (if f i = b then i else log_slot n (Suc i) f b)"

definition log_write :: "nat \<Rightarrow> ('a system_scheme, unit) kmon" where
  "log_write b =
     bind log_at (\<lambda>l.
     if lh_n (l_lh l) \<ge> LOGSIZE \<or> lh_n (l_lh l) \<ge> l_size l - 1 then panic ''too big a transaction''
     else if l_outstanding l < 1 then panic ''log_write outside of trans''
     else bind (acquire LogLock) (\<lambda>_.
     bind log_at (\<lambda>l.
     bind (buf_at b) (\<lambda>x.
     let i = log_slot (nat (lh_n (l_lh l))) 0 (lh_block (l_lh l)) (b_blockno x) in
     bind (upd_lh (\<lambda>h. h\<lparr>lh_block := (lh_block h)(i := b_blockno x)\<rparr>)) (\<lambda>_.
     bind (cwhen (int i = lh_n (l_lh l)) (upd_lh (\<lambda>h. h\<lparr>lh_n := lh_n h + 1\<rparr>))) (\<lambda>_.
     bind (upd_buf b (\<lambda>x. x\<lparr>b_dirty := True\<rparr>)) (\<lambda>_.
     release LogLock)))))))"

end
