(* ===== verification/Inode.thy ===== *)
theory Inode
  imports Fslog
begin

text \<open>
  The blocks and the inodes of \<open>kernel/fs/fs.c\<close>.
\<close>

section \<open>On-disk structures\<close>

abbreviation (input) BPB :: nat where "BPB \<equiv> 4096"
abbreviation (input) IPB :: "32 word" where "IPB \<equiv> 8"
abbreviation (input) MAXFILE :: "32 word" where "MAXFILE \<equiv> 140"

definition load16 :: "bytes \<Rightarrow> ptr \<Rightarrow> 16 word" where
  "load16 d p = ucast (d p) OR push_bit 8 (ucast (d (p + 1)))"

definition store16 :: "ptr \<Rightarrow> 16 word \<Rightarrow> bytes \<Rightarrow> bytes" where
  "store16 p w d = d(p := ucast w, p + 1 := ucast (drop_bit 8 w))"

text \<open>The superblock that the code consults for a device.\<close>

definition sb_of :: "32 word \<Rightarrow> fsystem \<Rightarrow> superblock" where
  "sb_of dev x = (if dev = 2 then sbs x 2 else sbs x 1)"

definition IBLOCK :: "32 word \<Rightarrow> superblock \<Rightarrow> 32 word" where
  "IBLOCK i b = i div IPB + sb_inodestart b"

definition BBLOCK :: "32 word \<Rightarrow> superblock \<Rightarrow> 32 word" where
  "BBLOCK b x = b div 4096 + sb_bmapstart x"

section \<open>Blocks\<close>

definition bzero :: "'a system_scheme kparams \<Rightarrow> 32 word \<Rightarrow> 32 word \<Rightarrow> ('a system_scheme, unit) kmon" where
  "bzero K dev bno =
     bind (bread K dev bno) (\<lambda>bp. seqs [
       upd_buf bp (\<lambda>x. x\<lparr>b_data := memset 0 0 BSIZE (b_data x)\<rparr>),
       log_write bp,
       brelse bp])"

definition bit_mask :: "nat \<Rightarrow> 8 word" where
  "bit_mask bi = push_bit (bi mod 8) 1"

definition bit_byte :: "nat \<Rightarrow> ptr" where
  "bit_byte bi = of_nat (bi div 8)"

text \<open>The first clear bit of a bitmap block from \<open>bi\<close> on, below the size of the file system.\<close>

primrec free_bit :: "nat \<Rightarrow> nat \<Rightarrow> 32 word \<Rightarrow> 32 word \<Rightarrow> bytes \<Rightarrow> nat option" where
  "free_bit 0 bi b n d = None"
| "free_bit (Suc k) bi b n d =
     (if b + of_nat bi < n then
        if d (bit_byte bi) AND bit_mask bi = 0 then Some bi
        else free_bit k (Suc bi) b n d
      else None)"

text \<open>The loop over the bitmap blocks; a file system has at most \<open>2 ^ 20\<close> of them.\<close>

primrec balloc_loop :: "nat \<Rightarrow> 'a system_scheme kparams \<Rightarrow> 32 word \<Rightarrow> 32 word \<Rightarrow> ('a system_scheme, 32 word) kmon" where
  "balloc_loop 0 K dev b = fail Diverge"
| "balloc_loop (Suc k) K dev b =
     bind (gets_fs (sb_of dev)) (\<lambda>superb.
     if b < sb_size superb then
       bind (bread K dev (BBLOCK b superb)) (\<lambda>bp.
       bind (buf_at bp) (\<lambda>x.
       case free_bit BPB 0 b (sb_size superb) (b_data x) of
         Some bi \<Rightarrow>
           bind (upd_buf bp (\<lambda>x. x\<lparr>b_data := (b_data x)(bit_byte bi := b_data x (bit_byte bi) OR bit_mask bi)\<rparr>)) (\<lambda>_.
           bind (log_write bp) (\<lambda>_.
           bind (brelse bp) (\<lambda>_.
           bind (bzero K dev (b + of_nat bi)) (\<lambda>_.
           return (b + of_nat bi)))))
       | None \<Rightarrow> bind (brelse bp) (\<lambda>_. balloc_loop k K dev (b + of_nat BPB))))
     else panic ''balloc: out of blocks'')"

definition balloc :: "'a system_scheme kparams \<Rightarrow> 32 word \<Rightarrow> ('a system_scheme, 32 word) kmon" where
  "balloc K dev = balloc_loop (Suc (2 ^ 20)) K dev 0"

definition bfree :: "'a system_scheme kparams \<Rightarrow> 32 word \<Rightarrow> 32 word \<Rightarrow> ('a system_scheme, unit) kmon" where
  "bfree K dev b =
     bind (gets_fs (sb_of dev)) (\<lambda>superb.
     bind (bread K dev (BBLOCK b superb)) (\<lambda>bp.
     bind (buf_at bp) (\<lambda>x.
     let bi = unat (b mod 4096) in
     if b_data x (bit_byte bi) AND bit_mask bi = 0 then panic ''freeing free block''
     else seqs [
       upd_buf bp (\<lambda>x. x\<lparr>b_data := (b_data x)(bit_byte bi := b_data x (bit_byte bi) AND NOT (bit_mask bi))\<rparr>),
       log_write bp,
       brelse bp])))"

section \<open>Inodes\<close>

definition cache_of :: "32 word \<Rightarrow> nat" where
  "cache_of dev = (if dev = 2 then 1 else 0)"

definition inode_at :: "inode_id \<Rightarrow> ('a system_scheme, inode) kmon" where
  "inode_at ip = gets_fs (\<lambda>x. icache x (fst ip) (snd ip))"

definition upd_inode :: "inode_id \<Rightarrow> (inode \<Rightarrow> inode) \<Rightarrow> ('a system_scheme, unit) kmon" where
  "upd_inode ip f = upd_fs (\<lambda>x. x\<lparr>icache := (icache x)(fst ip := (icache x (fst ip))
     (snd ip := f (icache x (fst ip) (snd ip))))\<rparr>)"

abbreviation (input) ilk :: "inode_id \<Rightarrow> lockid" where "ilk ip \<equiv> InodeLock (fst ip) (snd ip)"

primrec iinit_loop :: "nat \<Rightarrow> nat \<Rightarrow> nat \<Rightarrow> ('a system_scheme, unit) kmon" where
  "iinit_loop 0 c i = return ()"
| "iinit_loop (Suc n) c i = bind (initsleeplock (InodeLock c i)) (\<lambda>_. iinit_loop n c (Suc i))"

text \<open>The line about the superblock on the console is left out.\<close>

definition iinit :: "'a system_scheme kparams \<Rightarrow> 32 word \<Rightarrow> ('a system_scheme, unit) kmon" where
  "iinit K dev =
     cwhen (dev = 1 \<or> dev = 2) (seqs [
       initlock (IcacheLock (cache_of dev)),
       iinit_loop NINODE (cache_of dev) 0,
       bind (readsb K dev) (\<lambda>b. upd_fs (\<lambda>x. x\<lparr>sbs := (sbs x)(dev := b)\<rparr>))])"

text \<open>An on-disk inode at the offset \<open>p\<close> of its block: 64 bytes.\<close>

definition dinode_off :: "32 word \<Rightarrow> ptr" where
  "dinode_off inum = (inum mod IPB) * 64"

primrec put_addrs :: "nat \<Rightarrow> (nat \<Rightarrow> 32 word) \<Rightarrow> ptr \<Rightarrow> bytes \<Rightarrow> bytes" where
  "put_addrs 0 f p d = d"
| "put_addrs (Suc n) f p d = store32 (p + 4 * of_nat n) (f n) (put_addrs n f p d)"

definition put_dinode :: "inode \<Rightarrow> ptr \<Rightarrow> bytes \<Rightarrow> bytes" where
  "put_dinode i p d = put_addrs (Suc NDIRECT) (i_addrs i) (p + 12)
     (store32 (p + 8) (i_size i) (store16 (p + 6) (i_nlink i) (store16 (p + 4) (i_minor i)
     (store16 (p + 2) (i_major i) (store16 p (i_type i) d)))))"

definition get_dinode :: "bytes \<Rightarrow> ptr \<Rightarrow> inode \<Rightarrow> inode" where
  "get_dinode d p i = i\<lparr>i_type := load16 d p, i_major := load16 d (p + 2), i_minor := load16 d (p + 4),
     i_nlink := load16 d (p + 6), i_size := load32 d (p + 8),
     i_addrs := (\<lambda>k. if k \<le> NDIRECT then load32 d (p + 12 + 4 * of_nat k) else i_addrs i k)\<rparr>"

datatype iget_result = Cached nat | Empty "nat option"

primrec iget_scan :: "nat \<Rightarrow> nat \<Rightarrow> 32 word \<Rightarrow> 32 word \<Rightarrow> nat option \<Rightarrow> (nat \<Rightarrow> inode) \<Rightarrow> iget_result" where
  "iget_scan 0 i dev inum vacant c = Empty vacant"
| "iget_scan (Suc n) i dev inum vacant c =
     (if i_ref (c i) > 0 \<and> i_dev (c i) = dev \<and> i_inum (c i) = inum then Cached i
      else iget_scan n (Suc i) dev inum (if vacant = None \<and> i_ref (c i) = 0 then Some i else vacant) c)"

definition iget :: "32 word \<Rightarrow> 32 word \<Rightarrow> ('a system_scheme, inode_id) kmon" where
  "iget dev inum =
     (let c = cache_of dev in
      bind (acquire (IcacheLock c)) (\<lambda>_.
      bind (gets_fs (\<lambda>x. iget_scan NINODE 0 dev inum None (icache x c))) (\<lambda>r.
      case r of
        Cached i \<Rightarrow>
          bind (upd_inode (c, i) (\<lambda>y. y\<lparr>i_ref := i_ref y + 1\<rparr>)) (\<lambda>_.
          bind (release (IcacheLock c)) (\<lambda>_.
          return (c, i)))
      | Empty None \<Rightarrow> panic ''iget: no inodes''
      | Empty (Some i) \<Rightarrow>
          bind (upd_inode (c, i) (\<lambda>y. y\<lparr>i_dev := dev, i_inum := inum, i_ref := 1, i_valid := False\<rparr>)) (\<lambda>_.
          bind (release (IcacheLock c)) (\<lambda>_.
          return (c, i))))))"

primrec ialloc_loop :: "nat \<Rightarrow> 'a system_scheme kparams \<Rightarrow> 32 word \<Rightarrow> 16 word \<Rightarrow> 32 word \<Rightarrow> ('a system_scheme, inode_id) kmon" where
  "ialloc_loop 0 K dev ty inum = panic ''ialloc: no inodes''"
| "ialloc_loop (Suc n) K dev ty inum =
     bind (gets_fs (sb_of dev)) (\<lambda>superb.
     bind (bread K dev (IBLOCK inum superb)) (\<lambda>bp.
     bind (buf_at bp) (\<lambda>x.
     let p = dinode_off inum in
     if load16 (b_data x) p = 0 then
       bind (upd_buf bp (\<lambda>x. x\<lparr>b_data := store16 p ty (memset p 0 64 (b_data x))\<rparr>)) (\<lambda>_.
       bind (log_write bp) (\<lambda>_.
       bind (brelse bp) (\<lambda>_.
       iget dev inum)))
     else bind (brelse bp) (\<lambda>_. ialloc_loop n K dev ty (inum + 1)))))"

definition ialloc :: "'a system_scheme kparams \<Rightarrow> 32 word \<Rightarrow> 16 word \<Rightarrow> ('a system_scheme, inode_id) kmon" where
  "ialloc K dev ty =
     bind (gets_fs (sb_of dev)) (\<lambda>superb.
     ialloc_loop (unat (sb_ninodes superb) - 1) K dev ty 1)"

definition iupdate :: "'a system_scheme kparams \<Rightarrow> inode_id \<Rightarrow> ('a system_scheme, unit) kmon" where
  "iupdate K ip =
     bind (inode_at ip) (\<lambda>i.
     if is_mount_point i then return ()
     else bind (gets_fs (sb_of (i_dev i))) (\<lambda>superb.
     bind (bread K (i_dev i) (IBLOCK (i_inum i) superb)) (\<lambda>bp. seqs [
       upd_buf bp (\<lambda>x. x\<lparr>b_data := put_dinode i (dinode_off (i_inum i)) (b_data x)\<rparr>),
       log_write bp,
       brelse bp])))"

definition idup :: "inode_id \<Rightarrow> ('a system_scheme, inode_id) kmon" where
  "idup ip =
     bind (inode_at ip) (\<lambda>i.
     let c = cache_of (i_dev i) in
     bind (acquire (IcacheLock c)) (\<lambda>_.
     bind (upd_inode ip (\<lambda>y. y\<lparr>i_ref := i_ref y + 1\<rparr>)) (\<lambda>_.
     bind (release (IcacheLock c)) (\<lambda>_.
     return ip))))"

definition ilock :: "'a system_scheme kparams \<Rightarrow> inode_id option \<Rightarrow> ('a system_scheme, unit) kmon" where
  "ilock K ipo =
     (case ipo of None \<Rightarrow> panic ''ilock'' | Some ip \<Rightarrow>
      bind (inode_at ip) (\<lambda>i.
      if i_ref i < 1 then panic ''ilock''
      else bind (acquiresleep (env K) (ilk ip)) (\<lambda>_.
      bind (inode_at ip) (\<lambda>i.
      cwhen (\<not> i_valid i) (
        bind (gets_fs (sb_of (i_dev i))) (\<lambda>superb.
        bind (bread K (i_dev i) (IBLOCK (i_inum i) superb)) (\<lambda>bp.
        bind (buf_at bp) (\<lambda>x.
        bind (upd_inode ip (get_dinode (b_data x) (dinode_off (i_inum i)))) (\<lambda>_.
        bind (brelse bp) (\<lambda>_.
        bind (upd_inode ip (\<lambda>y. y\<lparr>i_valid := True\<rparr>)) (\<lambda>_.
        bind (inode_at ip) (\<lambda>i.
        cwhen (i_type i = 0) (panic ''ilock: no type'')))))))))))))"

definition iunlock :: "inode_id option \<Rightarrow> ('a system_scheme, unit) kmon" where
  "iunlock ipo =
     (case ipo of None \<Rightarrow> panic ''iunlock'' | Some ip \<Rightarrow>
      bind (holdingsleep (ilk ip)) (\<lambda>h.
      bind (inode_at ip) (\<lambda>i.
      if \<not> h \<or> i_ref i < 1 then panic ''iunlock''
      else releasesleep (ilk ip))))"

section \<open>Contents of an inode\<close>

primrec itrunc_direct :: "nat \<Rightarrow> nat \<Rightarrow> 'a system_scheme kparams \<Rightarrow> inode_id \<Rightarrow> ('a system_scheme, unit) kmon" where
  "itrunc_direct 0 k K ip = return ()"
| "itrunc_direct (Suc n) k K ip =
     bind (inode_at ip) (\<lambda>i.
     bind (cwhen (i_addrs i k \<noteq> 0) (seqs [
         bfree K (i_dev i) (i_addrs i k),
         upd_inode ip (\<lambda>y. y\<lparr>i_addrs := (i_addrs y)(k := 0)\<rparr>)])) (\<lambda>_.
     itrunc_direct n (Suc k) K ip))"

primrec itrunc_indirect :: "nat \<Rightarrow> nat \<Rightarrow> 'a system_scheme kparams \<Rightarrow> 32 word \<Rightarrow> nat \<Rightarrow> ('a system_scheme, unit) kmon" where
  "itrunc_indirect 0 j K dev bp = return ()"
| "itrunc_indirect (Suc n) j K dev bp =
     bind (buf_at bp) (\<lambda>x.
     let a = load32 (b_data x) (4 * of_nat j) in
     bind (cwhen (a \<noteq> 0) (bfree K dev a)) (\<lambda>_.
     itrunc_indirect n (Suc j) K dev bp))"

definition itrunc :: "'a system_scheme kparams \<Rightarrow> inode_id \<Rightarrow> ('a system_scheme, unit) kmon" where
  "itrunc K ip =
     bind (itrunc_direct NDIRECT 0 K ip) (\<lambda>_.
     bind (inode_at ip) (\<lambda>i.
     bind (cwhen (i_addrs i NDIRECT \<noteq> 0) (
       bind (bread K (i_dev i) (i_addrs i NDIRECT)) (\<lambda>bp. seqs [
         itrunc_indirect NINDIRECT 0 K (i_dev i) bp,
         brelse bp,
         bfree K (i_dev i) (i_addrs i NDIRECT),
         upd_inode ip (\<lambda>y. y\<lparr>i_addrs := (i_addrs y)(NDIRECT := 0)\<rparr>)]))) (\<lambda>_.
     bind (upd_inode ip (\<lambda>y. y\<lparr>i_size := 0\<rparr>)) (\<lambda>_.
     iupdate K ip))))"

text \<open>\<open>iput\<close> reads the reference count under the lock of the other cache.\<close>

definition iput :: "'a system_scheme kparams \<Rightarrow> inode_id \<Rightarrow> ('a system_scheme, unit) kmon" where
  "iput K ip =
     bind (acquiresleep (env K) (ilk ip)) (\<lambda>_.
     bind (inode_at ip) (\<lambda>i.
     bind (cwhen (i_valid i \<and> i_nlink i = 0) (
       let other = (if i_dev i = 2 then 0 else 1) in
       bind (acquire (IcacheLock other)) (\<lambda>_.
       bind (inode_at ip) (\<lambda>i.
       bind (release (IcacheLock other)) (\<lambda>_.
       cwhen (i_ref i = 1) (seqs [
         itrunc K ip,
         upd_inode ip (\<lambda>y. y\<lparr>i_type := 0\<rparr>),
         iupdate K ip,
         upd_inode ip (\<lambda>y. y\<lparr>i_valid := False\<rparr>)])))))) (\<lambda>_.
     bind (releasesleep (ilk ip)) (\<lambda>_.
     bind (inode_at ip) (\<lambda>i.
     let c = cache_of (i_dev i) in seqs [
       acquire (IcacheLock c),
       upd_inode ip (\<lambda>y. y\<lparr>i_ref := i_ref y - 1\<rparr>),
       release (IcacheLock c)])))))"

definition iunlockput :: "'a system_scheme kparams \<Rightarrow> inode_id \<Rightarrow> ('a system_scheme, unit) kmon" where
  "iunlockput K ip = seqs [iunlock (Some ip), iput K ip]"

definition iputmount :: "'a system_scheme kparams \<Rightarrow> inode_id \<Rightarrow> ('a system_scheme, int) kmon" where
  "iputmount K ip =
     bind (inode_at ip) (\<lambda>i.
     if i_ref i > 1 then return (- 1)
     else bind (iput K ip) (\<lambda>_. return 0))"

definition bmap :: "'a system_scheme kparams \<Rightarrow> inode_id \<Rightarrow> 32 word \<Rightarrow> ('a system_scheme, 32 word) kmon" where
  "bmap K ip bn =
     bind (inode_at ip) (\<lambda>i.
     let n = unat bn in
     if n < NDIRECT then
       if i_addrs i n = 0 then
         bind (balloc K (i_dev i)) (\<lambda>addr.
         bind (upd_inode ip (\<lambda>y. y\<lparr>i_addrs := (i_addrs y)(n := addr)\<rparr>)) (\<lambda>_.
         return addr))
       else return (i_addrs i n)
     else if n - NDIRECT < NINDIRECT then
       bind (if i_addrs i NDIRECT = 0 then
               bind (balloc K (i_dev i)) (\<lambda>addr.
               bind (upd_inode ip (\<lambda>y. y\<lparr>i_addrs := (i_addrs y)(NDIRECT := addr)\<rparr>)) (\<lambda>_.
               return addr))
             else return (i_addrs i NDIRECT)) (\<lambda>ind.
       bind (bread K (i_dev i) ind) (\<lambda>bp.
       bind (buf_at bp) (\<lambda>x.
       let slot = 4 * of_nat (n - NDIRECT) in
       bind (if load32 (b_data x) slot = 0 then
               bind (balloc K (i_dev i)) (\<lambda>addr.
               bind (upd_buf bp (\<lambda>x. x\<lparr>b_data := store32 slot addr (b_data x)\<rparr>)) (\<lambda>_.
               bind (log_write bp) (\<lambda>_.
               return addr)))
             else return (load32 (b_data x) slot)) (\<lambda>addr.
       bind (brelse bp) (\<lambda>_.
       return addr)))))
     else panic ''bmap: out of range'')"

record stat =
  st_dev :: "32 word"
  st_ino :: "32 word"
  st_type :: "16 word"
  st_nlink :: "16 word"
  st_size :: "32 word"

definition stat_of :: "inode \<Rightarrow> stat" where
  "stat_of i = \<lparr>st_dev = i_dev i, st_ino = i_inum i, st_type = i_type i, st_nlink = i_nlink i, st_size = i_size i\<rparr>"

text \<open>What the branch for a mount point stores is overwritten at once.\<close>

definition stati :: "inode_id \<Rightarrow> ('a system_scheme, stat) kmon" where
  "stati ip =
     bind (inode_at ip) (\<lambda>i.
     bind (if is_mount_point i then bind (gets_fs mount_root) (\<lambda>r. deref r (\<lambda>r.
             bind (inode_at r) (\<lambda>j. return (stat_of j))))
           else return (stat_of i)) (\<lambda>_.
     return (stat_of i)))"

section \<open>On-disk inodes\<close>

lemma load16_store16 [simp]: "load16 (store16 p w d) p = w"
proof -
  have "bit (ucast (ucast w :: 8 word) OR push_bit 8 (ucast (ucast (drop_bit 8 w) :: 8 word)) :: 16 word) n = bit w n" if "n < 16" for n
    using that by (auto simp: bit_or_iff bit_push_bit_iff bit_ucast_iff bit_drop_bit_eq)
  then have "ucast (ucast w :: 8 word) OR push_bit 8 (ucast (ucast (drop_bit 8 w) :: 8 word)) = w"
    by (intro bit_word_eqI) simp
  then show ?thesis by (simp add: load16_def store16_def)
qed

lemma store16_other [simp]: "x \<noteq> p \<Longrightarrow> x \<noteq> p + 1 \<Longrightarrow> store16 p w d x = d x"
  by (simp add: store16_def)

lemma load16_cong: "d p = d' p \<Longrightarrow> d (p + 1) = d' (p + 1) \<Longrightarrow> load16 d p = load16 d' p"
  by (simp add: load16_def)

lemma load16_other [simp]:
  "p \<noteq> q \<Longrightarrow> p \<noteq> q + 1 \<Longrightarrow> p + 1 \<noteq> q \<Longrightarrow> load16 (store16 q w d) p = load16 d p"
  "\<lbrakk>p \<noteq> q; p \<noteq> q + 1; p \<noteq> q + 2; p \<noteq> q + 3; p + 1 \<noteq> q\<rbrakk> \<Longrightarrow> load16 (store32 q v d) p = load16 d p"
  by (auto simp: load16_def store16_def store32_def)

lemma fits_word:
  assumes "fits p (4 * Suc n)"
  shows "unat (p + 4 * of_nat n) = unat p + 4 * n" "fits (p + 4 * of_nat n) 4" "fits p (4 * n)"
proof -
  show "unat (p + 4 * of_nat n) = unat p + 4 * n" using fits_add [OF assms, of "4 * n"] by simp
  then show "fits (p + 4 * of_nat n) 4" using assms by (simp add: fits_def)
  show "fits p (4 * n)" using assms by (simp add: fits_def)
qed

lemma put_addrs_other:
  "fits p (4 * n) \<Longrightarrow> \<not> within p (4 * n) x \<Longrightarrow> put_addrs n f p d x = d x"
proof (induction n)
  case (Suc n)
  have w: "\<not> within (p + 4 * of_nat n) 4 x" "\<not> within p (4 * n) x"
    using Suc.prems(2) fits_word(1) [OF Suc.prems(1)] by (auto simp: within_def)
  then show ?case
    using Suc.IH [OF fits_word(3) [OF Suc.prems(1)]] by (simp add: store32_other [OF w(1) fits_word(2) [OF Suc.prems(1)]])
qed simp

lemma put_addrs_get:
  "fits p (4 * n) \<Longrightarrow> k < n \<Longrightarrow> load32 (put_addrs n f p d) (p + 4 * of_nat k) = f k"
proof (induction n)
  case (Suc n)
  show ?case
  proof (cases "k = n")
    case False
    then have k: "k < n" using Suc.prems(2) by simp
    have fk: "fits p (4 * Suc k)" using Suc.prems(1) k by (simp add: fits_def)
    have "load32 (put_addrs (Suc n) f p d) (p + 4 * of_nat k) = load32 (put_addrs n f p d) (p + 4 * of_nat k)"
    proof (rule load32_cong)
      fix x
      assume "within (p + 4 * of_nat k) 4 x"
      then have "\<not> within (p + 4 * of_nat n) 4 x"
        using k fits_word(1) [OF fk] fits_word(1) [OF Suc.prems(1)] by (auto simp: within_def)
      then show "put_addrs (Suc n) f p d x = put_addrs n f p d x"
        by (simp add: store32_other [OF _ fits_word(2) [OF Suc.prems(1)]])
    qed (rule fits_word(2) [OF fk])
    then show ?thesis using Suc.IH [OF fits_word(3) [OF Suc.prems(1)] k] by simp
  qed simp
qed simp

text \<open>
  The fields of an inode that are stored on the disk; what \<open>iupdate\<close> stores, \<open>ilock\<close> reads back.
\<close>

definition same_dinode :: "inode \<Rightarrow> inode \<Rightarrow> bool" where
  "same_dinode i j \<longleftrightarrow> i_type i = i_type j \<and> i_major i = i_major j \<and> i_minor i = i_minor j
     \<and> i_nlink i = i_nlink j \<and> i_size i = i_size j \<and> (\<forall>k \<le> NDIRECT. i_addrs i k = i_addrs j k)"

lemma within_cases: "fits p n \<Longrightarrow> within p n x \<longleftrightarrow> (\<exists>i < n. x = p + of_nat i)"
  using withinE [of p n x] within_add [of p n] by blast


lemma dinode_head:
  assumes "fits p 64" "i < 12"
  shows "put_addrs (Suc NDIRECT) f (p + 12) d (p + of_nat i) = d (p + of_nat i)"
proof (rule put_addrs_other)
  have "unat (p + 12) = unat p + 12" using fits_add [OF assms(1), of 12] by simp
  then show "fits (p + 12) (4 * Suc NDIRECT)" "\<not> within (p + 12) (4 * Suc NDIRECT) (p + of_nat i)"
    using assms fits_add [OF assms(1), of i] by (auto simp: fits_def within_def)
qed

text \<open>
  C21. What \<open>iupdate\<close> stores in the slot of an inode, \<open>ilock\<close> reads back: type, device numbers,
  link count, size and all block addresses. No byte outside the slot of 64 bytes changes.
\<close>

theorem dinode_roundtrip:
  assumes "fits p 64"
  shows "same_dinode (get_dinode (put_dinode i p d) p j) i
    \<and> (\<forall>x. \<not> within p 64 x \<longrightarrow> put_dinode i p d x = d x)"
proof
  let ?e = "store32 (p + 8) (i_size i) (store16 (p + 6) (i_nlink i) (store16 (p + 4) (i_minor i)
     (store16 (p + 2) (i_major i) (store16 p (i_type i) d))))"
  have d: "put_dinode i p d = put_addrs (Suc NDIRECT) (i_addrs i) (p + 12) ?e" by (simp add: put_dinode_def)
  have u: "unat (p + 12) = unat p + 12" using fits_add [OF assms, of 12] by simp
  then have f: "fits (p + 12) (4 * Suc NDIRECT)" using assms by (simp add: fits_def)
  have h: "put_dinode i p d (p + of_nat k) = ?e (p + of_nat k)" if "k < 12" for k
    unfolding d using dinode_head [OF assms that] .
  have h16: "load16 (put_dinode i p d) (p + of_nat k) = load16 ?e (p + of_nat k)" if "k < 11" for k
    by (rule load16_cong) (use h [of k] h [of "Suc k"] that in \<open>simp_all add: ac_simps\<close>)
  have "load16 (put_dinode i p d) p = i_type i" "load16 (put_dinode i p d) (p + 2) = i_major i"
    "load16 (put_dinode i p d) (p + 4) = i_minor i" "load16 (put_dinode i p d) (p + 6) = i_nlink i"
    using h16 [of 0] h16 [of 2] h16 [of 4] h16 [of 6] by (simp_all add: add.assoc)
  moreover have "load32 (put_dinode i p d) (p + 8) = i_size i"
    using h [of 8] h [of 9] h [of 10] h [of 11]
    by (subst load32_store32 [of "p + 8" "i_size i" d, symmetric]) (simp add: load32_def store32_def add.assoc)
  moreover have "load32 (put_dinode i p d) (p + 12 + 4 * of_nat k) = i_addrs i k" if "k \<le> NDIRECT" for k
    unfolding d using put_addrs_get [OF f, of k] that by simp
  ultimately show "same_dinode (get_dinode (put_dinode i p d) p j) i"
    by (simp add: same_dinode_def get_dinode_def)
  show "\<forall>x. \<not> within p 64 x \<longrightarrow> put_dinode i p d x = d x"
  proof (intro allI impI)
    fix x
    assume x: "\<not> within p 64 x"
    then have n: "x \<noteq> p + of_nat k" if "k < 64" for k using that within_add [OF assms] by blast
    have "\<not> within (p + 12) (4 * Suc NDIRECT) x" using x u by (auto simp: within_def)
    then have "put_dinode i p d x = ?e x" unfolding d by (rule put_addrs_other [OF f])
    also have "\<dots> = d x"
      using n [of 0] n [of 1] n [of 2] n [of 3] n [of 4] n [of 5] n [of 6] n [of 7] n [of 8] n [of 9] n [of 10] n [of 11]
      by (simp add: store32_def store16_def ac_simps)
    finally show "put_dinode i p d x = d x" .
  qed
qed

definition inode1 :: inode where
  "inode1 = \<lparr>i_dev = 1, i_inum = 5, i_ref = 1, i_valid = True, i_type = 2, i_major = 0, i_minor = 0, i_nlink = 1,
     i_size = 700, is_mount_point = False, i_addrs = (\<lambda>k. 100 + of_nat k)\<rparr>"

lemma dinode_roundtrip_witness:
  "same_dinode (get_dinode (put_dinode inode1 64 (\<lambda>_. 0)) 64 inode1) inode1 \<and> put_dinode inode1 64 (\<lambda>_. 0) 0 = 0"
  using dinode_roundtrip [of 64 inode1 "\<lambda>_. 0" inode1] by (simp add: fits_def within_def)

end
