(* ===== verification/Dir.thy ===== *)
theory Dir
  imports Inode
begin

text \<open>
  The contents of inodes, directories and path names of \<open>kernel/fs/fs.c\<close>.
\<close>

section \<open>Reading and writing\<close>

definition bytes_at :: "bytes \<Rightarrow> ptr \<Rightarrow> nat \<Rightarrow> 8 word list" where
  "bytes_at d p n = map (\<lambda>i. d (p + of_nat i)) [0..<n]"

text \<open>
  The loops of \<open>readi\<close> and \<open>writei\<close> with the bytes that are read or to be written as lists; the
  copy from and to the caller's buffer is made by \<open>readi\<close> and \<open>writei\<close> as a whole. A round moves
  at least one byte.
\<close>

definition chunk :: "32 word \<Rightarrow> 32 word \<Rightarrow> 32 word" where
  "chunk n off = (if n < BSIZE - off mod BSIZE then n else BSIZE - off mod BSIZE)"

primrec readi_loop :: "nat \<Rightarrow> 'a system_scheme kparams \<Rightarrow> inode_id \<Rightarrow> 32 word \<Rightarrow> 32 word \<Rightarrow> ('a system_scheme, 8 word list) kmon" where
  "readi_loop 0 K ip off n = fail Diverge"
| "readi_loop (Suc k) K ip off n =
     (if n = 0 then return []
      else bind (bmap K ip (off div BSIZE)) (\<lambda>addr.
      bind (inode_at ip) (\<lambda>i.
      bind (bread K (i_dev i) addr) (\<lambda>bp.
      bind (buf_at bp) (\<lambda>x.
      let m = chunk n off in
      bind (brelse bp) (\<lambda>_.
      bind (readi_loop k K ip (off + m) (n - m)) (\<lambda>xs.
      return (bytes_at (b_data x) (off mod BSIZE) (unat m) @ xs))))))))"

definition readi_file :: "'a system_scheme kparams \<Rightarrow> inode_id \<Rightarrow> 32 word \<Rightarrow> 32 word \<Rightarrow> ('a system_scheme, 8 word list option) kmon" where
  "readi_file K ip off n =
     bind (inode_at ip) (\<lambda>i.
     if off > i_size i \<or> off + n < off then return None
     else let n = (if off + n > i_size i then i_size i - off else n) in
     bind (readi_loop (Suc (unat n)) K ip off n) (\<lambda>xs.
     return (Some xs)))"

definition device :: "(nat \<Rightarrow> 'f option) \<Rightarrow> 16 word \<Rightarrow> 'f option" where
  "device sw major = (if sint major < 0 \<or> sint major \<ge> int NDEV then None else sw (unat major))"

definition readi :: "'a system_scheme kparams \<Rightarrow> inode_id \<Rightarrow> ptr \<Rightarrow> 32 word \<Rightarrow> 32 word \<Rightarrow> ('a system_scheme, int) kmon" where
  "readi K ip dst off n =
     bind (inode_at ip) (\<lambda>i.
     if i_type i = T_DEV then
       (case device (dev_read K) (i_major i) of None \<Rightarrow> return (- 1) | Some f \<Rightarrow> f ip dst (sint n))
     else bind (readi_file K ip off n) (\<lambda>r.
     case r of None \<Rightarrow> return (- 1)
     | Some xs \<Rightarrow> bind (copy_to xs dst) (\<lambda>_. return (int (length xs)))))"

primrec writei_loop :: "nat \<Rightarrow> 'a system_scheme kparams \<Rightarrow> inode_id \<Rightarrow> 8 word list \<Rightarrow> 32 word \<Rightarrow> ('a system_scheme, 32 word) kmon" where
  "writei_loop 0 K ip xs off = fail Diverge"
| "writei_loop (Suc k) K ip xs off =
     (if xs = [] then return off
      else bind (bmap K ip (off div BSIZE)) (\<lambda>addr.
      bind (inode_at ip) (\<lambda>i.
      bind (bread K (i_dev i) addr) (\<lambda>bp.
      let m = chunk (of_nat (length xs)) off in
      bind (upd_buf bp (\<lambda>x. x\<lparr>b_data := put_bytes (take (unat m) xs) (off mod BSIZE) (b_data x)\<rparr>)) (\<lambda>_.
      bind (log_write bp) (\<lambda>_.
      bind (brelse bp) (\<lambda>_.
      writei_loop k K ip (drop (unat m) xs) (off + m))))))))"

definition writei_file :: "'a system_scheme kparams \<Rightarrow> inode_id \<Rightarrow> 8 word list \<Rightarrow> 32 word \<Rightarrow> ('a system_scheme, int) kmon" where
  "writei_file K ip xs off =
     bind (inode_at ip) (\<lambda>i.
     let n = of_nat (length xs) in
     if off > i_size i \<or> off + n < off then return (- 1)
     else if off + n > MAXFILE * BSIZE then return (- 1)
     else bind (writei_loop (Suc (length xs)) K ip xs off) (\<lambda>off.
     bind (inode_at ip) (\<lambda>i.
     bind (cwhen (n > 0 \<and> off > i_size i) (seqs [
         upd_inode ip (\<lambda>y. y\<lparr>i_size := off\<rparr>),
         iupdate K ip])) (\<lambda>_.
     return (int (length xs))))))"

text \<open>The two checks of \<open>writei\<close> come before the buffer is read.\<close>

definition writei :: "'a system_scheme kparams \<Rightarrow> inode_id \<Rightarrow> ptr \<Rightarrow> 32 word \<Rightarrow> 32 word \<Rightarrow> ('a system_scheme, int) kmon" where
  "writei K ip src off n =
     bind (inode_at ip) (\<lambda>i.
     if i_type i = T_DEV then
       (case device (dev_write K) (i_major i) of None \<Rightarrow> return (- 1) | Some f \<Rightarrow> f ip src (sint n))
     else if off > i_size i \<or> off + n < off \<or> off + n > MAXFILE * BSIZE then return (- 1)
     else bind (copy_in (unat n) src) (\<lambda>xs. writei_file K ip xs off))"

section \<open>Directories\<close>

text \<open>
  A name is the list of its bytes without the terminator, at most \<open>DIRSIZ\<close> of them. \<open>namecmp\<close> and
  the copy of a name run the string routines on a small memory that holds the operands.
\<close>

definition place :: "8 word list \<Rightarrow> 8 word list \<Rightarrow> bytes" where
  "place s t = (\<lambda>a. if unat a < length s then s ! unat a
     else if 256 \<le> unat a \<and> unat a - 256 < length t then t ! (unat a - 256) else 0)"

definition namecmp :: "8 word list \<Rightarrow> 8 word list \<Rightarrow> int" where
  "namecmp s t = strncmp 0 256 14 (place s t)"

definition dirent_name :: "8 word list \<Rightarrow> 8 word list" where
  "dirent_name name = bytes_at (strncpy 256 0 14 (place name [])) 256 DIRSIZ"

definition dirent_inum :: "8 word list \<Rightarrow> 16 word" where
  "dirent_inum de = load16 (place de []) 0"

definition dirent_bytes :: "16 word \<Rightarrow> 8 word list \<Rightarrow> 8 word list" where
  "dirent_bytes inum name = [ucast inum, ucast (drop_bit 8 inum)] @ dirent_name name"

primrec dirlookup_loop :: "nat \<Rightarrow> 'a system_scheme kparams \<Rightarrow> inode_id \<Rightarrow> 8 word list \<Rightarrow> 32 word \<Rightarrow>
    ('a system_scheme, (inode_id \<times> 32 word) option) kmon" where
  "dirlookup_loop 0 K dp name off = fail Diverge"
| "dirlookup_loop (Suc k) K dp name off =
     bind (inode_at dp) (\<lambda>d.
     if off < i_size d then
       bind (readi_file K dp off 16) (\<lambda>r.
       case r of None \<Rightarrow> panic ''dirlookup read'' | Some de \<Rightarrow>
       if length de \<noteq> 16 then panic ''dirlookup read''
       else if dirent_inum de \<noteq> 0 \<and> namecmp name (drop 2 de) = 0 then
         bind (iget (i_dev d) (ucast (dirent_inum de))) (\<lambda>ip. return (Some (ip, off)))
       else dirlookup_loop k K dp name (off + 16))
     else return None)"

text \<open>A directory of \<open>n\<close> bytes has \<open>n div 16 + 1\<close> entries at most.\<close>

definition dirlookup :: "'a system_scheme kparams \<Rightarrow> inode_id \<Rightarrow> 8 word list \<Rightarrow> bool \<Rightarrow>
    ('a system_scheme, (inode_id \<times> 32 word) option) kmon" where
  "dirlookup K dp name leaving_mount =
     bind (inode_at dp) (\<lambda>d.
     bind (if \<not> leaving_mount \<and> is_mount_point d then gets_fs mount_root else return (Some dp)) (\<lambda>r. deref r (\<lambda>dp.
     bind (inode_at dp) (\<lambda>d.
     if i_type d \<noteq> T_DIR then panic ''dirlookup not DIR''
     else dirlookup_loop (Suc (Suc (unat (i_size d) div 16))) K dp name 0))))"

primrec dirlink_loop :: "nat \<Rightarrow> 'a system_scheme kparams \<Rightarrow> inode_id \<Rightarrow> 32 word \<Rightarrow> ('a system_scheme, 32 word) kmon" where
  "dirlink_loop 0 K dp off = fail Diverge"
| "dirlink_loop (Suc k) K dp off =
     bind (inode_at dp) (\<lambda>d.
     if off < i_size d then
       bind (readi_file K dp off 16) (\<lambda>r.
       case r of None \<Rightarrow> panic ''dirlink read'' | Some de \<Rightarrow>
       if length de \<noteq> 16 then panic ''dirlink read''
       else if dirent_inum de = 0 then return off
       else dirlink_loop k K dp (off + 16))
     else return off)"

definition dirlink :: "'a system_scheme kparams \<Rightarrow> inode_id \<Rightarrow> 8 word list \<Rightarrow> 32 word \<Rightarrow> ('a system_scheme, int) kmon" where
  "dirlink K dp name inum =
     bind (inode_at dp) (\<lambda>d.
     bind (if is_mount_point d then gets_fs mount_root else return (Some dp)) (\<lambda>r. deref r (\<lambda>dp.
     bind (dirlookup K dp name False) (\<lambda>r.
     case r of Some (ip, _) \<Rightarrow> bind (iput K ip) (\<lambda>_. return (- 1))
     | None \<Rightarrow>
     bind (inode_at dp) (\<lambda>d.
     bind (dirlink_loop (Suc (Suc (unat (i_size d) div 16))) K dp 0) (\<lambda>off.
     bind (upd_inode dp (\<lambda>y. y\<lparr>i_type := 1\<rparr>)) (\<lambda>_.
     bind (writei_file K dp (dirent_bytes (ucast inum) name) off) (\<lambda>r.
     if r \<noteq> 16 then panic ''dirlink''
     else bind (iupdate K dp) (\<lambda>_. return 0)))))))))"

section \<open>Paths\<close>

text \<open>A path is the list of its bytes without the terminator; 47 is the slash.\<close>

abbreviation (input) SLASH :: "8 word" where "SLASH \<equiv> 47"

definition skipelem :: "8 word list \<Rightarrow> (8 word list \<times> 8 word list) option" where
  "skipelem path =
     (let p = dropWhile (\<lambda>c. c = SLASH) path in
      if p = [] then None
      else Some (dropWhile (\<lambda>c. c = SLASH) (dropWhile (\<lambda>c. c \<noteq> SLASH) p),
                 take DIRSIZ (takeWhile (\<lambda>c. c \<noteq> SLASH) p)))"

text \<open>Every round of \<open>namex\<close> takes at least one byte of the path.\<close>

primrec namex_loop :: "nat \<Rightarrow> 'a system_scheme kparams \<Rightarrow> inode_id \<Rightarrow> 8 word list \<Rightarrow> bool \<Rightarrow> 8 word list \<Rightarrow>
    ('a system_scheme, inode_id option \<times> 8 word list) kmon" where
  "namex_loop 0 K ip path nameiparent name = fail Diverge"
| "namex_loop (Suc k) K ip path nameiparent name =
     (case skipelem path of
        None \<Rightarrow>
          if nameiparent then bind (iput K ip) (\<lambda>_. return (None, name))
          else return (Some ip, name)
      | Some (path, name) \<Rightarrow>
          bind (ilock K (Some ip)) (\<lambda>_.
          bind (inode_at ip) (\<lambda>i.
          if i_type i \<noteq> T_DIR then bind (iunlockput K ip) (\<lambda>_. return (None, name))
          else if nameiparent \<and> path = [] then bind (iunlock (Some ip)) (\<lambda>_. return (Some ip, name))
          else bind (dirlookup K ip name True) (\<lambda>r.
          case r of
            None \<Rightarrow> bind (iunlockput K ip) (\<lambda>_. return (None, name))
          | Some (nx, _) \<Rightarrow>
              bind (inode_at nx) (\<lambda>j.
              bind (if \<not> nameiparent \<and> is_mount_point j then
                      bind (gets_fs mount_root) (\<lambda>r. deref r (\<lambda>r. idup r))
                    else return nx) (\<lambda>nx.
              bind (iunlockput K ip) (\<lambda>_.
              namex_loop k K nx path nameiparent name)))))))"

definition my_cwd :: "('a system_scheme, inode_id) kmon" where
  "my_cwd = bind myproc (\<lambda>mp. deref mp (\<lambda>p. bind (proc_at p) (\<lambda>pp. deref (cwd pp) return)))"

definition set_cwd :: "inode_id option \<Rightarrow> ('a system_scheme, unit) kmon" where
  "set_cwd d = bind myproc (\<lambda>mp. deref mp (\<lambda>p. upd_proc p (\<lambda>x. x\<lparr>cwd := d\<rparr>)))"

definition namex :: "'a system_scheme kparams \<Rightarrow> 32 word \<Rightarrow> 8 word list \<Rightarrow> bool \<Rightarrow>
    ('a system_scheme, inode_id option \<times> 8 word list) kmon" where
  "namex K dev path nameiparent =
     bind (if path \<noteq> [] \<and> hd path = SLASH then iget dev ROOTINO else bind my_cwd idup) (\<lambda>ip.
     namex_loop (Suc (length path)) K ip path nameiparent [])"

definition dotdot :: "8 word list" where
  "dotdot = [46, 46]"

definition namei :: "'a system_scheme kparams \<Rightarrow> 32 word \<Rightarrow> 8 word list \<Rightarrow> ('a system_scheme, inode_id option) kmon" where
  "namei K dev path =
     bind (if dev = 0 then bind my_cwd (\<lambda>d. bind (inode_at d) (\<lambda>i. return (i_dev i))) else return dev) (\<lambda>dev.
     bind (if dev > 1 \<and> take 2 path = dotdot then
             bind my_cwd (\<lambda>d. bind (inode_at d) (\<lambda>i. return (i_inum i = ROOTINO)))
           else return False) (\<lambda>across.
     if across then
       bind my_cwd (\<lambda>old_cwd.
       bind (gets_fs mount_point) (\<lambda>mp.
       bind (set_cwd mp) (\<lambda>_.
       bind (iput K old_cwd) (\<lambda>_.
       bind (namex K 1 (dotdot @ [SLASH] @ dotdot) True) (\<lambda>r.
       bind (set_cwd (fst r)) (\<lambda>_.
       bind (iput K old_cwd) (\<lambda>_.
       return (fst r))))))))
     else bind (namex K dev path False) (\<lambda>r. return (fst r))))"

definition nameiparent :: "'a system_scheme kparams \<Rightarrow> 32 word \<Rightarrow> 8 word list \<Rightarrow>
    ('a system_scheme, inode_id option \<times> 8 word list) kmon" where
  "nameiparent K dev path = namex K dev path True"

section \<open>Path elements\<close>

text \<open>The elements of a path: what stands between the slashes, where it is not empty.\<close>

primrec split_slash :: "8 word list \<Rightarrow> 8 word list \<times> 8 word list list" where
  "split_slash [] = ([], [])"
| "split_slash (c # path) =
     (let (e, r) = split_slash path in if c = SLASH then ([], e # r) else (c # e, r))"

definition elems :: "8 word list \<Rightarrow> 8 word list list" where
  "elems path = filter (\<lambda>e. e \<noteq> []) (fst (split_slash path) # snd (split_slash path))"

lemma elems_Nil [simp]: "elems [] = []"
  by (simp add: elems_def)

lemma elems_slash [simp]: "elems (SLASH # path) = elems path"
  by (simp add: elems_def split: prod.split)

lemma elems_dropWhile [simp]: "elems (dropWhile (\<lambda>c. c = SLASH) path) = elems path"
  by (induction path) auto

lemma split_slash_takeWhile: "fst (split_slash path) = takeWhile (\<lambda>c. c \<noteq> SLASH) path"
  by (induction path) (auto split: prod.splits)

lemma split_slash_dropWhile:
  "snd (split_slash path) = (case dropWhile (\<lambda>c. c \<noteq> SLASH) path of [] \<Rightarrow> [] | _ # r \<Rightarrow> fst (split_slash r) # snd (split_slash r))"
  by (induction path) (auto split: prod.splits)

lemma elems_Cons:
  assumes "path \<noteq> []" "hd path \<noteq> SLASH"
  shows "elems path = takeWhile (\<lambda>c. c \<noteq> SLASH) path # elems (dropWhile (\<lambda>c. c \<noteq> SLASH) path)"
proof -
  have "takeWhile (\<lambda>c. c \<noteq> SLASH) path \<noteq> []" using assms by (cases path) auto
  moreover have "filter (\<lambda>e. e \<noteq> []) (snd (split_slash path)) = elems (dropWhile (\<lambda>c. c \<noteq> SLASH) path)"
  proof (cases "dropWhile (\<lambda>c. c \<noteq> SLASH) path")
    case (Cons c r)
    then have "c = SLASH" using hd_dropWhile [of "\<lambda>c. c \<noteq> SLASH" path] by simp
    with Cons show ?thesis by (simp add: split_slash_dropWhile [of path] elems_def split: prod.split)
  next
    case Nil
    then show ?thesis unfolding split_slash_dropWhile [of path] Nil by simp
  qed
  ultimately show ?thesis by (simp add: elems_def [of path] split_slash_takeWhile)
qed

text \<open>
  C19. \<open>skipelem\<close> splits off the first element of a path, cut to 14 bytes, and returns the rest
  without leading slashes; it returns null exactly when the path has no element. The rest is
  shorter than the path, so the loop of \<open>namex\<close> ends.
\<close>

theorem skipelem_elems:
  "case skipelem path of
     None \<Rightarrow> elems path = []
   | Some (rest, name) \<Rightarrow> elems path = hd (elems path) # elems rest \<and> name = take DIRSIZ (hd (elems path))
       \<and> (rest = [] \<or> hd rest \<noteq> SLASH) \<and> length rest < length path"
proof -
  define p where "p = dropWhile (\<lambda>c. c = SLASH) path"
  define q where "q = dropWhile (\<lambda>c. c \<noteq> SLASH) p"
  define r where "r = dropWhile (\<lambda>c. c = SLASH) q"
  have e: "elems path = elems p" by (simp add: p_def)
  show ?thesis
  proof (cases "p = []")
    case True
    moreover from True have "skipelem path = None" by (simp add: skipelem_def p_def Let_def)
    ultimately show ?thesis using e by simp
  next
    case False
    then have h: "hd p \<noteq> SLASH" unfolding p_def by (rule hd_dropWhile)
    have "length q < length p" using False h unfolding q_def
      by (cases p) (auto simp: le_imp_less_Suc length_dropWhile_le)
    then have "length r < length path"
      using length_dropWhile_le [of "\<lambda>c. c = SLASH" q] length_dropWhile_le [of "\<lambda>c. c = SLASH" path]
      unfolding r_def p_def by linarith
    moreover have "r = [] \<or> hd r \<noteq> SLASH" unfolding r_def using hd_dropWhile by blast
    moreover have "skipelem path = Some (r, take DIRSIZ (takeWhile (\<lambda>c. c \<noteq> SLASH) p))"
      using False by (simp add: skipelem_def p_def q_def r_def Let_def)
    ultimately show ?thesis using e elems_Cons [OF False h] by (simp add: q_def r_def)
  qed
qed

text \<open>The path \<open>///a//bb\<close> of the comment in the source.\<close>

lemma skipelem_elems_witness:
  "skipelem [47, 47, 47, 97, 47, 47, 98, 98] = Some ([98, 98], [97])
   \<and> elems [47, 47, 47, 97, 47, 47, 98, 98] = [[97], [98, 98]] \<and> elems [98, 98] = [[98, 98]]"
proof -
  have s: "skipelem [47, 47, 47, 97, 47, 47, 98, 98] = Some ([98, 98], [97])"
    by (simp add: skipelem_def Let_def)
  have e: "elems [98, 98] = [[98, 98]]" by (simp add: elems_def)
  have "elems [47, 47, 47, 97, 47, 47, 98, 98] = [[97], [98, 98]]"
    by (simp add: elems_def)
  with s e skipelem_elems [of "[47, 47, 47, 97, 47, 47, 98, 98]"] show ?thesis by simp
qed

section \<open>Directory entries\<close>

lemma place_at [simp]:
  "k < 256 \<Longrightarrow> length s \<le> 256 \<Longrightarrow> place s t (of_nat k) = (if k < length s then s ! k else 0)"
  "k < 256 \<Longrightarrow> length s \<le> 256 \<Longrightarrow> place s t (256 + of_nat k) = (if k < length t then t ! k else 0)"
proof -
  assume k: "k < 256" and s: "length s \<le> 256"
  have u: "unat (of_nat k :: 32 word) = k" "unat (256 + of_nat k :: 32 word) = 256 + k"
    using k by (simp_all add: unat_of_nat unat_word_ariths)
  show "place s t (of_nat k) = (if k < length s then s ! k else 0)" using k by (simp add: place_def u)
  show "place s t (256 + of_nat k) = (if k < length t then t ! k else 0)" using s by (simp add: place_def u)
qed

text \<open>The string in an array of bytes: up to the first zero.\<close>

definition name_of :: "8 word list \<Rightarrow> 8 word list" where
  "name_of = takeWhile (\<lambda>c. c \<noteq> 0)"

lemma cstr_nth:
  "(\<forall>i < length xs. m (p + of_nat i) = xs ! i \<and> xs ! i \<noteq> 0) \<Longrightarrow> m (p + of_nat (length xs)) = 0 \<Longrightarrow> cstr m p xs"
proof (induction xs arbitrary: p)
  case (Cons x xs)
  have "m p = x \<and> x \<noteq> 0" using Cons.prems(1) by (auto dest!: spec [of _ 0])
  moreover have "cstr m (p + 1) xs"
  proof (rule Cons.IH)
    show "\<forall>i < length xs. m (p + 1 + of_nat i) = xs ! i \<and> xs ! i \<noteq> 0"
    proof (intro allI impI)
      fix i
      assume "i < length xs"
      then show "m (p + 1 + of_nat i) = xs ! i \<and> xs ! i \<noteq> 0"
        using Cons.prems(1) [rule_format, of "Suc i"] by (simp add: ac_simps)
    qed
  qed (use Cons.prems(2) in \<open>simp add: ac_simps\<close>)
  ultimately show ?case by simp
qed simp

lemma name_of_nth:
  assumes "i < length (name_of xs)"
  shows "name_of xs ! i = xs ! i" "xs ! i \<noteq> 0"
  using assms nth_mem [OF assms] by (auto simp: name_of_def takeWhile_nth dest!: set_takeWhileD)

lemma place_cstr:
  assumes "length s < 256" "length t < 256"
  shows "cstr (place s t) 0 (name_of s)" "cstr (place s t) 256 (name_of t)"
proof -
  have l: "length (name_of xs) \<le> length xs" for xs by (simp add: name_of_def length_takeWhile_le)
  have z: "(if length (name_of xs) < length xs then xs ! length (name_of xs) else 0) = 0" for xs
    using nth_length_takeWhile [of "\<lambda>c. c \<noteq> 0" xs] by (auto simp: name_of_def)
  show "cstr (place s t) 0 (name_of s)"
    using assms l [of s] z [of s] place_at(1) [of _ s t] by (intro cstr_nth) (auto simp: name_of_nth)
  show "cstr (place s t) 256 (name_of t)"
    using assms l [of t] z [of t] place_at(2) [of _ s t] by (intro cstr_nth) (auto simp: name_of_nth)
qed

lemma namecmp_0:
  assumes "length s < 256" "length t < 256"
  shows "namecmp s t = 0 \<longleftrightarrow> take DIRSIZ (name_of s) = take DIRSIZ (name_of t)"
  using strncmp_loop_0 [OF place_cstr [OF assms], of DIRSIZ] by (simp add: namecmp_def strncmp_def)

lemma dirent_name_eq:
  assumes "length name < 256" "0 \<notin> set name"
  shows "dirent_name name = take DIRSIZ name @ replicate (DIRSIZ - length name) 0"
proof (rule nth_equalityI)
  have n: "name_of name = name" using assms(2) by (auto simp: name_of_def takeWhile_eq_all_conv)
  have c: "cstr (place name []) 0 name" using place_cstr(1) [of name "[]"] assms(1) n by simp
  have far: "\<forall>i \<le> length name. \<not> within 256 14 (0 + of_nat i)"
    using assms(1) by (auto simp: within_def unat_of_nat)
  have s: "strncpy_loop 14 256 0 (place name []) (256 + of_nat i) = (if i < length name then name ! i else 0)" if "i < 14" for i
    using strncpy_loop_spec [OF c _ far] that by (simp add: fits_def)
  show "length (dirent_name name) = length (take DIRSIZ name @ replicate (DIRSIZ - length name) 0)"
    by (simp add: dirent_name_def bytes_at_def)
  show "dirent_name name ! i = (take DIRSIZ name @ replicate (DIRSIZ - length name) 0) ! i" if "i < length (dirent_name name)" for i
    using that s [of i] by (auto simp: dirent_name_def bytes_at_def strncpy_def nth_append)
qed

text \<open>
  C22. A directory entry written by \<open>dirlink\<close> is 16 bytes long, \<open>dirlookup\<close> reads the same inode
  number back from it, and a name matches it exactly when it agrees in the first 14 bytes.
\<close>

theorem dirent_roundtrip:
  assumes "length name < 256" "0 \<notin> set name"
  shows "length (dirent_bytes inum name) = 16 \<and> dirent_inum (dirent_bytes inum name) = inum
    \<and> (\<forall>other. length other < 256 \<longrightarrow> 0 \<notin> set other \<longrightarrow>
         (namecmp other (drop 2 (dirent_bytes inum name)) = 0 \<longleftrightarrow> take DIRSIZ other = take DIRSIZ name))"
proof (intro conjI allI impI)
  have l: "length (dirent_name name) = 14" by (simp add: dirent_name_def bytes_at_def)
  then show "length (dirent_bytes inum name) = 16" by (simp add: dirent_bytes_def)
  have "place (dirent_bytes inum name) [] 0 = ucast inum" "place (dirent_bytes inum name) [] 1 = ucast (drop_bit 8 inum)"
    by (simp_all add: place_def dirent_bytes_def)
  then show "dirent_inum (dirent_bytes inum name) = inum"
    using load16_store16 [of 0 inum "\<lambda>_. 0"] by (simp add: dirent_inum_def load16_def store16_def)
  fix other :: "8 word list"
  assume o: "length other < 256" "0 \<notin> set other"
  have n: "name_of xs = xs" if "0 \<notin> set xs" for xs using that by (auto simp: name_of_def takeWhile_eq_all_conv)
  have "0 \<notin> set (take DIRSIZ name)" using assms(2) by (auto dest: in_set_takeD)
  then have "name_of (dirent_name name) = take DIRSIZ name"
    using assms(2) by (auto simp: dirent_name_eq [OF assms] name_of_def takeWhile_append takeWhile_replicate)
  then show "namecmp other (drop 2 (dirent_bytes inum name)) = 0 \<longleftrightarrow> take DIRSIZ other = take DIRSIZ name"
    using namecmp_0 [OF o(1), of "dirent_name name"] l n [OF o(2)] by (simp add: dirent_bytes_def)
qed

lemma dirent_roundtrip_witness:
  "dirent_inum (dirent_bytes 7 [97, 98]) = 7 \<and> namecmp [97, 98] (drop 2 (dirent_bytes 7 [97, 98])) = 0
   \<and> namecmp [97] (drop 2 (dirent_bytes 7 [97, 98])) \<noteq> 0"
  using dirent_roundtrip [of "[97, 98]" 7] by auto

end
