(* ===== verification/Kfile.thy ===== *)
theory Kfile
  imports Dir
begin

text \<open>
  The table of open files of \<open>kernel/fs/file.c\<close>, and \<open>pipealloc\<close> of \<open>kernel/ipc/pipe.c\<close>.
\<close>

section \<open>Files\<close>

definition file_at :: "nat \<Rightarrow> ('a system_scheme, kfile) kmon" where
  "file_at f = gets_fs (\<lambda>x. ftable x f)"

definition upd_file :: "nat \<Rightarrow> (kfile \<Rightarrow> kfile) \<Rightarrow> ('a system_scheme, unit) kmon" where
  "upd_file f g = upd_fs (\<lambda>x. x\<lparr>ftable := (ftable x)(f := g (ftable x f))\<rparr>)"

definition fileinit :: "('a system_scheme, unit) kmon" where
  "fileinit = initlock FtableLock"

primrec filealloc_loop :: "nat \<Rightarrow> nat \<Rightarrow> ('a system_scheme, nat option) kmon" where
  "filealloc_loop 0 f = bind (release FtableLock) (\<lambda>_. return None)"
| "filealloc_loop (Suc n) f =
     bind (file_at f) (\<lambda>x.
     if f_ref x = 0 then
       bind (upd_file f (\<lambda>x. x\<lparr>f_ref := 1\<rparr>)) (\<lambda>_.
       bind (release FtableLock) (\<lambda>_.
       return (Some f)))
     else filealloc_loop n (Suc f))"

definition filealloc :: "('a system_scheme, nat option) kmon" where
  "filealloc = bind (acquire FtableLock) (\<lambda>_. filealloc_loop NFILE 0)"

definition filedup :: "nat \<Rightarrow> ('a system_scheme, nat) kmon" where
  "filedup f =
     bind (acquire FtableLock) (\<lambda>_.
     bind (file_at f) (\<lambda>x.
     if f_ref x < 1 then panic ''filedup''
     else bind (upd_file f (\<lambda>x. x\<lparr>f_ref := f_ref x + 1\<rparr>)) (\<lambda>_.
     bind (release FtableLock) (\<lambda>_.
     return f))))"

definition fileclose :: "'a system_scheme kparams \<Rightarrow> nat \<Rightarrow> ('a system_scheme, unit) kmon" where
  "fileclose K f =
     bind (acquire FtableLock) (\<lambda>_.
     bind (file_at f) (\<lambda>x.
     if f_ref x < 1 then panic ''fileclose''
     else bind (upd_file f (\<lambda>x. x\<lparr>f_ref := f_ref x - 1\<rparr>)) (\<lambda>_.
     bind (file_at f) (\<lambda>ff.
     if f_ref ff > 0 then release FtableLock
     else bind (upd_file f (\<lambda>x. x\<lparr>f_ref := 0, f_type := FD_NONE\<rparr>)) (\<lambda>_.
     bind (release FtableLock) (\<lambda>_.
     if f_type ff = FD_PIPE then pipeclose (f_pipe ff) (f_writable ff)
     else cwhen (f_type ff = FD_INODE) (seqs [
       begin_op K,
       deref (f_ip ff) (iput K),
       end_op K])))))))"

text \<open>The layout of \<open>struct stat\<close>: two bytes of padding follow each of the two \<open>short\<close> fields.\<close>

definition word_bytes :: "32 word \<Rightarrow> 8 word list" where
  "word_bytes w = [ucast w, ucast (drop_bit 8 w), ucast (drop_bit 16 w), ucast (drop_bit 24 w)]"

definition half_bytes :: "16 word \<Rightarrow> 8 word list" where
  "half_bytes w = [ucast w, ucast (drop_bit 8 w)]"

definition put_stat :: "stat \<Rightarrow> ptr \<Rightarrow> ('a system_scheme, unit) kmon" where
  "put_stat st p = seqs [
     copy_to (word_bytes (st_dev st)) (p + 4),
     copy_to (word_bytes (st_ino st)) (p + 8),
     copy_to (half_bytes (st_type st)) p,
     copy_to (half_bytes (st_nlink st)) (p + 12),
     copy_to (word_bytes (st_size st)) (p + 16)]"

definition filestat :: "'a system_scheme kparams \<Rightarrow> nat \<Rightarrow> ptr \<Rightarrow> ('a system_scheme, int) kmon" where
  "filestat K f st =
     bind (file_at f) (\<lambda>x.
     if f_type x = FD_INODE then
       bind (ilock K (f_ip x)) (\<lambda>_.
       bind (deref (f_ip x) (\<lambda>ip. bind (stati ip) (\<lambda>r. put_stat r st))) (\<lambda>_.
       bind (iunlock (f_ip x)) (\<lambda>_.
       return 0)))
     else return (- 1))"

definition fileread :: "'a system_scheme kparams \<Rightarrow> nat \<Rightarrow> ptr \<Rightarrow> int \<Rightarrow> ('a system_scheme, int) kmon" where
  "fileread K f addr n =
     bind (file_at f) (\<lambda>x.
     if \<not> f_readable x then return (- 1)
     else if f_type x = FD_PIPE then piperead (env K) (f_pipe x) addr n
     else if f_type x = FD_INODE then
       bind (ilock K (f_ip x)) (\<lambda>_.
       bind (file_at f) (\<lambda>x.
       bind (deref (f_ip x) (\<lambda>ip. readi K ip addr (f_off x) (of_int n))) (\<lambda>r.
       bind (cwhen (r > 0) (upd_file f (\<lambda>x. x\<lparr>f_off := f_off x + of_int r\<rparr>))) (\<lambda>_.
       bind (iunlock (f_ip x)) (\<lambda>_.
       return r)))))
     else panic ''fileread'')"

text \<open>The bytes that one transaction of \<open>filewrite\<close> writes: \<open>((MAXOPBLOCKS-1-1-2) / 2) * 512\<close>.\<close>

abbreviation (input) MAXWRITE :: int where "MAXWRITE \<equiv> 1536"

primrec filewrite_loop :: "nat \<Rightarrow> 'a system_scheme kparams \<Rightarrow> nat \<Rightarrow> ptr \<Rightarrow> int \<Rightarrow> int \<Rightarrow> ('a system_scheme, int) kmon" where
  "filewrite_loop 0 K f addr n i = fail Diverge"
| "filewrite_loop (Suc k) K f addr n i =
     (if i < n then
        let n1 = min (n - i) MAXWRITE in
        bind (begin_op K) (\<lambda>_.
        bind (file_at f) (\<lambda>x.
        bind (ilock K (f_ip x)) (\<lambda>_.
        bind (file_at f) (\<lambda>x.
        bind (deref (f_ip x) (\<lambda>ip. writei K ip (addr + of_int i) (f_off x) (of_int n1))) (\<lambda>r.
        bind (cwhen (r > 0) (upd_file f (\<lambda>x. x\<lparr>f_off := f_off x + of_int r\<rparr>))) (\<lambda>_.
        bind (iunlock (f_ip x)) (\<lambda>_.
        bind (end_op K) (\<lambda>_.
        if r < 0 then return i
        else if r \<noteq> n1 then panic ''short filewrite''
        else filewrite_loop k K f addr n (i + r)))))))))
      else return i)"

definition filewrite :: "'a system_scheme kparams \<Rightarrow> nat \<Rightarrow> ptr \<Rightarrow> int \<Rightarrow> ('a system_scheme, int) kmon" where
  "filewrite K f addr n =
     bind (file_at f) (\<lambda>x.
     if \<not> f_writable x then return (- 1)
     else if f_type x = FD_PIPE then pipewrite (env K) (f_pipe x) addr n
     else if f_type x = FD_INODE then
       bind (filewrite_loop (Suc (nat n)) K f addr n 0) (\<lambda>i.
       return (if i = n then n else - 1))
     else panic ''filewrite'')"

section \<open>Creating a pipe\<close>

definition pipealloc_bad :: "'a system_scheme kparams \<Rightarrow> ptr \<Rightarrow> nat option \<Rightarrow> nat option \<Rightarrow> ('a system_scheme, (nat \<times> nat) option) kmon" where
  "pipealloc_bad K p f0 f1 =
     bind (cwhen (p \<noteq> 0) (kfree p)) (\<lambda>_.
     bind (case f0 of None \<Rightarrow> return () | Some f \<Rightarrow> fileclose K f) (\<lambda>_.
     bind (case f1 of None \<Rightarrow> return () | Some f \<Rightarrow> fileclose K f) (\<lambda>_.
     return None)))"

definition pipealloc :: "'a system_scheme kparams \<Rightarrow> ('a system_scheme, (nat \<times> nat) option) kmon" where
  "pipealloc K =
     bind filealloc (\<lambda>f0. case f0 of None \<Rightarrow> pipealloc_bad K 0 None None | Some a \<Rightarrow>
     bind filealloc (\<lambda>f1. case f1 of None \<Rightarrow> pipealloc_bad K 0 f0 None | Some b \<Rightarrow>
     bind kalloc (\<lambda>p.
     if p = 0 then pipealloc_bad K 0 f0 f1
     else bind (upd_pipe p (\<lambda>q. q\<lparr>readopen := True, writeopen := True, nwrite := 0, nread := 0\<rparr>)) (\<lambda>_.
     bind (initlock (pipe_lock p)) (\<lambda>_.
     bind (upd_file a (\<lambda>x. x\<lparr>f_type := FD_PIPE, f_readable := True, f_writable := False, f_pipe := p\<rparr>)) (\<lambda>_.
     bind (upd_file b (\<lambda>x. x\<lparr>f_type := FD_PIPE, f_readable := False, f_writable := True, f_pipe := p\<rparr>)) (\<lambda>_.
     return (Some (a, b)))))))))"

end
