(* ===== verification/Ide.thy ===== *)
theory Ide
  imports Fslog
begin

text \<open>
  The disk driver of \<open>kernel/drivers/ide.c\<close>, which talks to the controllers through the I/O ports.
\<close>

section \<open>Ports\<close>

abbreviation (input) BASEPORT1 :: "32 word" where "BASEPORT1 \<equiv> 0x1f0"
abbreviation (input) BASEPORT2 :: "32 word" where "BASEPORT2 \<equiv> 0x170"
abbreviation (input) BASEPORT3 :: "32 word" where "BASEPORT3 \<equiv> 0x1e8"
abbreviation (input) BASEPORT4 :: "32 word" where "BASEPORT4 \<equiv> 0x168"
abbreviation (input) CONTROLBASE1 :: "32 word" where "CONTROLBASE1 \<equiv> 0x3f6"
abbreviation (input) CONTROLBASE2 :: "32 word" where "CONTROLBASE2 \<equiv> 0x376"
abbreviation (input) CONTROLBASE3 :: "32 word" where "CONTROLBASE3 \<equiv> 0x3e6"
abbreviation (input) CONTROLBASE4 :: "32 word" where "CONTROLBASE4 \<equiv> 0x366"
abbreviation (input) IDE_CMD_READ :: "32 word" where "IDE_CMD_READ \<equiv> 0x20"
abbreviation (input) IDE_CMD_WRITE :: "32 word" where "IDE_CMD_WRITE \<equiv> 0x30"

definition outb :: "32 word \<Rightarrow> 32 word \<Rightarrow> ('a system_scheme, unit) kmon" where
  "outb p v = upd_fs (\<lambda>x. x\<lparr>ports := Outb p (ucast v) # ports x\<rparr>)"

definition outsl :: "32 word \<Rightarrow> bytes \<Rightarrow> ('a system_scheme, unit) kmon" where
  "outsl p d = upd_fs (\<lambda>x. x\<lparr>ports := Outsl p d # ports x\<rparr>)"

definition inb :: "'a system_scheme kparams \<Rightarrow> 32 word \<Rightarrow> ('a system_scheme, 32 word) kmon" where
  "inb K p = gets_fs (\<lambda>x. ucast (port_in K (ports x) p))"

definition disk_query :: "('a system_scheme, 8 word) kmon" where
  "disk_query = gets_fs disk_presence"

section \<open>Waiting\<close>

text \<open>The selection of a disk on first use: its bit of \<open>startup\<close>, the port and the value.\<close>

definition select_once :: "8 word \<Rightarrow> 32 word \<Rightarrow> 32 word \<Rightarrow> ('a system_scheme, unit) kmon" where
  "select_once m p v =
     bind (gets_fs startup) (\<lambda>st.
     cwhen (st AND m = 0) (seqs [
       outb p v,
       upd_fs (\<lambda>x. x\<lparr>startup := startup x OR m\<rparr>)]))"

text \<open>The polling loop of \<open>idewait\<close>. Its body returns in every case, so one round is enough.\<close>

primrec idewait_loop :: "nat \<Rightarrow> 'a system_scheme kparams \<Rightarrow> 32 word \<Rightarrow> bool \<Rightarrow> ('a system_scheme, int) kmon" where
  "idewait_loop 0 K port checkerr = fail Diverge"
| "idewait_loop (Suc n) K port checkerr =
     bind (inb K port) (\<lambda>r.
     if r AND 0xC0 = 0x40 then return 0
     else if r AND 0xFF \<noteq> 0 then return (- 1)
     else if r = 0 then return (- 1)
     else if checkerr \<and> r AND 0x21 \<noteq> 0 then return (- 1)
     else idewait_loop n K port checkerr)"

definition idewait :: "'a system_scheme kparams \<Rightarrow> 32 word \<Rightarrow> bool \<Rightarrow> ('a system_scheme, int) kmon" where
  "idewait K dev checkerr =
     bind (seqs [
       select_once 0x04 (BASEPORT2 + 6) 0xe0,
       select_once 0x08 (BASEPORT2 + 6) 0xf0,
       select_once 0x10 (BASEPORT3 + 6) 0xe0,
       select_once 0x20 (BASEPORT3 + 6) 0xf0,
       select_once 0x40 (BASEPORT4 + 6) 0xe0,
       select_once 0x80 (BASEPORT4 + 6) 0xf0]) (\<lambda>_.
     idewait_loop (Suc 0) K (if dev = 2 then BASEPORT2 + 7 else BASEPORT1 + 7) checkerr)"

section \<open>Initialisation\<close>

primrec probe_loop :: "nat \<Rightarrow> 'a system_scheme kparams \<Rightarrow> 32 word \<Rightarrow> 8 word \<Rightarrow> ('a system_scheme, unit) kmon" where
  "probe_loop 0 K port m = return ()"
| "probe_loop (Suc n) K port m =
     bind (inb K port) (\<lambda>r.
     if r \<noteq> 0 \<and> r \<noteq> 0xff then upd_fs (\<lambda>x. x\<lparr>disk_presence := disk_presence x OR m\<rparr>)
     else probe_loop n K port m)"

definition probe :: "'a system_scheme kparams \<Rightarrow> 32 word \<Rightarrow> 32 word \<Rightarrow> 8 word \<Rightarrow> ('a system_scheme, unit) kmon" where
  "probe K base sel m = seqs [outb (base + 6) sel, probe_loop 1000 K (base + 7) m]"

text \<open>Routing the two disk interrupts to the last CPU is left to the interrupt controller.\<close>

definition ideinit :: "'a system_scheme kparams \<Rightarrow> ('a system_scheme, unit) kmon" where
  "ideinit K = seqs [
     initlock (IdeLock 1),
     upd_fs (\<lambda>x. x\<lparr>disk_presence := 0\<rparr>),
     bind (idewait K 1 False) (\<lambda>_. return ()),
     bind (idewait K 2 False) (\<lambda>_. return ()),
     probe K BASEPORT1 0xe0 0x01,
     probe K BASEPORT1 0xf0 0x02,
     probe K BASEPORT2 0xe0 0x04,
     probe K BASEPORT2 0xf0 0x08,
     probe K BASEPORT3 0xe0 0x10,
     probe K BASEPORT3 0xf0 0x20,
     probe K BASEPORT4 0xe0 0x40,
     probe K BASEPORT4 0xf0 0x80,
     outb (BASEPORT1 + 7) 0xe0,
     bind disk_query (\<lambda>m. cwhen (m AND 0x01 = 0) (panic ''Missing disk 1'')),
     bind disk_query (\<lambda>m. cwhen (m AND 0x02 = 0) (panic ''Missing disk 2'')),
     bind disk_query (\<lambda>m. cwhen (m AND 0x04 = 0) (panic ''Missing disk 3''))]"

section \<open>Requests\<close>

text \<open>The command for a block on the controller with the given ports.\<close>

definition ide_command :: "'a system_scheme kparams \<Rightarrow> 32 word \<Rightarrow> 32 word \<Rightarrow> 32 word \<Rightarrow> 32 word \<Rightarrow> buf \<Rightarrow> ('a system_scheme, unit) kmon" where
  "ide_command K wdev control base drive x =
     (let sector = b_blockno x in
      bind (idewait K wdev False) (\<lambda>_. seqs [
        outb control 0,
        outb (base + 2) 1,
        outb (base + 3) (sector AND 0xff),
        outb (base + 4) (drop_bit 8 sector AND 0xff),
        outb (base + 5) (drop_bit 16 sector AND 0xff),
        outb (base + 6) (0xe0 OR push_bit 4 drive OR (drop_bit 24 sector AND 0x0f)),
        if b_dirty x then seqs [outb (base + 7) IDE_CMD_WRITE, outsl base (b_data x)]
        else outb (base + 7) IDE_CMD_READ]))"

text \<open>A block is one sector, so the branches for several sectors per block are never taken.\<close>

definition idestart :: "'a system_scheme kparams \<Rightarrow> 32 word \<Rightarrow> nat \<Rightarrow> ('a system_scheme, unit) kmon" where
  "idestart K dev b =
     bind (buf_at b) (\<lambda>x.
     if b_blockno x \<ge> FSSIZE then panic ''incorrect blockno''
     else if dev = 1 then ide_command K 1 CONTROLBASE1 BASEPORT1 (b_dev x AND 1) x
     else if dev = 2 then ide_command K 2 CONTROLBASE2 BASEPORT2 (b_dev x) x
     else if dev = 3 then ide_command K 3 CONTROLBASE2 BASEPORT2 (b_dev x) x
     else if dev = 4 then ide_command K 4 CONTROLBASE3 BASEPORT3 (b_dev x) x
     else if dev = 5 then ide_command K 5 CONTROLBASE3 BASEPORT3 (b_dev x) x
     else if dev = 6 then ide_command K 6 CONTROLBASE4 BASEPORT4 (b_dev x) x
     else if dev = 7 then ide_command K 6 CONTROLBASE4 BASEPORT4 (b_dev x) x
     else return ())"

definition set_idequeue :: "32 word \<Rightarrow> nat option \<Rightarrow> ('a system_scheme, unit) kmon" where
  "set_idequeue dev q = upd_fs (\<lambda>x. x\<lparr>idequeue := (idequeue x)(dev := q)\<rparr>)"

text \<open>The request that has finished: its data, its flags and the process that waits for it.\<close>

definition finish_request :: "'a system_scheme kparams \<Rightarrow> 32 word \<Rightarrow> 32 word \<Rightarrow> nat \<Rightarrow> ('a system_scheme, unit) kmon" where
  "finish_request K wdev base b =
     bind (buf_at b) (\<lambda>x.
     bind (cwhen (\<not> b_dirty x) (
       bind (idewait K wdev True) (\<lambda>r.
       cwhen (r \<ge> 0) (upd_fs (\<lambda>y. y\<lparr>bufs := (bufs y)(b := (bufs y b)\<lparr>b_data :=
         move_block (port_data K (disk y) (ports y) base) (b_data (bufs y b))\<rparr>)\<rparr>))))) (\<lambda>_. seqs [
       upd_buf b (\<lambda>x. x\<lparr>b_valid := True\<rparr>),
       upd_buf b (\<lambda>x. x\<lparr>b_dirty := False\<rparr>),
       wakeup (Some (ChBuf b))]))"

definition ideintr :: "'a system_scheme kparams \<Rightarrow> ('a system_scheme, unit) kmon" where
  "ideintr K =
     bind (acquire (IdeLock 1)) (\<lambda>_.
     bind (gets_fs (\<lambda>x. idequeue x 1)) (\<lambda>q.
     case q of None \<Rightarrow> release (IdeLock 1)
     | Some b \<Rightarrow>
         bind (buf_at b) (\<lambda>x.
         bind (set_idequeue 1 (b_qnext x)) (\<lambda>_.
         bind (finish_request K (b_dev x) BASEPORT1 b) (\<lambda>_.
         bind (gets_fs (\<lambda>x. idequeue x 1)) (\<lambda>q.
         bind (case q of None \<Rightarrow> return ()
               | Some c \<Rightarrow>
                   bind (buf_at c) (\<lambda>y. seqs [
                     idestart K (b_dev y) c,
                     bind (buf_at c) (\<lambda>y. set_idequeue 1 (b_qnext y)),
                     release (IdeLock 1)])) (\<lambda>_.
         release (IdeLock 1))))))))"

definition ideintr2 :: "'a system_scheme kparams \<Rightarrow> ('a system_scheme, unit) kmon" where
  "ideintr2 K =
     bind (acquire (IdeLock 2)) (\<lambda>_.
     bind (gets_fs (\<lambda>x. idequeue x 2)) (\<lambda>q.
     case q of None \<Rightarrow> release (IdeLock 1)
     | Some b \<Rightarrow>
         bind (buf_at b) (\<lambda>x.
         bind (set_idequeue 2 (b_qnext x)) (\<lambda>_.
         bind (finish_request K 2 BASEPORT2 b) (\<lambda>_.
         bind (gets_fs (\<lambda>x. idequeue x 2)) (\<lambda>q.
         bind (case q of None \<Rightarrow> return ()
               | Some c \<Rightarrow>
                   bind (buf_at c) (\<lambda>y. seqs [
                     idestart K (b_dev y) c,
                     bind (buf_at c) (\<lambda>y. set_idequeue 2 (b_qnext y))])) (\<lambda>_.
         release (IdeLock 2))))))))"

text \<open>Append to a queue: follow \<open>qnext\<close> to its last request.\<close>

primrec ide_append :: "nat \<Rightarrow> nat \<Rightarrow> nat \<Rightarrow> ('a system_scheme, unit) kmon" where
  "ide_append 0 c b = fail Diverge"
| "ide_append (Suc n) c b =
     bind (buf_at c) (\<lambda>y.
     case b_qnext y of
       None \<Rightarrow> upd_buf c (\<lambda>y. y\<lparr>b_qnext := Some b\<rparr>)
     | Some d \<Rightarrow> ide_append n d b)"

primrec ide_sleep :: "nat \<Rightarrow> 'a system_scheme environment \<Rightarrow> nat \<Rightarrow> lockid \<Rightarrow> ('a system_scheme, unit) kmon" where
  "ide_sleep 0 e b l = fail Diverge"
| "ide_sleep (Suc n) e b l =
     bind (buf_at b) (\<lambda>x.
     if b_valid x \<and> \<not> b_dirty x then return ()
     else bind (sleep e (Some (ChBuf b)) (Some l)) (\<lambda>_. ide_sleep n e b l))"

text \<open>The eight cases of \<open>iderw\<close> differ in the lock and the queue of the device only.\<close>

definition iderw :: "'a system_scheme kparams \<Rightarrow> nat \<Rightarrow> 32 word \<Rightarrow> ('a system_scheme, unit) kmon" where
  "iderw K b dev =
     bind (holdingsleep (BufLock b)) (\<lambda>h.
     if \<not> h then panic ''iderw: buf not locked''
     else bind (buf_at b) (\<lambda>x.
     if b_valid x \<and> \<not> b_dirty x then panic ''iderw: nothing to do''
     else cwhen (1 \<le> dev \<and> dev \<le> 8) (let l = IdeLock (unat dev) in
       bind (acquire l) (\<lambda>_.
       bind (upd_buf b (\<lambda>x. x\<lparr>b_qnext := None\<rparr>)) (\<lambda>_.
       bind (gets_fs (\<lambda>x. idequeue x dev)) (\<lambda>q.
       bind (case q of None \<Rightarrow> set_idequeue dev (Some b) | Some c \<Rightarrow> ide_append (Suc NBUF) c b) (\<lambda>_.
       bind (gets_fs (\<lambda>x. idequeue x dev)) (\<lambda>q.
       bind (cwhen (q = Some b) (bind (buf_at b) (\<lambda>x. idestart K (b_dev x) b))) (\<lambda>_.
       bind (gets switches) (\<lambda>k.
       bind (ide_sleep (Suc k) (env K) b l) (\<lambda>_.
       release l)))))))))))"

end
