(* ===== verification/Proc.thy ===== *)
theory Proc
  imports Kfile Ide
begin

text \<open>
  The life of a process in \<open>kernel/sched/proc.c\<close>: creation, growth, \<open>fork\<close>, \<open>exit\<close> and \<open>wait\<close>.
\<close>

section \<open>Process table\<close>

primrec find_proc :: "nat \<Rightarrow> nat \<Rightarrow> (nat \<Rightarrow> bool) \<Rightarrow> nat option" where
  "find_proc 0 i P = None"
| "find_proc (Suc n) i P = (if P i then Some i else find_proc n (Suc i) P)"

primrec freemem_loop :: "nat \<Rightarrow> nat \<Rightarrow> 32 word \<Rightarrow> ('a system_scheme, 32 word) kmon" where
  "freemem_loop 0 i acc = return acc"
| "freemem_loop (Suc n) i acc =
     bind (proc_at i) (\<lambda>p.
     if state p \<noteq> UNUSED then
       bind (tally_page_directory (pgdir p)) (\<lambda>k. freemem_loop n (Suc i) (acc + k))
     else freemem_loop n (Suc i) acc)"

definition freemem :: "('a system_scheme, 32 word) kmon" where
  "freemem =
     bind (acquire PtableLock) (\<lambda>_.
     bind (freemem_loop NPROC 0 0) (\<lambda>acc.
     bind (release PtableLock) (\<lambda>_.
     return acc)))"

text \<open>
  The trap frame and the saved registers at the top of the new kernel stack, which let the
  process start in \<open>forkret\<close>, are not part of the memory of the model: the trap frame is a field
  of the process, and what the registers resume is modelled by the routine itself.
\<close>

definition allocproc :: "('a system_scheme, nat option) kmon" where
  "allocproc =
     bind (acquire PtableLock) (\<lambda>_.
     bind (gets (\<lambda>s. find_proc NPROC 0 (\<lambda>i. state (ptable s i) = UNUSED))) (\<lambda>r.
     case r of
       None \<Rightarrow> bind (release PtableLock) (\<lambda>_. return None)
     | Some p \<Rightarrow>
         bind (upd_proc p (\<lambda>x. x\<lparr>state := EMBRYO\<rparr>)) (\<lambda>_.
         bind (gets nextpid) (\<lambda>n.
         bind (upd_proc p (\<lambda>x. x\<lparr>pid := n\<rparr>)) (\<lambda>_.
         bind (modify (\<lambda>s. s\<lparr>nextpid := n + 1\<rparr>)) (\<lambda>_.
         bind (release PtableLock) (\<lambda>_.
         bind kalloc (\<lambda>k.
         bind (upd_proc p (\<lambda>x. x\<lparr>kstack := k\<rparr>)) (\<lambda>_.
         if k = 0 then bind (upd_proc p (\<lambda>x. x\<lparr>state := UNUSED\<rparr>)) (\<lambda>_. return None)
         else return (Some p))))))))))"

primrec init_runqueues :: "nat \<Rightarrow> nat \<Rightarrow> ('a system_scheme, unit) kmon" where
  "init_runqueues 0 i = return ()"
| "init_runqueues (Suc n) i = bind (initprocqueue (RunQ i)) (\<lambda>_. init_runqueues n (Suc i))"

text \<open>The program of the first process is in the kernel image; the linker gives its address and size.\<close>

definition user_frame :: trapframe where
  "user_frame = \<lparr>eax = 0, esp = PGSIZE, eip = 0, eflags = 0x200, cs = 0x1B, ds = 0x23, es = 0x23, ss = 0x23, trapno = 0\<rparr>"

definition userinit :: "'a system_scheme kparams \<Rightarrow> ptr \<Rightarrow> 32 word \<Rightarrow> ('a system_scheme, unit) kmon" where
  "userinit K initcode_start initcode_size =
     bind num_cpus (\<lambda>n.
     bind (if n = 0 then initprocqueue (RunQ 0) else init_runqueues n 0) (\<lambda>_.
     bind (initprocqueue SleepQ) (\<lambda>_.
     bind (initprocqueue ReadyQ) (\<lambda>_.
     bind allocproc (\<lambda>r.
     bind (modify (\<lambda>s. s\<lparr>initproc := r\<rparr>)) (\<lambda>_.
     bind setupkvm (\<lambda>d.
     deref r (\<lambda>p.
     bind (upd_proc p (\<lambda>x. x\<lparr>pgdir := d\<rparr>)) (\<lambda>_.
     if d = 0 then panic ''userinit: out of memory?''
     else bind (inituvm d initcode_start initcode_size) (\<lambda>_.
     bind (upd_proc p (\<lambda>x. x\<lparr>sz := PGSIZE, tf := user_frame, space_flag := USER_PROC,
             p_time_quantum := DEFAULT_USER_TIME_QUANTUM, child_pri := CHILD_SAME_PRI,
             p_pri := MED_USER_PRIORITY, signal_handler := 0, p_ign := 0, p_sig := 0,
             pname := ''initcode''\<rparr>)) (\<lambda>_.
     bind (namei K 1 [SLASH]) (\<lambda>d.
     bind (upd_proc p (\<lambda>x. x\<lparr>cwd := d\<rparr>)) (\<lambda>_.
     bind (acquire PtableLock) (\<lambda>_.
     bind (upd_proc p (\<lambda>x. x\<lparr>state := RUNNABLE, nxt := None, prv := None, queue_mask := 0, curr_cpu := NOCPU\<rparr>)) (\<lambda>_.
     bind (insert_proc_into_queue p (Some ReadyQ)) (\<lambda>_.
     release PtableLock))))))))))))))))"

section \<open>Growing a process\<close>

definition growproc :: "int \<Rightarrow> ('a system_scheme, int) kmon" where
  "growproc n =
     bind myproc (\<lambda>mp. deref mp (\<lambda>p.
     bind (proc_at p) (\<lambda>pp.
     bind (if n > 0 then allocuvm (pgdir pp) (sz pp) (sz pp + of_int n) False
           else if n < 0 then deallocuvm (pgdir pp) (sz pp) (sz pp + of_int n)
           else return (sz pp)) (\<lambda>newsz.
     if n \<noteq> 0 \<and> newsz = 0 then return (- 1)
     else bind (upd_proc p (\<lambda>x. x\<lparr>sz := newsz\<rparr>)) (\<lambda>_.
     bind (switchuvm (Some p)) (\<lambda>_.
     return 0))))))"

section \<open>Fork\<close>

definition child_of :: "proc \<Rightarrow> nat \<Rightarrow> proc \<Rightarrow> proc" where
  "child_of parent_proc parent_slot x = x\<lparr>
     sz := sz parent_proc, parent := Some parent_slot, tf := tf parent_proc,
     p_flag := 0, queue_mask := 0,
     p_pri := (if child_pri parent_proc = CHILD_SAME_PRI then p_pri parent_proc
               else if p_pri parent_proc = 0 then LOW_USER_PRIORITY else p_pri parent_proc - 1),
     p_cpu_usage := 0, p_time_quantum := p_cpu_usage parent_proc sdiv 2,
     signal_handler := 0, p_ign := 0, p_sig := 0\<rparr>"

primrec fork_files :: "nat \<Rightarrow> nat \<Rightarrow> nat \<Rightarrow> nat \<Rightarrow> ('a system_scheme, unit) kmon" where
  "fork_files 0 i p np = return ()"
| "fork_files (Suc n) i p np =
     bind (proc_at p) (\<lambda>pp.
     bind (case ofile pp i of None \<Rightarrow> return ()
           | Some f \<Rightarrow> bind (filedup f) (\<lambda>g. upd_proc np (\<lambda>x. x\<lparr>ofile := (ofile x)(i := Some g)\<rparr>))) (\<lambda>_.
     fork_files n (Suc i) p np))"

definition fork :: "('a system_scheme, int) kmon" where
  "fork =
     bind myproc (\<lambda>mp.
     bind allocproc (\<lambda>r.
     case r of None \<Rightarrow> return (- 1)
     | Some np \<Rightarrow> deref mp (\<lambda>p.
     bind (proc_at p) (\<lambda>pp.
     bind (copyuvm (pgdir pp) (sz pp)) (\<lambda>d.
     bind (upd_proc np (\<lambda>x. x\<lparr>pgdir := d\<rparr>)) (\<lambda>_.
     if d = 0 then
       bind (proc_at np) (\<lambda>x.
       bind (kfree (kstack x)) (\<lambda>_.
       bind (upd_proc np (\<lambda>x. x\<lparr>kstack := 0, state := UNUSED\<rparr>)) (\<lambda>_.
       return (- 1))))
     else bind (proc_at p) (\<lambda>pp.
     bind (upd_proc np (child_of pp p)) (\<lambda>_.
     bind (proc_at np) (\<lambda>x.
     bind (upd_proc p (\<lambda>y. y\<lparr>p_time_quantum := p_time_quantum y - p_time_quantum x\<rparr>)) (\<lambda>_.
     bind (fork_files NOFILE 0 p np) (\<lambda>_.
     deref (cwd pp) (\<lambda>c.
     bind (idup c) (\<lambda>d.
     bind (upd_proc np (\<lambda>x. x\<lparr>cwd := Some d, pname := pname pp, tf := (tf x)\<lparr>eax := 0\<rparr>,
             nxt := None, prv := None, curr_cpu := NOCPU, curr := None\<rparr>)) (\<lambda>_.
     bind (acquire PtableLock) (\<lambda>_.
     bind (upd_proc np (\<lambda>x. x\<lparr>state := RUNNABLE\<rparr>)) (\<lambda>_.
     bind (release PtableLock) (\<lambda>_.
     bind (insert_proc_into_queue np (Some ReadyQ)) (\<lambda>_.
     return (pid x)))))))))))))))))))"

section \<open>Exit and wait\<close>

primrec exit_files :: "nat \<Rightarrow> nat \<Rightarrow> 'a system_scheme kparams \<Rightarrow> nat \<Rightarrow> ('a system_scheme, unit) kmon" where
  "exit_files 0 fd K p = return ()"
| "exit_files (Suc n) fd K p =
     bind (proc_at p) (\<lambda>pp.
     bind (case ofile pp fd of None \<Rightarrow> return ()
           | Some f \<Rightarrow> bind (fileclose K f) (\<lambda>_. upd_proc p (\<lambda>x. x\<lparr>ofile := (ofile x)(fd := None)\<rparr>))) (\<lambda>_.
     exit_files n (Suc fd) K p))"

definition proc_chan :: "nat option \<Rightarrow> chan option" where
  "proc_chan p = map_option ChProc p"

primrec exit_children :: "nat \<Rightarrow> nat \<Rightarrow> nat \<Rightarrow> ('a system_scheme, unit) kmon" where
  "exit_children 0 i p = return ()"
| "exit_children (Suc n) i p =
     bind (proc_at i) (\<lambda>x.
     bind (cwhen (parent x = Some p) (
       bind (gets initproc) (\<lambda>ini. seqs [
         upd_proc i (\<lambda>x. x\<lparr>parent := ini\<rparr>),
         wakeup1 (proc_chan ini)]))) (\<lambda>_.
     exit_children n (Suc i) p))"

text \<open>\<open>exit\<close> does not return: after \<open>sched\<close> it panics.\<close>

definition exit :: "'a system_scheme kparams \<Rightarrow> ('a system_scheme, unit) kmon" where
  "exit K =
     bind myproc (\<lambda>mp.
     bind (gets initproc) (\<lambda>ini.
     if mp = ini then panic ''initproc exiting''
     else deref mp (\<lambda>p. seqs [
       exit_files NOFILE 0 K p,
       begin_op K,
       bind (proc_at p) (\<lambda>pp. deref (cwd pp) (iput K)),
       end_op K,
       upd_proc p (\<lambda>x. x\<lparr>cwd := None\<rparr>),
       acquire PtableLock,
       bind (proc_at p) (\<lambda>pp. wakeup1 (proc_chan (parent pp))),
       exit_children NPROC 0 p,
       upd_proc p (\<lambda>x. x\<lparr>state := ZOMBIE\<rparr>),
       upd_proc p (\<lambda>x. x\<lparr>killed := True\<rparr>),
       bind (proc_at p) (\<lambda>pp. modify (\<lambda>s. s\<lparr>nextpid := pid pp\<rparr>)),
       bind (proc_at p) (\<lambda>pp. update_cpu_avg (of_int (p_cpu_usage pp))),
       bind (proc_at p) (\<lambda>pp.
         if curr_cpu pp \<noteq> NOCPU then seqs [
           remove_proc_from_queue p (Some (RunQ (curr_cpu pp))),
           upd_proc p (\<lambda>x. x\<lparr>curr_cpu := NOCPU\<rparr>)]
         else cwhen (curr pp \<noteq> None) (remove_proc_from_queue p (curr pp))),
       sched (env K),
       panic ''zombie exit''])))"

text \<open>The scan of \<open>wait\<close>: an exited child, or whether there are children at all.\<close>

datatype wait_result = Zombie nat | Kids bool

primrec wait_scan :: "nat \<Rightarrow> nat \<Rightarrow> bool \<Rightarrow> nat \<Rightarrow> (nat \<Rightarrow> proc) \<Rightarrow> wait_result" where
  "wait_scan 0 i havekids p T = Kids havekids"
| "wait_scan (Suc n) i havekids p T =
     (if parent (T i) \<noteq> Some p then wait_scan n (Suc i) havekids p T
      else if state (T i) = ZOMBIE then Zombie i
      else wait_scan n (Suc i) True p T)"

definition reap :: "nat \<Rightarrow> ('a system_scheme, int) kmon" where
  "reap i =
     bind (proc_at i) (\<lambda>x.
     bind (kfree (kstack x)) (\<lambda>_.
     bind (upd_proc i (\<lambda>x. x\<lparr>kstack := 0\<rparr>)) (\<lambda>_.
     bind (freevm (pgdir x)) (\<lambda>_.
     bind (upd_proc i (\<lambda>x. x\<lparr>pid := 0, parent := None, pname := [], killed := False, state := UNUSED\<rparr>)) (\<lambda>_.
     bind (release PtableLock) (\<lambda>_.
     return (pid x)))))))"

primrec wait_loop :: "nat \<Rightarrow> 'a system_scheme environment \<Rightarrow> nat \<Rightarrow> ('a system_scheme, int) kmon" where
  "wait_loop 0 e p = fail Diverge"
| "wait_loop (Suc n) e p =
     bind (gets (\<lambda>s. wait_scan NPROC 0 False p (ptable s))) (\<lambda>r.
     case r of
       Zombie i \<Rightarrow> reap i
     | Kids havekids \<Rightarrow>
         bind (proc_at p) (\<lambda>pp.
         if \<not> havekids \<or> killed pp then bind (release PtableLock) (\<lambda>_. return (- 1))
         else bind (sleep e (Some (ChProc p)) (Some PtableLock)) (\<lambda>_. wait_loop n e p)))"

definition wait :: "'a system_scheme kparams \<Rightarrow> ('a system_scheme, int) kmon" where
  "wait K =
     bind myproc (\<lambda>mp. deref mp (\<lambda>p.
     bind (acquire PtableLock) (\<lambda>_.
     bind (gets switches) (\<lambda>k.
     wait_loop (Suc k) (env K) p))))"

definition forkret :: "'a system_scheme kparams \<Rightarrow> ('a system_scheme, unit) kmon" where
  "forkret K =
     bind (release PtableLock) (\<lambda>_.
     bind (gets_fs first_run) (\<lambda>first.
     cwhen first (seqs [
       upd_fs (\<lambda>x. x\<lparr>first_run := False\<rparr>),
       iinit K 1,
       iinit K 2,
       initlog K 1,
       initlog K 2,
       init_cpu_avg_counter])))"

end
