(* ===== verification/Exec.thy ===== *)
theory Exec
  imports Proc
begin

text \<open>
  \<open>exec\<close> of \<open>kernel/exec.c\<close>, with \<open>loaduvm\<close> of \<open>kernel/arch/x86_32/mem/vm.c\<close>.
\<close>

section \<open>Loading a segment\<close>

primrec loaduvm_loop :: "nat \<Rightarrow> 'a system_scheme kparams \<Rightarrow> ptr \<Rightarrow> ptr \<Rightarrow> inode_id \<Rightarrow> 32 word \<Rightarrow> 32 word \<Rightarrow> 32 word
    \<Rightarrow> ('a system_scheme, int) kmon" where
  "loaduvm_loop 0 K pd addr ip offset n i = fail Diverge"
| "loaduvm_loop (Suc k) K pd addr ip offset n i =
     (if i < n then
        bind (walkpgdir pd (addr + i) False) (\<lambda>pte.
        if pte = 0 then panic ''loaduvm: address should exist''
        else bind (rd32 pte) (\<lambda>e.
        let m = (if n - i < PGSIZE then n - i else PGSIZE) in
        bind (readi K ip (P2V (PTE_ADDR e)) (offset + i) m) (\<lambda>r.
        if of_int r \<noteq> m then return (- 1)
        else loaduvm_loop k K pd addr ip offset n (i + PGSIZE))))
      else return 0)"

text \<open>A segment of 4 GB less one page or more makes the counter wrap around.\<close>

definition loaduvm :: "'a system_scheme kparams \<Rightarrow> ptr \<Rightarrow> ptr \<Rightarrow> inode_id \<Rightarrow> 32 word \<Rightarrow> 32 word \<Rightarrow> ('a system_scheme, int) kmon" where
  "loaduvm K pd addr ip offset n =
     (if addr mod PGSIZE \<noteq> 0 then panic ''loaduvm: addr must be page aligned''
      else loaduvm_loop (Suc (Suc (unat n div 4096))) K pd addr ip offset n 0)"

section \<open>Exec\<close>

abbreviation (input) MAXARG :: "32 word" where "MAXARG \<equiv> 32"
abbreviation (input) ELF_MAGIC :: "32 word" where "ELF_MAGIC \<equiv> 0x464C457F"
abbreviation (input) ELF_PROG_LOAD :: "32 word" where "ELF_PROG_LOAD \<equiv> 1"

text \<open>The fields of \<open>struct elfhdr\<close> (52 bytes) and \<open>struct proghdr\<close> (32 bytes) that are used.\<close>

record elfhdr =
  elf_magic :: "32 word"
  elf_entry :: "32 word"
  elf_phoff :: "32 word"
  elf_phnum :: "16 word"

record proghdr =
  ph_type :: "32 word"
  ph_off :: "32 word"
  ph_vaddr :: "32 word"
  ph_filesz :: "32 word"
  ph_memsz :: "32 word"

definition elf_of :: "bytes \<Rightarrow> ptr \<Rightarrow> elfhdr" where
  "elf_of m p = \<lparr>elf_magic = load32 m p, elf_entry = load32 m (p + 24), elf_phoff = load32 m (p + 28),
     elf_phnum = load16 m (p + 44)\<rparr>"

definition ph_of :: "bytes \<Rightarrow> ptr \<Rightarrow> proghdr" where
  "ph_of m p = \<lparr>ph_type = load32 m p, ph_off = load32 m (p + 4), ph_vaddr = load32 m (p + 8),
     ph_filesz = load32 m (p + 16), ph_memsz = load32 m (p + 20)\<rparr>"

text \<open>The loop over the program headers: the size of the image, or \<open>None\<close> for \<open>goto bad\<close>.\<close>

primrec exec_load :: "nat \<Rightarrow> 'a system_scheme kparams \<Rightarrow> ptr \<Rightarrow> inode_id \<Rightarrow> 32 word \<Rightarrow> 32 word
    \<Rightarrow> ('a system_scheme, 32 word option) kmon" where
  "exec_load 0 K pd ip off sz0 = return (Some sz0)"
| "exec_load (Suc k) K pd ip off sz0 =
     bind (readi K ip (ph_var K) off 32) (\<lambda>r.
     if r \<noteq> 32 then return None
     else bind (gets (\<lambda>s. ph_of (mem s) (ph_var K))) (\<lambda>ph.
     if ph_type ph \<noteq> ELF_PROG_LOAD then exec_load k K pd ip (off + 32) sz0
     else if ph_memsz ph < ph_filesz ph then return None
     else if ph_vaddr ph + ph_memsz ph < ph_vaddr ph then return None
     else bind (allocuvm pd sz0 (ph_vaddr ph + ph_memsz ph) False) (\<lambda>sz1.
     if sz1 = 0 then return None
     else if ph_vaddr ph mod PGSIZE \<noteq> 0 then return None
     else bind (loaduvm K pd (ph_vaddr ph) ip (ph_off ph) (ph_filesz ph)) (\<lambda>r.
     if r < 0 then return None
     else exec_load k K pd ip (off + 32) sz1))))"

text \<open>
  A string of the calling process, which is still mapped: the bytes before the terminator. The
  string ends below the size of the process, as \<open>fetchstr\<close> has checked.
\<close>

primrec user_string :: "nat \<Rightarrow> ptr \<Rightarrow> ('a system_scheme, 8 word list) kmon" where
  "user_string 0 va = fail Diverge"
| "user_string (Suc n) va =
     bind (get_byte va) (\<lambda>x.
     if x = 0 then return []
     else bind (user_string n (va + 1)) (\<lambda>xs. return (x # xs)))"

text \<open>The loop that pushes the argument strings: the stack pointer and the addresses of the strings.\<close>

primrec exec_args :: "ptr list \<Rightarrow> nat \<Rightarrow> ptr \<Rightarrow> 32 word \<Rightarrow> 32 word \<Rightarrow> 32 word list
    \<Rightarrow> ('a system_scheme, (32 word \<times> 32 word list) option) kmon" where
  "exec_args [] fuel pd argc sp us = return (Some (sp, us))"
| "exec_args (a # argv) fuel pd argc sp us =
     (if argc \<ge> MAXARG then return None
      else bind (user_string fuel a) (\<lambda>str.
      let sp = (sp - of_nat (length str + 1)) AND NOT 3 in
      bind (copyout pd sp (str @ [0])) (\<lambda>r.
      if r < 0 then return None
      else exec_args argv fuel pd (argc + 1) sp (us @ [sp]))))"

definition exec_bad :: "'a system_scheme kparams \<Rightarrow> ptr \<Rightarrow> inode_id option \<Rightarrow> ('a system_scheme, int) kmon" where
  "exec_bad K pd ip =
     bind (cwhen (pd \<noteq> 0) (freevm pd)) (\<lambda>_.
     bind (case ip of None \<Rightarrow> return () | Some i \<Rightarrow> seqs [iunlockput K i, end_op K]) (\<lambda>_.
     return (- 1)))"

text \<open>The last element of the path, as \<open>safestrcpy\<close> stores it in the 16 bytes of \<open>name\<close>.\<close>

definition base_name :: "8 word list \<Rightarrow> string" where
  "base_name path = map (\<lambda>c. char_of (unat c)) (take 15 (rev (takeWhile (\<lambda>c. c \<noteq> SLASH) (rev path))))"

text \<open>
  The second half of \<open>exec\<close>, where the file is closed: the stack, the arguments, and the switch to
  the new image.
\<close>

definition exec_image :: "'a system_scheme kparams \<Rightarrow> nat \<Rightarrow> 8 word list \<Rightarrow> ptr list \<Rightarrow> ptr \<Rightarrow> 32 word \<Rightarrow> 32 word
    \<Rightarrow> ('a system_scheme, int) kmon" where
  "exec_image K p path argv pd entry sz0 =
     (let sz0 = PGROUNDUP sz0 in
      bind (allocuvm pd sz0 (sz0 + 2 * PGSIZE) False) (\<lambda>sz1.
      if sz1 = 0 then exec_bad K pd None
      else bind (clearpteu pd (sz1 - 2 * PGSIZE)) (\<lambda>_.
      bind (proc_at p) (\<lambda>pp.
      bind (exec_args argv (Suc (unat (sz pp))) pd 0 sz1 []) (\<lambda>r.
      case r of None \<Rightarrow> exec_bad K pd None
      | Some (sp, us) \<Rightarrow>
          let argc = of_nat (length us);
              ustack = [0xffffffff, argc, sp - (argc + 1) * 4] @ us @ [0];
              sp = sp - (3 + argc + 1) * 4 in
          bind (copyout pd sp (concat (map word_bytes ustack))) (\<lambda>r.
          if r < 0 then exec_bad K pd None
          else bind (upd_proc p (\<lambda>x. x\<lparr>pname := base_name path\<rparr>)) (\<lambda>_.
          bind (proc_at p) (\<lambda>pp.
          bind (upd_proc p (\<lambda>x. x\<lparr>pgdir := pd, sz := sz1, tf := (tf x)\<lparr>eip := entry, esp := sp\<rparr>\<rparr>)) (\<lambda>_.
          bind (switchuvm (Some p)) (\<lambda>_.
          bind (freevm (pgdir pp)) (\<lambda>_.
          return 0)))))))))))"

definition exec :: "'a system_scheme kparams \<Rightarrow> 8 word list \<Rightarrow> ptr list \<Rightarrow> ('a system_scheme, int) kmon" where
  "exec K path argv =
     bind myproc (\<lambda>mp.
     bind (begin_op K) (\<lambda>_.
     bind (namei K 1 path) (\<lambda>r.
     case r of None \<Rightarrow> bind (end_op K) (\<lambda>_. return (- 1))
     | Some ip \<Rightarrow>
     bind (ilock K (Some ip)) (\<lambda>_.
     bind (readi K ip (elf_var K) 0 52) (\<lambda>n.
     if n \<noteq> 52 then exec_bad K 0 (Some ip)
     else bind (gets (\<lambda>s. elf_of (mem s) (elf_var K))) (\<lambda>elf.
     if elf_magic elf \<noteq> ELF_MAGIC then panic ''bad elf magic''
     else bind setupkvm (\<lambda>pd.
     if pd = 0 then exec_bad K 0 (Some ip)
     else bind (exec_load (unat (elf_phnum elf)) K pd ip (elf_phoff elf) 0) (\<lambda>r.
     case r of None \<Rightarrow> exec_bad K pd (Some ip)
     | Some sz0 \<Rightarrow>
     bind (iunlockput K ip) (\<lambda>_.
     bind (end_op K) (\<lambda>_.
     deref mp (\<lambda>p. exec_image K p path argv pd (elf_entry elf) sz0)))))))))))"

end
