(* ===== verification/Mount.thy ===== *)
theory Mount
  imports Kfile Ide
begin

text \<open>
  Mounting of a second file system, \<open>kernel/fs/mount.c\<close>.
\<close>

section \<open>Mounting\<close>

abbreviation (input) ENOMOUNT :: int where "ENOMOUNT \<equiv> 2"
abbreviation (input) EMOUNTNTDIR :: int where "EMOUNTNTDIR \<equiv> 3"
abbreviation (input) EMNTPNTNOTFOUND :: int where "EMNTPNTNOTFOUND \<equiv> 4"
abbreviation (input) EMOUNTPNTLOCKED :: int where "EMOUNTPNTLOCKED \<equiv> 5"
abbreviation (input) EMOUNTPOINTBUSY :: int where "EMOUNTPOINTBUSY \<equiv> 6"
abbreviation (input) ECANNOTMOUNTONROOT :: int where "ECANNOTMOUNTONROOT \<equiv> 7"
abbreviation (input) EMOUNTROOTNOTFOUND :: int where "EMOUNTROOTNOTFOUND \<equiv> 8"
abbreviation (input) ENODEV :: int where "ENODEV \<equiv> 9"
abbreviation (input) EDEVOOR :: int where "EDEVOOR \<equiv> 10"
abbreviation (input) ECANNOTMOUNTONMAIN :: int where "ECANNOTMOUNTONMAIN \<equiv> 11"

definition init_mount_lock :: "('a system_scheme, unit) kmon" where
  "init_mount_lock = initnonblockinglock"

text \<open>The result of the switch over the device number: an error, or \<open>None\<close> to go on.\<close>

definition mount_device :: "8 word \<Rightarrow> 32 word \<Rightarrow> int option" where
  "mount_device diskmask dev =
     (if dev = 1 then Some (- ECANNOTMOUNTONMAIN)
      else if 2 \<le> dev \<and> dev \<le> 7 then
        if diskmask AND push_bit (unat dev - 1) 1 \<noteq> 0 then None else Some (- ENODEV)
      else if dev > 7 then Some (- EDEVOOR)
      else Some (- ENODEV))"

text \<open>
  A mount point that does not look like a directory is looked up once more as \<open>.\<close> of itself; the
  result is the directory to mount on, or \<open>None\<close>.
\<close>

definition mount_dir :: "'a system_scheme kparams \<Rightarrow> inode_id \<Rightarrow> ('a system_scheme, inode_id option) kmon" where
  "mount_dir K mp =
     bind (inode_at mp) (\<lambda>i.
     if i_type i = T_DIR then return (Some mp)
     else bind my_cwd (\<lambda>old_cwd.
     bind (idup mp) (\<lambda>d.
     bind (set_cwd (Some d)) (\<lambda>_.
     bind (namei K (i_dev i) [46]) (\<lambda>dir_check.
     bind (case dir_check of None \<Rightarrow> return False
           | Some c \<Rightarrow> bind (inode_at c) (\<lambda>j. return (i_type j = T_DIR))) (\<lambda>is_dir.
     if is_dir then
       deref dir_check (\<lambda>c.
       bind (idup c) (\<lambda>m.
       bind (iput K c) (\<lambda>_.
       bind (set_cwd (Some old_cwd)) (\<lambda>_.
       return (Some m)))))
     else
       bind (set_cwd (Some old_cwd)) (\<lambda>_.
       bind (case dir_check of None \<Rightarrow> return () | Some c \<Rightarrow> iput K c) (\<lambda>_.
       return None))))))))"

definition mount :: "'a system_scheme kparams \<Rightarrow> 32 word \<Rightarrow> 8 word list \<Rightarrow> ('a system_scheme, int) kmon" where
  "mount K dev path =
     bind (begin_op K) (\<lambda>_.
     bind disk_query (\<lambda>diskmask.
     case mount_device diskmask dev of Some e \<Rightarrow> return e | None \<Rightarrow>
     bind acquirenonblockinglock (\<lambda>got.
     if \<not> got then bind (end_op K) (\<lambda>_. return (- EMOUNTPNTLOCKED))
     else bind (namei K 1 path) (\<lambda>mp.
     case mp of
       None \<Rightarrow> bind (end_op K) (\<lambda>_. bind releasenonblocking (\<lambda>_. return (- EMNTPNTNOTFOUND)))
     | Some mp \<Rightarrow>
     bind (mount_dir K mp) (\<lambda>md.
     case md of
       None \<Rightarrow> bind (end_op K) (\<lambda>_. bind releasenonblocking (\<lambda>_. return (- EMOUNTNTDIR)))
     | Some mp \<Rightarrow>
     bind (inode_at mp) (\<lambda>i.
     if i_inum i = ROOTINO then
       bind (iput K mp) (\<lambda>_.
       bind (end_op K) (\<lambda>_.
       bind releasenonblocking (\<lambda>_.
       return (- ECANNOTMOUNTONROOT))))
     else bind (namei K dev [SLASH]) (\<lambda>mr.
     case mr of
       None \<Rightarrow> bind releasenonblocking (\<lambda>_. bind (end_op K) (\<lambda>_. return (- EMOUNTROOTNOTFOUND)))
     | Some mr \<Rightarrow>
     bind (upd_inode mp (\<lambda>y. y\<lparr>is_mount_point := True\<rparr>)) (\<lambda>_.
     bind (upd_fs (\<lambda>x. x\<lparr>mount_point := Some mp, mount_root := Some mr\<rparr>)) (\<lambda>_.
     bind (end_op K) (\<lambda>_.
     return 0))))))))))"

definition unmount :: "'a system_scheme kparams \<Rightarrow> 8 word list \<Rightarrow> ('a system_scheme, int) kmon" where
  "unmount K path =
     bind (begin_op K) (\<lambda>_.
     bind (namei K 1 path) (\<lambda>mp.
     case mp of
       None \<Rightarrow> bind (end_op K) (\<lambda>_. return (- ENOMOUNT))
     | Some mp \<Rightarrow>
     bind (gets_fs mount_root) (\<lambda>root.
     if root \<noteq> Some mp then return (- ENOMOUNT)
     else bind acquirenonblockinglock (\<lambda>got.
     if got then bind releasenonblocking (\<lambda>_. return (- ENOMOUNT))
     else bind (iput K mp) (\<lambda>_.
     bind (gets_fs mount_root) (\<lambda>root. deref root (\<lambda>root.
     bind (iputmount K root) (\<lambda>r.
     if r \<noteq> 0 then return (- EMOUNTPOINTBUSY)
     else bind (gets_fs mount_point) (\<lambda>pt. deref pt (\<lambda>pt.
     bind (upd_inode pt (\<lambda>y. y\<lparr>is_mount_point := False\<rparr>)) (\<lambda>_.
     bind (upd_fs (\<lambda>x. x\<lparr>mount_point := None, mount_root := None\<rparr>)) (\<lambda>_.
     bind releasenonblocking (\<lambda>_.
     return 0)))))))))))))"

end
