(* ===== verification/Console.thy ===== *)
theory Console
  imports Kfile
begin

text \<open>
  The console of \<open>kernel/dev/console.c\<close>: the screen, and the line editor that feeds \<open>consoleread\<close>.
\<close>

section \<open>Output\<close>

abbreviation (input) BACKSPACE :: "32 word" where "BACKSPACE \<equiv> 0x100"

definition upd_con :: "(console \<Rightarrow> console) \<Rightarrow> ('a system_scheme, unit) kmon" where
  "upd_con f = modify (\<lambda>s. s\<lparr>con := f (con s)\<rparr>)"

definition con_at :: "('a system_scheme, console) kmon" where
  "con_at = gets con"

lemma con_access_exec [exec_simps]:
  "upd_con f s = Done () (s\<lparr>con := f (con s)\<rparr>)" "con_at s = Done (con s) s"
  by (simp_all add: upd_con_def con_at_def exec_simps)

definition change_mode :: "int \<Rightarrow> ('a system_scheme, unit) kmon" where
  "change_mode mode = upd_con (\<lambda>c. c\<lparr>passwd_mode := (mode \<noteq> 0)\<rparr>)"

text \<open>The wait for the transmitter is left out: it has no effect but the delay.\<close>

definition uartputc :: "32 word \<Rightarrow> ('a system_scheme, unit) kmon" where
  "uartputc c = upd_con (\<lambda>k. if uart k then k\<lparr>uart_out := c # uart_out k\<rparr> else k)"

text \<open>Cells of the screen: a blank, and a character on black.\<close>

abbreviation (input) BLANK :: "16 word" where "BLANK \<equiv> 0x0720"

definition cell :: "32 word \<Rightarrow> 16 word" where
  "cell c = ucast (c AND 0xff) OR 0x0700"

text \<open>Scroll by one line, where \<open>pos\<close> is the position after scrolling.\<close>

definition scroll :: "int \<Rightarrow> (nat \<Rightarrow> 16 word) \<Rightarrow> nat \<Rightarrow> 16 word" where
  "scroll pos f = (\<lambda>i.
     if pos \<le> int i \<and> i < 24 * 80 then 0
     else if i < 23 * 80 then f (i + 80)
     else f i)"

definition cgaputc :: "32 word \<Rightarrow> ('a system_scheme, unit) kmon" where
  "cgaputc c =
     bind con_at (\<lambda>k.
     let pos = crt_pos k;
         k = (if c = 10 then k\<lparr>crt_pos := pos + (80 - pos mod 80)\<rparr>
              else if c = BACKSPACE then (if pos > 0 then k\<lparr>crt_pos := pos - 1\<rparr> else k)
              else k\<lparr>crt := (crt k)(nat pos := cell c), crt_pos := pos + 1\<rparr>);
         pos = crt_pos k in
     if pos < 0 \<or> pos > 25 * 80 then panic ''pos under/overflow''
     else let k = (if pos div 80 \<ge> 24 then k\<lparr>crt := scroll (pos - 80) (crt k), crt_pos := pos - 80\<rparr> else k) in
     upd_con (\<lambda>_. k\<lparr>crt := (crt k)(nat (crt_pos k) := BLANK)\<rparr>))"

text \<open>\<open>clear_screen\<close> prints a prompt with \<open>consputc\<close>, which for a dollar sign is the code below.\<close>

definition clear_screen :: "('a system_scheme, unit) kmon" where
  "clear_screen = seqs [
     upd_con (\<lambda>k. k\<lparr>crt := (\<lambda>i. if i < 25 * 80 then BLANK else crt k i), crt_pos := 0\<rparr>),
     uartputc 36,
     cgaputc 36]"

definition consputc :: "32 word \<Rightarrow> ('a system_scheme, unit) kmon" where
  "consputc c =
     bind con_at (\<lambda>k.
     if passwd_mode k then return ()
     else if c = 9 then clear_screen
     else bind (if c = BACKSPACE then seqs [uartputc 8, uartputc 32, uartputc 8] else uartputc c) (\<lambda>_.
     cgaputc c))"

section \<open>Input\<close>

abbreviation (input) INPUT_BUF :: "32 word" where "INPUT_BUF \<equiv> 128"

definition in_byte :: "console \<Rightarrow> 32 word \<Rightarrow> 8 word" where
  "in_byte k i = in_buf k (unat (i mod INPUT_BUF))"

text \<open>Erase back to the last newline; the loop ends at the write index.\<close>

primrec kill_line :: "nat \<Rightarrow> ('a system_scheme, unit) kmon" where
  "kill_line 0 = fail Diverge"
| "kill_line (Suc n) =
     bind con_at (\<lambda>k.
     if in_e k \<noteq> in_w k \<and> in_byte k (in_e k - 1) \<noteq> 10 then
       bind (upd_con (\<lambda>k. k\<lparr>in_e := in_e k - 1\<rparr>)) (\<lambda>_.
       bind (consputc BACKSPACE) (\<lambda>_.
       kill_line n))
     else return ())"

definition input_char :: "32 word \<Rightarrow> ('a system_scheme, unit) kmon" where
  "input_char c =
     bind con_at (\<lambda>k.
     cwhen (c \<noteq> 0 \<and> in_e k - in_r k < INPUT_BUF) (
       let c = (if c = 13 then 10 else c) in
       bind (upd_con (\<lambda>k. k\<lparr>in_buf := (in_buf k)(unat (in_e k mod INPUT_BUF) := ucast c), in_e := in_e k + 1\<rparr>)) (\<lambda>_.
       bind (consputc c) (\<lambda>_.
       bind con_at (\<lambda>k.
       cwhen (c = 10 \<or> c = 4 \<or> in_e k = in_r k + INPUT_BUF) (seqs [
         upd_con (\<lambda>k. k\<lparr>in_w := in_e k\<rparr>),
         wakeup (Some ChInput)]))))))"

text \<open>The characters that \<open>getc\<close> returns before it is negative; Control-P asks for \<open>procdump\<close>.\<close>

definition intr_char :: "32 word \<Rightarrow> ('a system_scheme, unit) kmon" where
  "intr_char c =
     (if c = 16 then return ()
      else if c = 21 then bind con_at (\<lambda>k. kill_line (Suc (unat (in_e k - in_w k))))
      else if c = 8 \<or> c = 0x7f then
        bind con_at (\<lambda>k.
        cwhen (in_e k \<noteq> in_w k) (seqs [
          upd_con (\<lambda>k. k\<lparr>in_e := in_e k - 1\<rparr>),
          consputc BACKSPACE]))
      else input_char c)"

primrec consoleintr_loop :: "32 word list \<Rightarrow> ('a system_scheme, unit) kmon" where
  "consoleintr_loop [] = return ()"
| "consoleintr_loop (c # xs) = bind (intr_char c) (\<lambda>_. consoleintr_loop xs)"

text \<open>\<open>procdump\<close> prints the process table and changes nothing.\<close>

definition consoleintr :: "32 word list \<Rightarrow> ('a system_scheme, unit) kmon" where
  "consoleintr xs = seqs [acquire ConsLock, consoleintr_loop xs, release ConsLock]"

primrec wait_input :: "nat \<Rightarrow> 'a system_scheme kparams \<Rightarrow> inode_id \<Rightarrow> ('a system_scheme, bool) kmon" where
  "wait_input 0 K ip = fail Diverge"
| "wait_input (Suc n) K ip =
     bind con_at (\<lambda>k.
     if in_r k = in_w k then
       bind myproc (\<lambda>mp. deref mp (\<lambda>p.
       bind (proc_at p) (\<lambda>pp.
       if killed pp then bind (release ConsLock) (\<lambda>_. bind (ilock K (Some ip)) (\<lambda>_. return False))
       else bind (sleep (env K) (Some ChInput) (Some ConsLock)) (\<lambda>_.
       wait_input n K ip))))
     else return True)"

text \<open>The loop of \<open>consoleread\<close> with \<open>n\<close> bytes to go; the result is \<open>None\<close> when the reader was killed.\<close>

primrec consoleread_loop :: "nat \<Rightarrow> bool \<Rightarrow> 'a system_scheme kparams \<Rightarrow> inode_id \<Rightarrow> ptr \<Rightarrow> ('a system_scheme, nat option) kmon" where
  "consoleread_loop 0 again K ip dst = return (Some 0)"
| "consoleread_loop (Suc n) again K ip dst =
     bind (gets switches) (\<lambda>sw.
     bind (wait_input (Suc sw) K ip) (\<lambda>ok.
     if \<not> ok then return None
     else bind con_at (\<lambda>k.
     let c = in_byte k (in_r k) in
     bind (upd_con (\<lambda>k. k\<lparr>in_r := in_r k + 1\<rparr>)) (\<lambda>_.
     if c = 4 then
       bind (cwhen again (upd_con (\<lambda>k. k\<lparr>in_r := in_r k - 1\<rparr>))) (\<lambda>_.
       return (Some (Suc n)))
     else bind (put_byte dst c) (\<lambda>_.
     if c = 10 then return (Some n)
     else consoleread_loop n True K ip (dst + 1))))))"

definition consoleread :: "'a system_scheme kparams \<Rightarrow> inode_id \<Rightarrow> ptr \<Rightarrow> int \<Rightarrow> ('a system_scheme, int) kmon" where
  "consoleread K ip dst n =
     bind (iunlock (Some ip)) (\<lambda>_.
     bind (acquire ConsLock) (\<lambda>_.
     bind (consoleread_loop (nat n) False K ip dst) (\<lambda>r.
     case r of None \<Rightarrow> return (- 1)
     | Some rest \<Rightarrow>
     bind (release ConsLock) (\<lambda>_.
     bind (ilock K (Some ip)) (\<lambda>_.
     return (if n \<le> 0 then 0 else n - int rest))))))"

primrec consolewrite_loop :: "nat \<Rightarrow> ptr \<Rightarrow> ('a system_scheme, unit) kmon" where
  "consolewrite_loop 0 src = return ()"
| "consolewrite_loop (Suc n) src =
     bind (get_byte src) (\<lambda>x.
     bind (consputc (ucast x)) (\<lambda>_.
     consolewrite_loop n (src + 1)))"

definition consolewrite :: "'a system_scheme kparams \<Rightarrow> inode_id \<Rightarrow> ptr \<Rightarrow> int \<Rightarrow> ('a system_scheme, int) kmon" where
  "consolewrite K ip src n =
     bind (iunlock (Some ip)) (\<lambda>_.
     bind (acquire ConsLock) (\<lambda>_.
     bind (consolewrite_loop (nat n) src) (\<lambda>_.
     bind (release ConsLock) (\<lambda>_.
     bind (ilock K (Some ip)) (\<lambda>_.
     return n)))))"

end
