(* ===== verification/Syscall.thy ===== *)
theory Syscall
  imports Exec Mount Console
begin

text \<open>
  The system calls: argument checks of \<open>kernel/syscall/syscall.c\<close>, the calls of
  \<open>kernel/syscall/sysproc.c\<close> and \<open>kernel/syscall/sysfile.c\<close>, and their dispatch.
\<close>

section \<open>Arguments\<close>

text \<open>
  The C routines return 0 or the length of a string, or a negative number for an error, and store
  the argument through a pointer; here the result is the argument, or \<open>None\<close> for an error.
\<close>

definition word_of :: "8 word list \<Rightarrow> 32 word" where
  "word_of xs = (case xs of [a, b, c, d] \<Rightarrow>
     ucast a OR push_bit 8 (ucast b) OR push_bit 16 (ucast c) OR push_bit 24 (ucast d) | _ \<Rightarrow> 0)"

definition fetchint :: "32 word \<Rightarrow> ('a system_scheme, 32 word option) kmon" where
  "fetchint addr =
     bind myproc (\<lambda>mp. deref mp (\<lambda>p.
     bind (proc_at p) (\<lambda>pp.
     if addr \<ge> sz pp \<or> addr + 4 > sz pp then return None
     else bind (copy_in 4 addr) (\<lambda>xs. return (Some (word_of xs))))))"

text \<open>The scan for the end of the string: \<open>n\<close> bytes are left before the end of the process.\<close>

primrec fetchstr_loop :: "nat \<Rightarrow> ptr \<Rightarrow> ('a system_scheme, 8 word list option) kmon" where
  "fetchstr_loop 0 a = return None"
| "fetchstr_loop (Suc n) a =
     bind (get_byte a) (\<lambda>x.
     if x = 0 then return (Some [])
     else bind (fetchstr_loop n (a + 1)) (\<lambda>r. return (map_option (\<lambda>xs. x # xs) r)))"

definition fetchstr :: "32 word \<Rightarrow> ('a system_scheme, 8 word list option) kmon" where
  "fetchstr addr =
     bind myproc (\<lambda>mp. deref mp (\<lambda>p.
     bind (proc_at p) (\<lambda>pp.
     if addr \<ge> sz pp then return None
     else fetchstr_loop (unat (sz pp - addr)) addr)))"

definition argint :: "32 word \<Rightarrow> ('a system_scheme, 32 word option) kmon" where
  "argint n =
     bind myproc (\<lambda>mp. deref mp (\<lambda>p.
     bind (proc_at p) (\<lambda>pp. fetchint (esp (tf pp) + 4 + 4 * n))))"

definition argptr :: "32 word \<Rightarrow> int \<Rightarrow> ('a system_scheme, ptr option) kmon" where
  "argptr n len0 =
     bind myproc (\<lambda>mp.
     bind (argint n) (\<lambda>r.
     case r of None \<Rightarrow> return None
     | Some i \<Rightarrow> deref mp (\<lambda>p.
         bind (proc_at p) (\<lambda>pp.
         if len0 < 0 \<or> i \<ge> sz pp \<or> i + of_int len0 > sz pp then return None
         else return (Some i)))))"

definition argstr :: "32 word \<Rightarrow> ('a system_scheme, 8 word list option) kmon" where
  "argstr n =
     bind (argint n) (\<lambda>r.
     case r of None \<Rightarrow> return None | Some addr \<Rightarrow> fetchstr addr)"

text \<open>The error result of a system call whose argument is missing.\<close>

definition arg_or_fail :: "('s, 'b option) kmon \<Rightarrow> ('b \<Rightarrow> ('s, int) kmon) \<Rightarrow> ('s, int) kmon" where
  "arg_or_fail m f = bind m (\<lambda>r. case r of None \<Rightarrow> return (- 1) | Some x \<Rightarrow> f x)"

section \<open>Processes\<close>

definition sys_fork :: "('a system_scheme, int) kmon" where
  "sys_fork = fork"

definition sys_exit :: "'a system_scheme kparams \<Rightarrow> ('a system_scheme, int) kmon" where
  "sys_exit K = bind (exit K) (\<lambda>_. return 0)"

definition sys_wait :: "'a system_scheme kparams \<Rightarrow> ('a system_scheme, int) kmon" where
  "sys_wait K = wait K"

definition sys_kill :: "('a system_scheme, int) kmon" where
  "sys_kill = arg_or_fail (argint 0) (\<lambda>n. kill (sint n))"

definition sys_getpid :: "('a system_scheme, int) kmon" where
  "sys_getpid = bind myproc (\<lambda>mp. deref mp (\<lambda>p. bind (proc_at p) (\<lambda>pp. return (pid pp))))"

definition sys_sbrk :: "('a system_scheme, int) kmon" where
  "sys_sbrk =
     arg_or_fail (argint 0) (\<lambda>n.
     bind myproc (\<lambda>mp. deref mp (\<lambda>p.
     bind (proc_at p) (\<lambda>pp.
     bind (growproc (sint n)) (\<lambda>r.
     if r < 0 then return (- 1) else return (sint (sz pp)))))))"

definition sys_freemem :: "('a system_scheme, int) kmon" where
  "sys_freemem = bind freemem (\<lambda>n. return (sint n))"

definition sys_sig :: "('a system_scheme, int) kmon" where
  "sys_sig = arg_or_fail (argint 0) (\<lambda>signal. arg_or_fail (argint 1) (\<lambda>n. sig signal (sint n)))"

definition sys_sighandler :: "('a system_scheme, int) kmon" where
  "sys_sighandler =
     arg_or_fail (argptr 1 4) (\<lambda>a.
     bind (copy_in 4 a) (\<lambda>xs.
     bind (sighandler (word_of xs)) (\<lambda>_.
     return 0)))"

definition sys_sigignore :: "('a system_scheme, int) kmon" where
  "sys_sigignore =
     arg_or_fail (argint 0) (\<lambda>arg1. arg_or_fail (argint 1) (\<lambda>arg2.
     bind (sigignore arg1 (sint arg2)) (\<lambda>_. return 0)))"

primrec sleep_loop :: "nat \<Rightarrow> 'a system_scheme environment \<Rightarrow> 32 word \<Rightarrow> 32 word \<Rightarrow> ('a system_scheme, int) kmon" where
  "sleep_loop 0 e ticks0 n = fail Diverge"
| "sleep_loop (Suc k) e ticks0 n =
     bind (gets ticks) (\<lambda>t.
     if t - ticks0 < n then
       bind myproc (\<lambda>mp. deref mp (\<lambda>p.
       bind (proc_at p) (\<lambda>pp.
       if killed pp then bind (release TicksLock) (\<lambda>_. return (- 1))
       else bind (sleep e (Some ChTicks) (Some TicksLock)) (\<lambda>_. sleep_loop k e ticks0 n))))
     else bind (release TicksLock) (\<lambda>_. return 0))"

definition sys_sleep :: "'a system_scheme kparams \<Rightarrow> ('a system_scheme, int) kmon" where
  "sys_sleep K =
     arg_or_fail (argint 0) (\<lambda>n.
     bind (acquire TicksLock) (\<lambda>_.
     bind (gets ticks) (\<lambda>ticks0.
     bind (gets switches) (\<lambda>k.
     sleep_loop (Suc k) (env K) ticks0 n))))"

definition sys_uptime :: "('a system_scheme, int) kmon" where
  "sys_uptime =
     bind (acquire TicksLock) (\<lambda>_.
     bind (gets ticks) (\<lambda>xticks.
     bind (release TicksLock) (\<lambda>_.
     return (sint xticks))))"

section \<open>File descriptors\<close>

definition argfd :: "32 word \<Rightarrow> ('a system_scheme, (nat \<times> nat) option) kmon" where
  "argfd n =
     bind (argint n) (\<lambda>r.
     case r of None \<Rightarrow> return None
     | Some fd \<Rightarrow>
         if sint fd < 0 \<or> sint fd \<ge> int NOFILE then return None
         else bind myproc (\<lambda>mp. deref mp (\<lambda>p.
         bind (proc_at p) (\<lambda>pp.
         return (map_option (\<lambda>f. (unat fd, f)) (ofile pp (unat fd)))))))"

definition set_ofile :: "nat \<Rightarrow> nat \<Rightarrow> nat option \<Rightarrow> ('a system_scheme, unit) kmon" where
  "set_ofile p fd f = upd_proc p (\<lambda>x. x\<lparr>ofile := (ofile x)(fd := f)\<rparr>)"

definition fdalloc :: "nat \<Rightarrow> ('a system_scheme, nat option) kmon" where
  "fdalloc f =
     bind myproc (\<lambda>mp. deref mp (\<lambda>p.
     bind (proc_at p) (\<lambda>pp.
     case find_proc NOFILE 0 (\<lambda>fd. ofile pp fd = None) of
       None \<Rightarrow> return None
     | Some fd \<Rightarrow> bind (set_ofile p fd (Some f)) (\<lambda>_. return (Some fd)))))"

definition sys_dup :: "('a system_scheme, int) kmon" where
  "sys_dup =
     arg_or_fail (argfd 0) (\<lambda>(_, f).
     arg_or_fail (fdalloc f) (\<lambda>fd.
     bind (filedup f) (\<lambda>_.
     return (int fd))))"

definition sys_read :: "'a system_scheme kparams \<Rightarrow> ('a system_scheme, int) kmon" where
  "sys_read K =
     arg_or_fail (argfd 0) (\<lambda>(_, f).
     arg_or_fail (argint 2) (\<lambda>n.
     arg_or_fail (argptr 1 (sint n)) (\<lambda>p.
     fileread K f p (sint n))))"

definition sys_write :: "'a system_scheme kparams \<Rightarrow> ('a system_scheme, int) kmon" where
  "sys_write K =
     arg_or_fail (argfd 0) (\<lambda>(_, f).
     arg_or_fail (argint 2) (\<lambda>n.
     arg_or_fail (argptr 1 (sint n)) (\<lambda>p.
     filewrite K f p (sint n))))"

definition sys_close :: "'a system_scheme kparams \<Rightarrow> ('a system_scheme, int) kmon" where
  "sys_close K =
     arg_or_fail (argfd 0) (\<lambda>(fd, f).
     bind myproc (\<lambda>mp. deref mp (\<lambda>p.
     bind (set_ofile p fd None) (\<lambda>_.
     bind (fileclose K f) (\<lambda>_.
     return 0)))))"

definition sys_fstat :: "'a system_scheme kparams \<Rightarrow> ('a system_scheme, int) kmon" where
  "sys_fstat K =
     arg_or_fail (argfd 0) (\<lambda>(_, f).
     arg_or_fail (argptr 1 20) (\<lambda>st.
     filestat K f st))"

section \<open>Directories\<close>

definition add_nlink :: "inode_id \<Rightarrow> 16 word \<Rightarrow> ('a system_scheme, unit) kmon" where
  "add_nlink ip d = upd_inode ip (\<lambda>i. i\<lparr>i_nlink := i_nlink i + d\<rparr>)"

definition end_fail :: "'a system_scheme kparams \<Rightarrow> ('a system_scheme, int) kmon" where
  "end_fail K = bind (end_op K) (\<lambda>_. return (- 1))"

definition link_bad :: "'a system_scheme kparams \<Rightarrow> inode_id \<Rightarrow> ('a system_scheme, int) kmon" where
  "link_bad K ip =
     bind (seqs [ilock K (Some ip), add_nlink ip (- 1), iupdate K ip, iunlockput K ip]) (\<lambda>_.
     end_fail K)"

definition sys_link :: "'a system_scheme kparams \<Rightarrow> ('a system_scheme, int) kmon" where
  "sys_link K =
     arg_or_fail (argstr 0) (\<lambda>old.
     arg_or_fail (argstr 1) (\<lambda>new.
     bind (begin_op K) (\<lambda>_.
     bind (namei K 0 old) (\<lambda>r.
     case r of None \<Rightarrow> end_fail K
     | Some ip \<Rightarrow>
     bind (ilock K (Some ip)) (\<lambda>_.
     bind (inode_at ip) (\<lambda>i.
     if i_type i = T_DIR then bind (iunlockput K ip) (\<lambda>_. end_fail K)
     else bind (seqs [add_nlink ip 1, iupdate K ip, iunlock (Some ip)]) (\<lambda>_.
     bind (nameiparent K 0 new) (\<lambda>(r, name).
     case r of None \<Rightarrow> link_bad K ip
     | Some dp \<Rightarrow>
     bind (ilock K (Some dp)) (\<lambda>_.
     bind (inode_at dp) (\<lambda>d.
     bind (inode_at ip) (\<lambda>i.
     bind (if i_dev d \<noteq> i_dev i then return (- 1) else dirlink K dp name (i_inum i)) (\<lambda>r.
     bind (iunlockput K dp) (\<lambda>_.
     if r < 0 then link_bad K ip
     else bind (iput K ip) (\<lambda>_.
     bind (end_op K) (\<lambda>_.
     return 0)))))))))))))))"

primrec isdirempty_loop :: "nat \<Rightarrow> 'a system_scheme kparams \<Rightarrow> inode_id \<Rightarrow> 32 word \<Rightarrow> ('a system_scheme, bool) kmon" where
  "isdirempty_loop 0 K dp off = fail Diverge"
| "isdirempty_loop (Suc k) K dp off =
     bind (inode_at dp) (\<lambda>d.
     if off < i_size d then
       bind (readi_file K dp off 16) (\<lambda>r.
       case r of None \<Rightarrow> panic ''isdirempty: readi''
       | Some de \<Rightarrow>
           if length de \<noteq> 16 then panic ''isdirempty: readi''
           else if dirent_inum de \<noteq> 0 then return False
           else isdirempty_loop k K dp (off + 16))
     else return True)"

definition isdirempty :: "'a system_scheme kparams \<Rightarrow> inode_id \<Rightarrow> ('a system_scheme, bool) kmon" where
  "isdirempty K dp =
     bind (inode_at dp) (\<lambda>d.
     isdirempty_loop (Suc (Suc (unat (i_size d) div 16))) K dp 32)"

text \<open>\<open>.\<close> and \<open>..\<close> as directory names.\<close>

definition dot :: "8 word list" where
  "dot = [46]"

definition unlink_bad :: "'a system_scheme kparams \<Rightarrow> inode_id \<Rightarrow> ('a system_scheme, int) kmon" where
  "unlink_bad K dp = bind (iunlockput K dp) (\<lambda>_. end_fail K)"

definition sys_unlink :: "'a system_scheme kparams \<Rightarrow> ('a system_scheme, int) kmon" where
  "sys_unlink K =
     arg_or_fail (argstr 0) (\<lambda>path.
     bind (begin_op K) (\<lambda>_.
     bind (nameiparent K 0 path) (\<lambda>(r, name).
     case r of None \<Rightarrow> end_fail K
     | Some dp \<Rightarrow>
     bind (ilock K (Some dp)) (\<lambda>_.
     if namecmp name dot = 0 \<or> namecmp name dotdot = 0 then unlink_bad K dp
     else bind (dirlookup K dp name False) (\<lambda>r.
     case r of None \<Rightarrow> unlink_bad K dp
     | Some (ip, off) \<Rightarrow>
     bind (ilock K (Some ip)) (\<lambda>_.
     bind (inode_at ip) (\<lambda>i.
     if i_nlink i <s 1 then panic ''unlink: nlink < 1''
     else bind (if i_type i = T_DIR then isdirempty K ip else return True) (\<lambda>ok.
     if \<not> ok then bind (iunlockput K ip) (\<lambda>_. unlink_bad K dp)
     else bind (writei_file K dp (replicate 16 0) off) (\<lambda>n.
     if n \<noteq> 16 then panic ''unlink: writei''
     else bind (cwhen (i_type i = T_DIR) (seqs [add_nlink dp (- 1), iupdate K dp])) (\<lambda>_.
     bind (seqs [iunlockput K dp, add_nlink ip (- 1), iupdate K ip, iunlockput K ip]) (\<lambda>_.
     bind (end_op K) (\<lambda>_.
     return 0))))))))))))"

definition create :: "'a system_scheme kparams \<Rightarrow> 8 word list \<Rightarrow> 16 word \<Rightarrow> 16 word \<Rightarrow> 16 word
    \<Rightarrow> ('a system_scheme, inode_id option) kmon" where
  "create K path type major minor =
     bind (nameiparent K 0 path) (\<lambda>(r, name).
     case r of None \<Rightarrow> return None
     | Some dp \<Rightarrow>
     bind (ilock K (Some dp)) (\<lambda>_.
     bind (dirlookup K dp name True) (\<lambda>r.
     case r of
       Some (ip, _) \<Rightarrow>
         bind (iunlockput K dp) (\<lambda>_.
         bind (ilock K (Some ip)) (\<lambda>_.
         bind (inode_at ip) (\<lambda>i.
         if type = T_FILE \<and> i_type i = T_FILE then return (Some ip)
         else bind (iunlockput K ip) (\<lambda>_. return None))))
     | None \<Rightarrow>
         bind (inode_at dp) (\<lambda>d.
         bind (ialloc K (i_dev d) type) (\<lambda>ip.
         bind (ilock K (Some ip)) (\<lambda>_.
         bind (upd_inode ip (\<lambda>i. i\<lparr>i_major := major, i_minor := minor, i_nlink := 1\<rparr>)) (\<lambda>_.
         bind (iupdate K ip) (\<lambda>_.
         bind (inode_at ip) (\<lambda>i.
         bind (cwhen (type = T_DIR) (
           bind (seqs [add_nlink dp 1, iupdate K dp]) (\<lambda>_.
           bind (dirlink K ip dot (i_inum i)) (\<lambda>r.
           if r < 0 then panic ''create dots''
           else bind (dirlink K ip dotdot (i_inum d)) (\<lambda>r.
           cwhen (r < 0) (panic ''create dots'')))))) (\<lambda>_.
         bind (dirlink K dp name (i_inum i)) (\<lambda>r.
         if r < 0 then panic ''create: dirlink''
         else bind (iunlockput K dp) (\<lambda>_.
         return (Some ip)))))))))))))"

section \<open>Opening files\<close>

abbreviation (input) O_WRONLY :: "32 word" where "O_WRONLY \<equiv> 1"
abbreviation (input) O_RDWR :: "32 word" where "O_RDWR \<equiv> 2"
abbreviation (input) O_CREATE :: "32 word" where "O_CREATE \<equiv> 0x200"

text \<open>The locked inode that \<open>sys_open\<close> opens, or \<open>None\<close> after an error; the transaction goes on.\<close>

definition open_inode :: "'a system_scheme kparams \<Rightarrow> 8 word list \<Rightarrow> 32 word \<Rightarrow> ('a system_scheme, inode_id option) kmon" where
  "open_inode K path omode =
     (if omode AND O_CREATE \<noteq> 0 then create K path T_FILE 0 0
      else bind (namei K 0 path) (\<lambda>r.
      case r of None \<Rightarrow> return None
      | Some ip \<Rightarrow>
          bind (ilock K (Some ip)) (\<lambda>_.
          bind (inode_at ip) (\<lambda>i.
          if i_type i = T_DIR \<and> omode \<noteq> 0 then bind (iunlockput K ip) (\<lambda>_. return None)
          else return (Some ip)))))"

definition open_file :: "inode_id \<Rightarrow> 32 word \<Rightarrow> kfile \<Rightarrow> kfile" where
  "open_file ip omode x = x\<lparr>f_type := FD_INODE, f_ip := Some ip, f_off := 0,
     f_readable := (omode AND O_WRONLY = 0),
     f_writable := (omode AND O_WRONLY \<noteq> 0 \<or> omode AND O_RDWR \<noteq> 0)\<rparr>"

definition sys_open :: "'a system_scheme kparams \<Rightarrow> ('a system_scheme, int) kmon" where
  "sys_open K =
     arg_or_fail (argstr 0) (\<lambda>path.
     arg_or_fail (argint 1) (\<lambda>omode.
     bind (begin_op K) (\<lambda>_.
     bind (open_inode K path omode) (\<lambda>r.
     case r of None \<Rightarrow> end_fail K
     | Some ip \<Rightarrow>
     bind filealloc (\<lambda>f.
     case f of None \<Rightarrow> bind (iunlockput K ip) (\<lambda>_. end_fail K)
     | Some f \<Rightarrow>
     bind (fdalloc f) (\<lambda>r.
     case r of None \<Rightarrow> bind (fileclose K f) (\<lambda>_. bind (iunlockput K ip) (\<lambda>_. end_fail K))
     | Some fd \<Rightarrow>
     bind (iunlock (Some ip)) (\<lambda>_.
     bind (end_op K) (\<lambda>_.
     bind (upd_file f (open_file ip omode)) (\<lambda>_.
     return (int fd))))))))))"

definition sys_mkdir :: "'a system_scheme kparams \<Rightarrow> ('a system_scheme, int) kmon" where
  "sys_mkdir K =
     bind (begin_op K) (\<lambda>_.
     bind (argstr 0) (\<lambda>path.
     bind (case path of None \<Rightarrow> return None | Some path \<Rightarrow> create K path T_DIR 0 0) (\<lambda>r.
     case r of None \<Rightarrow> end_fail K
     | Some ip \<Rightarrow> bind (iunlockput K ip) (\<lambda>_. bind (end_op K) (\<lambda>_. return 0)))))"

definition sys_mknod :: "'a system_scheme kparams \<Rightarrow> ('a system_scheme, int) kmon" where
  "sys_mknod K =
     bind (begin_op K) (\<lambda>_.
     bind (argstr 0) (\<lambda>path. case path of None \<Rightarrow> end_fail K | Some path \<Rightarrow>
     bind (argint 1) (\<lambda>major. case major of None \<Rightarrow> end_fail K | Some major \<Rightarrow>
     bind (argint 2) (\<lambda>minor. case minor of None \<Rightarrow> end_fail K | Some minor \<Rightarrow>
     bind (create K path T_DEV (ucast major) (ucast minor)) (\<lambda>r.
     case r of None \<Rightarrow> end_fail K
     | Some ip \<Rightarrow> bind (iunlockput K ip) (\<lambda>_. bind (end_op K) (\<lambda>_. return 0)))))))"

definition sys_chdir :: "'a system_scheme kparams \<Rightarrow> ('a system_scheme, int) kmon" where
  "sys_chdir K =
     bind (begin_op K) (\<lambda>_.
     bind (argstr 0) (\<lambda>path.
     bind (case path of None \<Rightarrow> return None | Some path \<Rightarrow> namei K 0 path) (\<lambda>r.
     case r of None \<Rightarrow> end_fail K
     | Some ip \<Rightarrow>
     bind (ilock K (Some ip)) (\<lambda>_.
     bind (inode_at ip) (\<lambda>i.
     if i_type i \<noteq> T_DIR then bind (iunlockput K ip) (\<lambda>_. end_fail K)
     else bind (iunlock (Some ip)) (\<lambda>_.
     bind my_cwd (\<lambda>old.
     bind (iput K old) (\<lambda>_.
     bind (end_op K) (\<lambda>_.
     bind (set_cwd (Some ip)) (\<lambda>_.
     return 0))))))))))"

section \<open>Exec, pipes, the console and mounting\<close>

text \<open>The pointers of the argument vector; the array has \<open>MAXARG\<close> entries.\<close>

primrec fetch_argv :: "nat \<Rightarrow> 32 word \<Rightarrow> ('a system_scheme, ptr list option) kmon" where
  "fetch_argv 0 a = return None"
| "fetch_argv (Suc n) a =
     bind (fetchint a) (\<lambda>r.
     case r of None \<Rightarrow> return None
     | Some uarg \<Rightarrow>
         if uarg = 0 then return (Some [])
         else bind (fetchstr uarg) (\<lambda>r.
         case r of None \<Rightarrow> return None
         | Some _ \<Rightarrow> bind (fetch_argv n (a + 4)) (\<lambda>r. return (map_option (\<lambda>xs. uarg # xs) r))))"

definition sys_exec :: "'a system_scheme kparams \<Rightarrow> ('a system_scheme, int) kmon" where
  "sys_exec K =
     arg_or_fail (argstr 0) (\<lambda>path.
     arg_or_fail (argint 1) (\<lambda>uargv.
     arg_or_fail (fetch_argv (unat MAXARG) uargv) (\<lambda>argv.
     exec K path argv)))"

definition sys_pipe :: "'a system_scheme kparams \<Rightarrow> ('a system_scheme, int) kmon" where
  "sys_pipe K =
     arg_or_fail (argptr 0 8) (\<lambda>fd.
     arg_or_fail (pipealloc K) (\<lambda>(rf, wf).
     bind (fdalloc rf) (\<lambda>fd0.
     bind (case fd0 of None \<Rightarrow> return None | Some _ \<Rightarrow> fdalloc wf) (\<lambda>fd1.
     case (fd0, fd1) of
       (Some a, Some b) \<Rightarrow>
         bind (copy_to (word_bytes (of_nat a)) fd) (\<lambda>_.
         bind (copy_to (word_bytes (of_nat b)) (fd + 4)) (\<lambda>_.
         return 0))
     | _ \<Rightarrow>
         bind (case fd0 of None \<Rightarrow> return ()
               | Some a \<Rightarrow> bind myproc (\<lambda>mp. deref mp (\<lambda>p. set_ofile p a None))) (\<lambda>_.
         bind (fileclose K rf) (\<lambda>_.
         bind (fileclose K wf) (\<lambda>_.
         return (- 1))))))))"

definition sys_changeconsmode :: "('a system_scheme, int) kmon" where
  "sys_changeconsmode =
     arg_or_fail (argint 0) (\<lambda>mode. bind (change_mode (sint mode)) (\<lambda>_. return (- 1)))"

definition sys_mount :: "'a system_scheme kparams \<Rightarrow> ('a system_scheme, int) kmon" where
  "sys_mount K =
     arg_or_fail (argint 0) (\<lambda>dev.
     arg_or_fail (argstr 1) (\<lambda>path.
     bind (mount K dev path) (\<lambda>r.
     return (if r \<noteq> 0 then r else - 1))))"

definition sys_umount :: "'a system_scheme kparams \<Rightarrow> ('a system_scheme, int) kmon" where
  "sys_umount K = arg_or_fail (argstr 0) (\<lambda>path. unmount K path)"

section \<open>Dispatch\<close>

definition syscalls :: "'a system_scheme kparams \<Rightarrow> ('a system_scheme, int) kmon list" where
  "syscalls K = [sys_fork, sys_exit K, sys_wait K, sys_pipe K, sys_read K, sys_kill, sys_exec K,
     sys_fstat K, sys_chdir K, sys_dup, sys_getpid, sys_sbrk, sys_sleep K, sys_uptime, sys_open K,
     sys_write K, sys_mknod K, sys_unlink K, sys_link K, sys_mkdir K, sys_close K, sys_freemem,
     sys_sig, sys_sighandler, sys_sigignore, sys_changeconsmode, sys_mount K, sys_umount K]"

text \<open>The table of the C code has an empty entry for number 0.\<close>

definition syscall :: "'a system_scheme kparams \<Rightarrow> ('a system_scheme, unit) kmon" where
  "syscall K =
     bind myproc (\<lambda>mp. deref mp (\<lambda>p.
     bind (proc_at p) (\<lambda>pp.
     let num = sint (eax (tf pp)) in
     bind (change_process_space KERNEL_PROC) (\<lambda>_.
     if num > 0 \<and> num \<le> int (length (syscalls K)) then
       bind (syscalls K ! nat (num - 1)) (\<lambda>r. seqs [
         upd_proc p (\<lambda>x. x\<lparr>tf := (tf x)\<lparr>eax := of_int r\<rparr>\<rparr>),
         change_process_space USER_PROC])
     else seqs [
       upd_proc p (\<lambda>x. x\<lparr>p_sig := p_sig x OR SIGSYS\<rparr>),
       change_process_space USER_PROC,
       yield (env K)]))))"

end
