(* ===== verification/Kbd.thy ===== *)
theory Kbd
  imports Console
begin

text \<open>
  The keyboard decoder of \<open>kernel/drivers/kbd.c\<close> and \<open>kernel/drivers/kbd.h\<close>, and the interrupt handlers of the
  keyboard and the serial port.
\<close>

section \<open>Key maps\<close>

abbreviation (input) SHIFT :: "32 word" where "SHIFT \<equiv> 1"
abbreviation (input) CTL :: "32 word" where "CTL \<equiv> 2"
abbreviation (input) ALT :: "32 word" where "ALT \<equiv> 4"
abbreviation (input) CAPSLOCK :: "32 word" where "CAPSLOCK \<equiv> 8"
abbreviation (input) NUMLOCK :: "32 word" where "NUMLOCK \<equiv> 16"
abbreviation (input) SCROLLLOCK :: "32 word" where "SCROLLLOCK \<equiv> 32"
abbreviation (input) E0ESC :: "32 word" where "E0ESC \<equiv> 64"

text \<open>
  The tables are arrays of 256 bytes that are zero where the initialiser has no entry. A table
  is the list of its first entries together with the entries that are given by index.
\<close>

definition table :: "8 word list \<Rightarrow> (nat \<times> 8 word) list \<Rightarrow> nat \<Rightarrow> 8 word" where
  "table xs ys i = (case map_of ys i of Some c \<Rightarrow> c | None \<Rightarrow> if i < length xs then xs ! i else 0)"

definition shiftcode :: "nat \<Rightarrow> 8 word" where
  "shiftcode = table [] [(0x1D, 2), (0x2A, 1), (0x36, 1), (0x38, 4), (0x9D, 2), (0xB8, 4)]"

definition togglecode :: "nat \<Rightarrow> 8 word" where
  "togglecode = table [] [(0x3A, 8), (0x45, 16), (0x46, 32)]"

text \<open>The special keys, which the three maps share.\<close>

definition special_keys :: "(nat \<times> 8 word) list" where
  "special_keys = [(0xC8, 0xE2), (0xD0, 0xE3), (0xC9, 0xE6), (0xD1, 0xE7), (0xCB, 0xE4), (0xCD, 0xE5),
     (0x97, 0xE0), (0xCF, 0xE1), (0xD2, 0xE8), (0xD3, 0xE9)]"

definition key :: "char \<Rightarrow> 8 word" where
  "key c = of_char c"

definition keys :: "string \<Rightarrow> 8 word list" where
  "keys = map key"

definition normalmap :: "nat \<Rightarrow> 8 word" where
  "normalmap = table
     ([0, 0x1B] @ keys ''123456'' @
      keys ''7890-='' @ [8, 9] @
      keys ''qwertyui'' @
      keys ''op[]'' @ [10, 0] @ keys ''as'' @
      keys ''dfghjkl;'' @
      [39, 96, 0, 92] @ keys ''zxcv'' @
      keys ''bnm,./'' @ [0] @ keys ''*'' @
      [0] @ keys '' '' @ [0, 0, 0, 0, 0, 0] @
      [0, 0, 0, 0, 0, 0, 0] @ keys ''7'' @
      keys ''89-456+1'' @
      keys ''230.'' @ [0, 0, 0, 0])
     ([(0x9C, 10), (0xB5, key (CHR ''/''))] @ special_keys)"

definition shiftmap :: "nat \<Rightarrow> 8 word" where
  "shiftmap = table
     ([0, 27] @ keys ''!@#$%^'' @
      keys ''&*()_+'' @ [8, 9] @
      keys ''QWERTYUI'' @
      keys ''OP{}'' @ [10, 0] @ keys ''AS'' @
      keys ''DFGHJKL:'' @
      [34, 126, 0, 124] @ keys ''ZXCV'' @
      keys ''BNM<>?'' @ [0] @ keys ''*'' @
      [0] @ keys '' '' @ [0, 0, 0, 0, 0, 0] @
      [0, 0, 0, 0, 0, 0, 0] @ keys ''7'' @
      keys ''89-456+1'' @
      keys ''230.'' @ [0, 0, 0, 0])
     ([(0x9C, 10), (0xB5, key (CHR ''/''))] @ special_keys)"

text \<open>A control character: the character less that of \<open>@\<close>.\<close>

definition ctl_keys :: "string \<Rightarrow> 8 word list" where
  "ctl_keys = map (\<lambda>c. key c - 64)"

definition ctlmap :: "nat \<Rightarrow> 8 word" where
  "ctlmap = table
     ([0, 0, 0, 0, 0, 0, 0, 0] @ [0, 0, 0, 0, 0, 0, 0, 0] @
      ctl_keys ''QWERTYUI'' @
      ctl_keys ''OP'' @ [0, 0, 13, 0] @ ctl_keys ''AS'' @
      ctl_keys ''DFGHJKL'' @ [0] @
      [0, 0, 0, 28] @ ctl_keys ''ZXCV'' @
      ctl_keys ''BNM'' @ [0, 0] @ ctl_keys ''/'' @ [0, 0])
     ([(0x9C, 13), (0xB5, key (CHR ''/'') - 64)] @ special_keys)"

section \<open>Decoding\<close>

definition charcode :: "32 word \<Rightarrow> nat \<Rightarrow> 8 word" where
  "charcode sel = (if sel = 0 then normalmap else if sel = 1 then shiftmap else ctlmap)"

text \<open>
  \<open>kbdgetc\<close> after it has found the byte \<open>data\<close> in the buffer of the controller: the new value of
  \<open>shift\<close> and the result.
\<close>

definition kbd_char :: "32 word \<Rightarrow> 32 word \<Rightarrow> 32 word" where
  "kbd_char shift c =
     (if shift AND CAPSLOCK = 0 then c
      else if 97 \<le> c \<and> c \<le> 122 then c - 32
      else if 65 \<le> c \<and> c \<le> 90 then c + 32
      else c)"

definition kbdgetc :: "8 word \<Rightarrow> 32 word \<Rightarrow> 32 word \<times> 32 word" where
  "kbdgetc code shift =
     (let data = ucast code :: 32 word in
      if data = 0xE0 then (shift OR E0ESC, 0)
      else if data AND 0x80 \<noteq> 0 then
        let data = (if shift AND E0ESC \<noteq> 0 then data else data AND 0x7F) in
        (shift AND NOT (ucast (shiftcode (unat data)) OR E0ESC), 0)
      else
        let (data, shift) = (if shift AND E0ESC \<noteq> 0 then (data OR 0x80, shift AND NOT E0ESC) else (data, shift));
            shift = shift OR ucast (shiftcode (unat data));
            shift = shift XOR ucast (togglecode (unat data)) in
        (shift, kbd_char shift (ucast (charcode (shift AND (CTL OR SHIFT)) (unat data)))))"

primrec kbd_run :: "8 word list \<Rightarrow> 32 word \<Rightarrow> 32 word \<times> 32 word list" where
  "kbd_run [] shift = (shift, [])"
| "kbd_run (d # codes) shift =
     (let (shift, c) = kbdgetc d shift; (shift, xs) = kbd_run codes shift in (shift, c # xs))"

text \<open>
  The interrupt handlers, given the bytes in the buffer of the device. \<open>kbdgetc\<close> and \<open>uartgetc\<close>
  return \<open>-1\<close> when there are no more.
\<close>

definition kbdintr :: "8 word list \<Rightarrow> ('a system_scheme, unit) kmon" where
  "kbdintr codes =
     bind con_at (\<lambda>k.
     let (shift, xs) = kbd_run codes (kbd_shift k) in
     bind (upd_con (\<lambda>k. k\<lparr>kbd_shift := shift\<rparr>)) (\<lambda>_.
     consoleintr xs))"

definition uartintr :: "8 word list \<Rightarrow> ('a system_scheme, unit) kmon" where
  "uartintr inp =
     bind con_at (\<lambda>k.
     consoleintr (if uart k then map ucast inp else []))"

section \<open>Letters\<close>

lemma unat_ucast8: "unat (ucast d :: 32 word) = unat d" for d :: "8 word"
proof -
  have "unat d < 256" using unsigned_less [of d, where ?'a = nat] by simp
  then have "unat d < 2 ^ 32" by simp
  then show ?thesis by (simp add: unsigned_ucast_eq take_bit_nat_eq_self)
qed

lemma kbd_selector:
  "(s :: 32 word) AND 3 = (if s AND 2 \<noteq> 0 then 2 else 0) + (if s AND 1 \<noteq> 0 then 1 else 0)"
proof -
  have 1: "s AND 1 = (if bit s 0 then 1 else 0)" by (intro bit_word_eqI) (auto simp: bit_and_iff bit_1_iff intro!: gr0I)
  have 2: "s AND 2 = (if bit s 1 then 2 else 0)" by (intro bit_word_eqI) (auto simp: bit_and_iff bit_2_iff)
  have "s AND (2 OR 1) = (s AND 2) OR (s AND 1)" by (rule bit.conj_disj_distrib)
  then show ?thesis by (simp add: 1 2)
qed

lemma low_code:
  assumes "(d :: 8 word) < 128"
  shows "(ucast d :: 32 word) \<noteq> 0xE0" "(ucast d :: 32 word) AND 0x80 = 0" "unat (ucast d :: 32 word) = unat d"
proof -
  show u: "unat (ucast d :: 32 word) = unat d" by (rule unat_ucast8)
  have d: "unat d < 128" using assms by (simp add: word_less_nat_alt)
  show "(ucast d :: 32 word) \<noteq> 0xE0" using d u by auto
  have "\<not> bit (ucast d :: 32 word) 7"
  proof -
    have "take_bit 7 (ucast d :: 32 word) = ucast d"
      using d u by (simp add: word_unat_eq_iff unsigned_take_bit_eq take_bit_nat_eq_self)
    then show ?thesis by (metis bit_take_bit_iff less_irrefl)
  qed
  then show "(ucast d :: 32 word) AND 0x80 = 0" using and_exp_eq_0_iff_not_bit [of "ucast d :: 32 word" 7] by simp
qed

lemma kbd_char_letter:
  assumes "97 \<le> l" "l \<le> (122 :: 8 word)"
  shows "kbd_char s (ucast l) = ucast (if s AND CAPSLOCK = 0 then l else l - 32)"
    "kbd_char s (ucast (l - 32)) = ucast (if s AND CAPSLOCK = 0 then l - 32 else l)"
    "kbd_char s (ucast (l - 96)) = ucast (l - 96)"
proof -
  have u: "unat (ucast x :: 32 word) = unat x" for x :: "8 word" by (rule unat_ucast8)
  have l: "97 \<le> unat l" "unat l \<le> 122" using assms by (simp_all add: word_le_nat_alt)
  have m: "unat (l - 32) = unat l - 32" "unat (l - 96) = unat l - 96"
    using assms by (simp_all add: unat_sub word_le_nat_alt)
  have "ucast l - 32 = (ucast (l - 32) :: 32 word)" "ucast (l - 32) + 32 = (ucast l :: 32 word)"
    using l by (simp_all add: word_unat_eq_iff unat_sub_if' unat_word_ariths u m)
  then show "kbd_char s (ucast l) = ucast (if s AND CAPSLOCK = 0 then l else l - 32)"
    "kbd_char s (ucast (l - 32)) = ucast (if s AND CAPSLOCK = 0 then l - 32 else l)"
    "kbd_char s (ucast (l - 96)) = ucast (l - 96)"
    using l m by (auto simp: kbd_char_def word_le_nat_alt u)
qed

lemma normalmap_table: "normalmap = table [0, 27, 49, 50, 51, 52, 53, 54, 55, 56, 57, 48, 45, 61, 8, 9, 113, 119, 101, 114, 116, 121, 117,
      105, 111, 112, 91, 93, 10, 0, 97, 115, 100, 102, 103, 104, 106, 107, 108, 59, 39, 96, 0, 92,
      122, 120, 99, 118, 98, 110, 109, 44, 46, 47, 0, 42, 0, 32, 0, 0, 0, 0, 0, 0, 0, 0, 0, 0, 0, 0,
      0, 55, 56, 57, 45, 52, 53, 54, 43, 49, 50, 51, 48, 46, 0, 0, 0, 0] ([(0x9C, 10), (0xB5, 47)] @ special_keys)"
  by (simp add: normalmap_def keys_def key_def of_char_def)

lemma shiftmap_table: "shiftmap = table [0, 27, 33, 64, 35, 36, 37, 94, 38, 42, 40, 41, 95, 43, 8, 9, 81, 87, 69, 82, 84, 89, 85, 73,
      79, 80, 123, 125, 10, 0, 65, 83, 68, 70, 71, 72, 74, 75, 76, 58, 34, 126, 0, 124, 90, 88, 67,
      86, 66, 78, 77, 60, 62, 63, 0, 42, 0, 32, 0, 0, 0, 0, 0, 0, 0, 0, 0, 0, 0, 0, 0, 55, 56, 57,
      45, 52, 53, 54, 43, 49, 50, 51, 48, 46, 0, 0, 0, 0] ([(0x9C, 10), (0xB5, 47)] @ special_keys)"
  by (simp add: shiftmap_def keys_def key_def of_char_def)

lemma ctlmap_table: "ctlmap = table [0, 0, 0, 0, 0, 0, 0, 0, 0, 0, 0, 0, 0, 0, 0, 0, 17, 23, 5, 18, 20, 25, 21, 9, 15, 16, 0, 0, 13,
      0, 1, 19, 4, 6, 7, 8, 10, 11, 12, 0, 0, 0, 0, 28, 26, 24, 3, 22, 2, 14, 13, 0, 0, - 17, 0, 0] ([(0x9C, 13), (0xB5, - 17)] @ special_keys)"
  by (simp add: ctlmap_def keys_def ctl_keys_def key_def of_char_def)

lemma letter_tables: "\<forall>k \<in> set [0..<128]. 97 \<le> normalmap k \<longrightarrow> normalmap k \<le> 122 \<longrightarrow>
    shiftmap k = normalmap k - 32 \<and> ctlmap k = normalmap k - 96 \<and> shiftcode k = 0 \<and> togglecode k = 0"
  unfolding normalmap_table shiftmap_table ctlmap_table shiftcode_def togglecode_def special_keys_def by code_simp

definition letter_key :: "8 word \<Rightarrow> bool" where
  "letter_key d \<longleftrightarrow> d < 128 \<and> 97 \<le> normalmap (unat d) \<and> normalmap (unat d) \<le> 122"

lemma letter_key_tables:
  assumes "letter_key d"
  shows "shiftmap (unat d) = normalmap (unat d) - 32" "ctlmap (unat d) = normalmap (unat d) - 96"
    "shiftcode (unat d) = 0" "togglecode (unat d) = 0"
proof -
  have "unat d \<in> set [0..<128]" using assms by (simp add: letter_key_def word_less_nat_alt)
  then show "shiftmap (unat d) = normalmap (unat d) - 32" "ctlmap (unat d) = normalmap (unat d) - 96"
    "shiftcode (unat d) = 0" "togglecode (unat d) = 0"
    using letter_tables assms by (auto simp: letter_key_def)
qed

lemma charcode_letter:
  assumes "letter_key d"
  shows "charcode (s AND 3) (unat d) =
    (if s AND CTL \<noteq> 0 then normalmap (unat d) - 96
     else if s AND SHIFT \<noteq> 0 then normalmap (unat d) - 32 else normalmap (unat d))"
  by (simp add: charcode_def kbd_selector letter_key_tables [OF assms])

text \<open>
  C23. The scan code of a letter gives the letter; Control gives its control character, and Shift
  and Caps Lock each give the capital, both together the small letter again. The shift state
  does not change.
\<close>

theorem kbd_letters:
  assumes "letter_key d" "shift AND E0ESC = 0"
  shows "kbdgetc d shift = (shift, ucast (
    if shift AND CTL \<noteq> 0 then normalmap (unat d) - 96
    else if (shift AND SHIFT \<noteq> 0) \<noteq> (shift AND CAPSLOCK \<noteq> 0) then normalmap (unat d) - 32
    else normalmap (unat d)))"
proof -
  have d: "d < 128" "97 \<le> normalmap (unat d)" "normalmap (unat d) \<le> 122"
    using assms(1) by (simp_all add: letter_key_def)
  have m: "CTL OR SHIFT = 3" by simp
  have "kbdgetc d shift = (shift, kbd_char shift (ucast (charcode (shift AND 3) (unat d))))"
    using assms(2) by (simp add: kbdgetc_def low_code [OF d(1)] letter_key_tables [OF assms(1)] m)
  then show ?thesis
    by (simp add: charcode_letter [OF assms(1)] kbd_char_letter [OF d(2,3)])
qed

lemma kbd_letters_witness:
  "letter_key 0x1E \<and> (SHIFT :: 32 word) AND E0ESC = 0 \<and> kbdgetc 0x1E SHIFT = (SHIFT, 65)"
proof -
  have k: "letter_key 0x1E" "SHIFT AND E0ESC = 0" by (simp_all add: letter_key_def normalmap_table table_def special_keys_def)
  show ?thesis using k kbd_letters [OF k] by (simp add: normalmap_table table_def special_keys_def)
qed

section \<open>The shift state\<close>

text \<open>
  The bits of \<open>shift\<close> that \<open>kbd.h\<close> gives a meaning: the seven modifier and escape flags.
\<close>

definition modifiers :: "32 word \<Rightarrow> bool" where
  "modifiers x \<longleftrightarrow> take_bit 7 x = x"

lemma modifiers_ops:
  "modifiers a \<Longrightarrow> modifiers b \<Longrightarrow> modifiers (a OR b)" "modifiers a \<Longrightarrow> modifiers b \<Longrightarrow> modifiers (a XOR b)"
  "modifiers a \<Longrightarrow> modifiers (a AND c)"
  unfolding modifiers_def by (simp_all add: bit_eq_iff bit_simps) blast+

lemma modifiers_tables: "modifiers E0ESC" "modifiers (ucast (shiftcode n))" "modifiers (ucast (togglecode n))"
  by (simp_all add: modifiers_def shiftcode_def togglecode_def table_def)

lemma kbd_char_byte: "kbd_char shift (ucast c) < 256" for c :: "8 word"
proof -
  have "(ucast c :: 32 word) < 256" using unsigned_less [of c, where ?'a = nat] by (simp add: word_less_nat_alt unsigned_ucast_eq take_bit_eq_mod)
  then show ?thesis by (auto simp: kbd_char_def word_less_nat_alt word_le_nat_alt unat_word_ariths unat_sub)
qed

lemma kbdgetc_type:
  assumes "modifiers shift" and "kbdgetc d shift = (shift', c)"
  shows "modifiers shift' \<and> c < 256"
  using assms(2) by (auto simp: kbdgetc_def Let_def kbd_char_byte modifiers_tables assms(1) intro!: modifiers_ops split: if_splits)

text \<open>
  C24. Decoding any sequence of scan codes keeps \<open>shift\<close> a set of the seven flags, returns one result
  for each code, and every result is zero or a character of one byte, never a negative one,
  which \<open>consoleintr\<close> takes for the end of the input.
\<close>

theorem kbd_run_type:
  assumes "modifiers shift" and "kbd_run codes shift = (shift', xs)"
  shows "modifiers shift' \<and> length xs = length codes \<and> (\<forall>c \<in> set xs. c < 256)"
  using assms
proof (induction codes arbitrary: shift xs)
  case (Cons d codes)
  obtain s c ys where 1: "kbdgetc d shift = (s, c)" and 2: "kbd_run codes s = (shift', ys)" and x: "xs = c # ys"
    using Cons.prems(2) by (auto simp: Let_def split: prod.splits)
  have "modifiers s" "c < 256" using kbdgetc_type [OF Cons.prems(1) 1] by simp_all
  then show ?case using Cons.IH [OF _ 2] by (simp add: x)
qed simp

lemma kbd_run_type_witness:
  "\<exists>xs. kbd_run [0x2A, 0x1E, 0xAA] 0 = (0, xs) \<and> xs = [0, 65, 0] \<and> modifiers 0 \<and> list_all (\<lambda>c. c < 256) xs"
proof -
  have m: "modifiers 0" by (simp add: modifiers_def)
  have r: "kbd_run [0x2A, 0x1E, 0xAA] 0 = (0, [0, 65, 0])"
    by (simp add: kbdgetc_def Let_def shiftcode_def togglecode_def table_def charcode_def shiftmap_table special_keys_def kbd_char_def)
  show ?thesis using kbd_run_type [OF m r] m r by (simp add: list_all_iff)
qed

end
