(* ===== verification/Trap.thy ===== *)
theory Trap
  imports Syscall Kbd
begin

text \<open>
  The trap handler of \<open>kernel/trap/trap.c\<close>.
\<close>

abbreviation (input) T_DBLFLT :: nat where "T_DBLFLT \<equiv> 8"
abbreviation (input) T_GPFLT :: nat where "T_GPFLT \<equiv> 13"
abbreviation (input) T_PGFLT :: nat where "T_PGFLT \<equiv> 14"
abbreviation (input) T_FPERR :: nat where "T_FPERR \<equiv> 16"
abbreviation (input) T_SYSCALL :: nat where "T_SYSCALL \<equiv> 64"
abbreviation (input) T_IRQ0 :: nat where "T_IRQ0 \<equiv> 32"

section \<open>The clock\<close>

definition timer_tick :: "('a system_scheme, unit) kmon" where
  "timer_tick =
     bind cpuid (\<lambda>c.
     cwhen (c = 0) (seqs [
       acquire TicksLock,
       modify (\<lambda>s. s\<lparr>ticks := ticks s + 1\<rparr>),
       wakeup (Some ChTicks),
       release TicksLock]))"

section \<open>Traps\<close>

text \<open>
  A trap that none of the cases handles: fatal in the kernel, and the end of a user process.
\<close>

definition unexpected_trap :: "trapframe \<Rightarrow> ('a system_scheme, unit) kmon" where
  "unexpected_trap frame =
     bind myproc (\<lambda>mp.
     case mp of None \<Rightarrow> panic ''trap''
     | Some p \<Rightarrow>
         if cs frame AND 3 = 0 then panic ''trap''
         else upd_proc p (\<lambda>x. x\<lparr>killed := True\<rparr>))"

text \<open>The \<open>switch\<close> over the trap number. \<open>inp\<close> are the bytes that the interrupting device holds.\<close>

definition trap_switch :: "'a system_scheme kparams \<Rightarrow> 8 word list \<Rightarrow> trapframe \<Rightarrow> ('a system_scheme, unit) kmon" where
  "trap_switch K inp frame =
     (let n = trapno frame in
      if n = T_PGFLT then panic ''PAGE FAULT''
      else if n = T_DBLFLT then panic ''DOUBLE FAULT OCCURRED''
      else if n = T_FPERR then panic ''FPU ERROR''
      else if n = T_GPFLT then panic ''GENERAL PROTECTION FAULT''
      else if n = T_IRQ0 then timer_tick
      else if n = T_IRQ0 + 14 then ideintr K
      else if n = T_IRQ0 + 15 then ideintr2 K
      else if n = T_IRQ0 + 1 then kbdintr inp
      else if n = T_IRQ0 + 4 then uartintr inp
      else if n = T_IRQ0 + 7 \<or> n = T_IRQ0 + 31 then return ()
      else unexpected_trap frame)"

definition exit_if_killed :: "'a system_scheme kparams \<Rightarrow> trapframe \<Rightarrow> ('a system_scheme, unit) kmon" where
  "exit_if_killed K frame =
     bind myproc (\<lambda>mp.
     case mp of None \<Rightarrow> return ()
     | Some p \<Rightarrow> bind (proc_at p) (\<lambda>pp. cwhen (killed pp \<and> cs frame AND 3 = 3) (exit K)))"

definition count_usage :: "trapframe \<Rightarrow> ('a system_scheme, unit) kmon" where
  "count_usage frame =
     bind myproc (\<lambda>mp.
     case mp of None \<Rightarrow> return ()
     | Some p \<Rightarrow> bind (proc_at p) (\<lambda>pp.
         cwhen (state pp = RUNNING \<and> trapno frame = T_IRQ0) (
           upd_proc p (\<lambda>x. x\<lparr>p_cpu_usage := p_cpu_usage x + 1\<rparr>))))"

text \<open>
  The end of the time slice. \<open>is_proc_alone_in_queue\<close> is given the number \<open>curr_cpu\<close> where it
  expects the address of a queue: it takes the word at offset 52 from that number, in the
  memory of the user process, for the head of the queue.
\<close>

definition alone_at :: "'a system_scheme kparams \<Rightarrow> nat \<Rightarrow> ('a system_scheme, bool) kmon" where
  "alone_at K p =
     bind (proc_at p) (\<lambda>pp.
     bind (copy_in 4 (of_nat (curr_cpu pp) + 52)) (\<lambda>xs.
     return (word_of xs = proc_addr K p \<and> nxt pp = None)))"

definition slice_check :: "'a system_scheme kparams \<Rightarrow> ('a system_scheme, unit) kmon" where
  "slice_check K =
     bind myproc (\<lambda>mp.
     case mp of None \<Rightarrow> return ()
     | Some p \<Rightarrow> bind (proc_at p) (\<lambda>pp.
         cwhen (state pp = RUNNING \<and> p_cpu_usage pp > p_time_quantum pp) (
           bind (alone_at K p) (\<lambda>alone. cwhen (\<not> alone) (preempt (env K))))))"

definition syscall_trap :: "'a system_scheme kparams \<Rightarrow> trapframe \<Rightarrow> ('a system_scheme, unit) kmon" where
  "syscall_trap K frame =
     bind myproc (\<lambda>mp. deref mp (\<lambda>p.
     bind (proc_at p) (\<lambda>pp. seqs [
       cwhen (killed pp) (exit K),
       upd_proc p (\<lambda>x. x\<lparr>tf := frame\<rparr>),
       syscall K,
       bind (proc_at p) (\<lambda>pp. cwhen (killed pp) (exit K))])))"

definition trap :: "'a system_scheme kparams \<Rightarrow> 8 word list \<Rightarrow> trapframe \<Rightarrow> ('a system_scheme, unit) kmon" where
  "trap K inp frame =
     (if trapno frame = T_SYSCALL then syscall_trap K frame
      else seqs [
        trap_switch K inp frame,
        exit_if_killed K frame,
        count_usage frame,
        slice_check K,
        exit_if_killed K frame])"

end
