(* ===== verification/Bcache_Inv.thy ===== *)
theory Bcache_Inv
  imports Fslog
begin

text \<open>
  The buffer cache of \<open>src/kernel/fs/bio.c\<close> (modelled in \<open>Bcache\<close>) is proved to be a cache of the
  disk. The buffers stand on a ring that \<open>bget\<close> and \<open>brelse\<close> reorder; \<open>cache_inv H\<close> says that the
  ring is intact, that exactly the buffers \<open>H\<close> are held by the running process, that no block is
  cached twice and that clean buffers agree with the disk; \<open>view\<close> is a block as the callers of the
  cache see it. The driver enters as the locale \<open>block_device\<close>, whose laws say what \<open>disk_rw\<close> does
  to a locked buffer; on them rest the contracts of \<open>bread\<close>, \<open>bwrite\<close> and \<open>brelse\<close>.
\<close>

section \<open>The ring of buffers\<close>

text \<open>The buffers \<open>xs\<close> stand between \<open>a\<close> and \<open>c\<close>, linked in both directions.\<close>

primrec linked :: "(nat \<Rightarrow> buf) \<Rightarrow> nat \<Rightarrow> nat list \<Rightarrow> nat \<Rightarrow> bool" where
  "linked B a [] c \<longleftrightarrow> b_next (B a) = c \<and> b_prev (B c) = a"
| "linked B a (x # xs) c \<longleftrightarrow> b_next (B a) = x \<and> b_prev (B x) = a \<and> linked B x xs c"

definition ring :: "(nat \<Rightarrow> buf) \<Rightarrow> nat list \<Rightarrow> bool" where
  "ring B xs \<longleftrightarrow> linked B HEAD xs HEAD \<and> distinct xs \<and> set xs = {..<NBUF}"

definition first_of :: "nat list \<Rightarrow> nat \<Rightarrow> nat" where
  "first_of xs c = (case xs of [] \<Rightarrow> c | x # _ \<Rightarrow> x)"

definition last_of :: "nat \<Rightarrow> nat list \<Rightarrow> nat" where
  "last_of a xs = (if xs = [] then a else last xs)"

lemma first_of_simps [simp]: "first_of [] c = c" "first_of (x # xs) c = x"
  by (simp_all add: first_of_def)

lemma last_of_simps [simp]: "last_of a [] = a" "last_of a (xs @ [x]) = x" "last_of a (x # xs) = last_of x xs"
  by (simp_all add: last_of_def)

lemma linked_append:
  "linked B a (us @ b # vs) c \<longleftrightarrow> linked B a us b \<and> linked B b vs c"
  by (induction us arbitrary: a) auto

lemma linked_ends:
  "linked B a xs c \<Longrightarrow> b_next (B a) = first_of xs c" "linked B a xs c \<Longrightarrow> b_prev (B c) = last_of a xs"
  by (induction xs arbitrary: a) auto

text \<open>Only the \<open>next\<close> fields of the first buffers and the \<open>prev\<close> fields of the last ones matter.\<close>

lemma linked_cong:
  assumes "linked B a xs c" "\<forall>x \<in> set (a # xs). b_next (B' x) = b_next (B x)" "\<forall>x \<in> set (xs @ [c]). b_prev (B' x) = b_prev (B x)"
  shows "linked B' a xs c"
  using assms by (induction xs arbitrary: a) auto

definition unlink_buf :: "nat \<Rightarrow> (nat \<Rightarrow> buf) \<Rightarrow> nat \<Rightarrow> buf" where
  "unlink_buf b B = (let p = b_prev (B b); n = b_next (B b);
     B1 = B(n := (B n)\<lparr>b_prev := p\<rparr>) in B1(p := (B1 p)\<lparr>b_next := n\<rparr>))"

lemma unlink_fields:
  "b_next (unlink_buf b B x) = (if x = b_prev (B b) then b_next (B b) else b_next (B x))"
  "b_prev (unlink_buf b B x) = (if x = b_next (B b) then b_prev (B b) else b_prev (B x))"
  by (simp_all add: unlink_buf_def Let_def)

lemma linked_unlink:
  assumes "linked B a (us @ b # vs) c" "distinct (us @ b # vs)" "b \<noteq> a" "b \<noteq> c" "a \<notin> set us \<union> set vs" "c \<notin> set us \<union> set vs"
  shows "linked (unlink_buf b B) a (us @ vs) c"
proof -
  let ?p = "last_of a us" and ?n = "first_of vs c"
  have l: "linked B a us b" "linked B b vs c" using assms(1) by (simp_all add: linked_append)
  have pn: "b_prev (B b) = ?p" "b_next (B b) = ?n" using linked_ends l by auto
  have B: "b_next (unlink_buf b B x) = (if x = ?p then ?n else b_next (B x))"
    "b_prev (unlink_buf b B x) = (if x = ?n then ?p else b_prev (B x))" for x
    by (simp_all add: unlink_fields pn)
  have n: "?n \<in> insert c (set vs)" by (cases vs) auto
  have frame: "linked (unlink_buf b B) y ys z"
    if "linked B y ys z" "?p \<notin> set (y # ys)" "?n \<notin> set (ys @ [z])" for y ys z
    using that by (intro linked_cong [OF that(1)]) (auto simp: B)
  have vs: "linked (unlink_buf b B) ?p vs c"
  proof (cases vs)
    case (Cons v vs')
    have "?p \<in> insert a (set us)" by (cases us rule: rev_cases) auto
    then have "linked (unlink_buf b B) v vs' c"
      using l(2) assms(2,5,6) Cons by (intro frame) auto
    then show ?thesis using Cons by (simp add: B)
  qed (simp add: B)
  show ?thesis
  proof (cases us rule: rev_cases)
    case (snoc us' u)
    have "linked (unlink_buf b B) a us' u"
      using l(1) assms(2,5,6) snoc n by (intro frame) (auto simp: linked_append)
    then show ?thesis using vs snoc by (simp add: linked_append)
  qed (use vs in simp)
qed

definition push_buf :: "nat \<Rightarrow> nat \<Rightarrow> (nat \<Rightarrow> buf) \<Rightarrow> nat \<Rightarrow> buf" where
  "push_buf a b B = (let n = b_next (B a); B1 = B(b := (B b)\<lparr>b_next := n\<rparr>); B2 = B1(b := (B1 b)\<lparr>b_prev := a\<rparr>);
     B3 = B2(n := (B2 n)\<lparr>b_prev := b\<rparr>) in B3(a := (B3 a)\<lparr>b_next := b\<rparr>))"

lemma push_fields:
  assumes "b \<noteq> a" "b_next (B a) \<noteq> b"
  shows "b_next (push_buf a b B x) = (if x = a then b else if x = b then b_next (B a) else b_next (B x))"
    "b_prev (push_buf a b B x) = (if x = b_next (B a) then b else if x = b then a else b_prev (B x))"
  using assms by (simp_all add: push_buf_def Let_def)

lemma linked_push:
  assumes "linked B a xs c" "b \<notin> set (a # c # xs)" "distinct xs" "a \<notin> set xs" "c \<notin> set xs"
  shows "linked (push_buf a b B) a (b # xs) c"
proof -
  let ?n = "first_of xs c"
  have n: "b_next (B a) = ?n" using linked_ends assms(1) by auto
  have ne: "?n \<noteq> b" "b \<noteq> a" using assms(2) by (auto simp: first_of_def split: list.splits)
  have B: "b_next (push_buf a b B x) = (if x = a then b else if x = b then ?n else b_next (B x))"
    "b_prev (push_buf a b B x) = (if x = ?n then b else if x = b then a else b_prev (B x))" for x
    using push_fields [of b a B x] ne unfolding n by blast+
  have h: "b_next (push_buf a b B a) = b" "b_next (push_buf a b B b) = ?n" "b_prev (push_buf a b B ?n) = b"
    "b_prev (push_buf a b B b) = a"
    unfolding B using ne by simp_all
  have frame: "linked (push_buf a b B) y ys z"
    if "linked B y ys z" "a \<notin> set (y # ys)" "b \<notin> set (y # ys @ [z])" "?n \<notin> set (ys @ [z])" for y ys z
    using that by (intro linked_cong [OF that(1)]) (auto simp: B)
  show ?thesis
  proof (cases xs)
    case Nil
    then show ?thesis using h by simp
  next
    case (Cons x xs')
    then have "linked (push_buf a b B) x xs' c" using assms by (intro frame) auto
    then show ?thesis using Cons h by simp
  qed
qed

lemma make_recent_ring:
  assumes "ring B (us @ b # vs)"
  shows "ring (push_buf HEAD b (unlink_buf b B)) (b # us @ vs)"
proof -
  have r: "linked B HEAD (us @ b # vs) HEAD" "distinct (us @ b # vs)" "set (us @ b # vs) = {..<NBUF}"
    using assms by (simp_all add: ring_def)
  have h: "HEAD \<notin> set (us @ b # vs)" unfolding r(3) by simp
  have "linked (unlink_buf b B) HEAD (us @ vs) HEAD"
    by (rule linked_unlink [OF r(1,2)]) (use h in auto)
  then have "linked (push_buf HEAD b (unlink_buf b B)) HEAD (b # us @ vs) HEAD"
    by (rule linked_push) (use h r(2) in auto)
  then show ?thesis using r(2,3) by (auto simp: ring_def)
qed

section \<open>Running the cache routines\<close>

definition set_bufs :: "(nat \<Rightarrow> buf) \<Rightarrow> 'a system_scheme \<Rightarrow> 'a system_scheme" where
  "set_bufs B s = s\<lparr>fsys := (fsys s)\<lparr>bufs := B\<rparr>\<rparr>"

lemma set_bufs_simps [simp]:
  "bufs (fsys (set_bufs B s)) = B" "calm (set_bufs B s) = calm s" "me (set_bufs B s) = me s"
  "set_bufs B (inside l s) = inside l (set_bufs B s)" "ptable (set_bufs B s) = ptable s"
  "disk (fsys (set_bufs B s)) = disk (fsys s)" "slocks (fsys (set_bufs B s)) = slocks (fsys s)" "lg (fsys (set_bufs B s)) = lg (fsys s)"
  "set_bufs B (set_bufs B' s) = set_bufs B s" "set_bufs (bufs (fsys s)) s = s"
  by (simp_all add: set_bufs_def)

lemma buf_exec [exec_simps]:
  "buf_at b s = Done (bufs (fsys s) b) s"
  "upd_buf b f s = Done () (set_bufs ((bufs (fsys s))(b := f (bufs (fsys s) b))) s)"
  by (simp_all add: buf_at_def upd_buf_def exec_simps set_bufs_def)

lemma bget_cached_exec:
  "\<lbrakk>linked (bufs (fsys s)) a xs HEAD; HEAD \<notin> set xs; length xs < n\<rbrakk>
   \<Longrightarrow> bget_cached n (first_of xs HEAD) dev bno s
     = Done (find (\<lambda>b. b_dev (bufs (fsys s) b) = dev \<and> b_blockno (bufs (fsys s) b) = bno) xs) s"
proof (induction xs arbitrary: a n)
  case Nil
  then show ?case by (cases n) (simp_all add: exec_simps)
next
  case (Cons x xs)
  then obtain m where n: "n = Suc m" by (cases n) auto
  have "b_next (bufs (fsys s) x) = first_of xs HEAD" using Cons.prems(1) linked_ends(1) by auto
  then show ?case using Cons.IH [of x m] Cons.prems n by (auto simp: exec_simps)
qed

lemma bget_unused_exec:
  "\<lbrakk>linked (bufs (fsys s)) HEAD xs c; HEAD \<notin> set xs; length xs < n\<rbrakk>
   \<Longrightarrow> bget_unused n (last_of HEAD xs) s
     = Done (find (\<lambda>b. b_refcnt (bufs (fsys s) b) = 0 \<and> \<not> b_dirty (bufs (fsys s) b)) (rev xs)) s"
proof (induction xs arbitrary: c n rule: rev_induct)
  case Nil
  then show ?case by (cases n) (simp_all add: exec_simps)
next
  case (snoc x xs)
  then obtain m where n: "n = Suc m" by (cases n) auto
  have l: "linked (bufs (fsys s)) HEAD xs x" using snoc.prems(1) by (simp add: linked_append)
  then have "b_prev (bufs (fsys s) x) = last_of HEAD xs" using linked_ends(2) by auto
  then show ?case using snoc.IH [OF l, of m] snoc.prems n by (auto simp: exec_simps)
qed

lemma unlink_exec:
  "seqs (bind (buf_at b) (\<lambda>x. upd_buf (b_next x) (\<lambda>y. y\<lparr>b_prev := b_prev x\<rparr>)) #
     bind (buf_at b) (\<lambda>x. upd_buf (b_prev x) (\<lambda>y. y\<lparr>b_next := b_next x\<rparr>)) # ms) s
   = seqs ms (set_bufs (unlink_buf b (bufs (fsys s))) s)"
proof -
  define B where "B = bufs (fsys s)"
  define C where "C = B(b_next (B b) := (B (b_next (B b)))\<lparr>b_prev := b_prev (B b)\<rparr>)"
  have f: "b_prev (C b) = b_prev (B b)" "b_next (C b) = b_next (B b)" by (simp_all add: C_def)
  have u: "unlink_buf b B = C(b_prev (B b) := (C (b_prev (B b)))\<lparr>b_next := b_next (B b)\<rparr>)"
    by (simp only: unlink_buf_def Let_def C_def)
  show ?thesis
    by (simp add: exec_simps B_def [symmetric] C_def [symmetric] f u del: fun_upd_apply)
qed

lemma push_exec:
  assumes "b \<noteq> HEAD"
  shows "seqs [bind (buf_at HEAD) (\<lambda>h. upd_buf b (\<lambda>y. y\<lparr>b_next := b_next h\<rparr>)),
     upd_buf b (\<lambda>y. y\<lparr>b_prev := HEAD\<rparr>),
     bind (buf_at HEAD) (\<lambda>h. upd_buf (b_next h) (\<lambda>y. y\<lparr>b_prev := b\<rparr>)),
     upd_buf HEAD (\<lambda>y. y\<lparr>b_next := b\<rparr>)] s = Done () (set_bufs (push_buf HEAD b (bufs (fsys s))) s)"
proof -
  define B where "B = bufs (fsys s)"
  define C where "C = B(b := (B b)\<lparr>b_next := b_next (B HEAD)\<rparr>)"
  define D where "D = C(b := (C b)\<lparr>b_prev := HEAD\<rparr>)"
  have f: "b_next (D HEAD) = b_next (B HEAD)" using assms by (simp add: C_def D_def)
  define E where "E = D(b_next (B HEAD) := (D (b_next (B HEAD)))\<lparr>b_prev := b\<rparr>)"
  have p: "push_buf HEAD b B = E(HEAD := (E HEAD)\<lparr>b_next := b\<rparr>)"
    by (simp only: push_buf_def Let_def C_def D_def E_def)
  show ?thesis
    by (simp add: exec_simps B_def [symmetric] C_def [symmetric] D_def [symmetric] E_def [symmetric] f p del: fun_upd_apply)
qed

lemma make_recent_exec [exec_simps]:
  assumes "b \<noteq> HEAD"
  shows "make_recent b s = Done () (set_bufs (push_buf HEAD b (unlink_buf b (bufs (fsys s)))) s)"
  using push_exec [OF assms, of "set_bufs (unlink_buf b (bufs (fsys s))) s"]
  unfolding make_recent_def unlink_exec by simp

section \<open>The cache invariant\<close>

text \<open>A block is the first \<open>BSIZE\<close> bytes of what a buffer or the disk holds.\<close>

definition blk :: "bytes \<Rightarrow> bytes" where
  "blk d = (\<lambda>x. if x < BSIZE then d x else 0)"

lemma blk_blk [simp]: "blk (blk d) = blk d"
  by (auto simp: blk_def)

definition same_id :: "buf \<Rightarrow> buf \<Rightarrow> bool" where
  "same_id x y \<longleftrightarrow> b_dev x = b_dev y \<and> b_blockno x = b_blockno y"

text \<open>
  The invariant of the cache while the running process holds the buffers \<open>H\<close>: the ring holds
  every buffer once, exactly the held ones are locked and referenced, no block of a device is
  cached twice, and what is valid, clean and not held agrees with the disk.
\<close>

definition buf_inv :: "nat set \<Rightarrow> 'a system_scheme \<Rightarrow> nat \<Rightarrow> bool" where
  "buf_inv H s b \<longleftrightarrow> (let x = bufs (fsys s) b in
     (if b \<in> H then slocked (BufLock b) s \<and> b_refcnt x = 1 \<and> b_valid x \<and> b_dev x \<noteq> 0
      else \<not> sl_locked (slocks (fsys s) (BufLock b)) \<and> b_refcnt x = 0
        \<and> (b_valid x \<and> \<not> b_dirty x \<and> b_dev x \<noteq> 0 \<longrightarrow> blk (b_data x) = blk (disk (fsys s) (b_dev x) (b_blockno x))))
     \<and> (b_dirty x \<longrightarrow> b_valid x \<and> b_dev x \<noteq> 0))"

text \<open>A calm state without a request to the disks.\<close>

definition still :: "'a system_scheme \<Rightarrow> bool" where
  "still s \<longleftrightarrow> calm s \<and> idequeue (fsys s) = (\<lambda>_. None)"

definition cache_inv :: "nat set \<Rightarrow> 'a system_scheme \<Rightarrow> bool" where
  "cache_inv H s \<longleftrightarrow> still s \<and> (\<exists>xs. ring (bufs (fsys s)) xs) \<and> H \<subseteq> {..<NBUF} \<and> (\<forall>b < NBUF. buf_inv H s b)
     \<and> (\<forall>b c. b < NBUF \<longrightarrow> c < NBUF \<longrightarrow> b_dev (bufs (fsys s) b) \<noteq> 0 \<longrightarrow>
          same_id (bufs (fsys s) b) (bufs (fsys s) c) \<longrightarrow> b = c)"

definition all_bufs :: "nat list" where
  "all_bufs = [0..<NBUF]"

lemma set_all_bufs [simp]: "set all_bufs = {..<NBUF}"
  unfolding all_bufs_def by (rule trans [OF set_upt]) auto

text \<open>A block as the routines above the cache see it.\<close>

definition view :: "'a system_scheme \<Rightarrow> 32 word \<Rightarrow> 32 word \<Rightarrow> bytes" where
  "view s dev bno = blk (
     case find (\<lambda>b. b_dev (bufs (fsys s) b) = dev \<and> b_blockno (bufs (fsys s) b) = bno \<and> b_valid (bufs (fsys s) b)) all_bufs of
       Some b \<Rightarrow> b_data (bufs (fsys s) b)
     | None \<Rightarrow> disk (fsys s) dev bno)"

definition busy :: "nat set \<Rightarrow> 'a system_scheme \<Rightarrow> nat set" where
  "busy H s = {b. b < NBUF \<and> (b \<in> H \<or> b_dirty (bufs (fsys s) b))}"

definition others :: "fsystem \<Rightarrow> fsystem" where
  "others f = f\<lparr>slocks := (\<lambda>_. free_slock), bufs := (\<lambda>_. \<lparr>b_valid = False, b_dirty = False, b_dev = 0, b_blockno = 0,
     b_refcnt = 0, b_prev = 0, b_next = 0, b_qnext = None, b_data = (\<lambda>_. 0)\<rparr>), disk := (\<lambda>_ _ _. 0), ports := [], startup := 0\<rparr>"

definition bc_frame :: "'a system_scheme \<Rightarrow> 'a system_scheme \<Rightarrow> bool" where
  "bc_frame s t \<longleftrightarrow> me t = me s \<and> my_pid t = my_pid s \<and> others (fsys t) = others (fsys s)
     \<and> (\<forall>l. (\<forall>b. l \<noteq> BufLock b) \<longrightarrow> slocks (fsys t) l = slocks (fsys s) l)"

lemma others_upd [simp]:
  "others (f\<lparr>slocks := L\<rparr>) = others f" "others (f\<lparr>bufs := B\<rparr>) = others f" "others (f\<lparr>disk := D\<rparr>) = others f"
  "others (f\<lparr>ports := P\<rparr>) = others f" "others (f\<lparr>startup := S\<rparr>) = others f"
  by (simp_all add: others_def)

lemma others_lg: "others f = others g \<Longrightarrow> lg f = lg g"
  by (drule arg_cong [of _ _ lg]) (simp add: others_def)

lemma bc_frame_refl [simp]: "bc_frame s s"
  by (simp add: bc_frame_def)

lemma bc_frame_trans: "bc_frame s t \<Longrightarrow> bc_frame t u \<Longrightarrow> bc_frame s u"
  unfolding bc_frame_def by metis

lemma bc_frame_lg: "bc_frame s t \<Longrightarrow> lg (fsys t) = lg (fsys s)"
  unfolding bc_frame_def by (elim conjE) (rule others_lg)

lemma bc_frame_bufs [simp]: "bc_frame s (set_bufs B s)"
  by (simp add: bc_frame_def set_bufs_def)

lemma set_slock_simps [simp]:
  "bufs (fsys (set_slock l k s)) = bufs (fsys s)" "calm (set_slock l k s) = calm s" "me (set_slock l k s) = me s"
  "ptable (set_slock l k s) = ptable s" "disk (fsys (set_slock l k s)) = disk (fsys s)"
  "slocks (fsys (set_slock l k s)) = (slocks (fsys s))(l := k)" "lg (fsys (set_slock l k s)) = lg (fsys s)"
  by (simp_all add: set_slock_def)

lemma bc_frame_slock [simp]: "bc_frame s (set_slock (BufLock b) k s)"
  by (auto simp: bc_frame_def set_slock_def)

section \<open>Views\<close>

lemma cache_invD:
  assumes "cache_inv H s"
  shows "calm s" "\<And>b. b < NBUF \<Longrightarrow> buf_inv H s b" "\<And>b. b \<in> H \<Longrightarrow> b < NBUF"
    "\<And>b c. b < NBUF \<Longrightarrow> c < NBUF \<Longrightarrow> b_dev (bufs (fsys s) b) \<noteq> 0 \<Longrightarrow> same_id (bufs (fsys s) b) (bufs (fsys s) c) \<Longrightarrow> b = c"
  using assms by (auto simp: cache_inv_def still_def)

lemma cache_inv_still: "cache_inv H s \<Longrightarrow> still s"
  by (simp add: cache_inv_def)

lemma still_upd [simp]: "still (set_bufs B s) = still s" "still (set_slock l k s) = still s"
  by (simp_all add: still_def set_bufs_def set_slock_def)

lemma find_SomeD: "find P xs = Some x \<Longrightarrow> x \<in> set xs \<and> P x"
  by (induction xs) (auto split: if_splits)

text \<open>With at most one buffer for a block, any valid one with its number gives the view.\<close>

definition one_buffer :: "(nat \<Rightarrow> buf) \<Rightarrow> bool" where
  "one_buffer B \<longleftrightarrow> (\<forall>b c. b < NBUF \<longrightarrow> c < NBUF \<longrightarrow> b_dev (B b) \<noteq> 0 \<longrightarrow> same_id (B b) (B c) \<longrightarrow> b = c)"

lemma view_cached:
  assumes "one_buffer (bufs (fsys s))" "b < NBUF" "b_valid (bufs (fsys s) b)" "b_dev (bufs (fsys s) b) = dev"
    "b_blockno (bufs (fsys s) b) = bno" "dev \<noteq> 0"
  shows "view s dev bno = blk (b_data (bufs (fsys s) b))"
proof -
  let ?P = "\<lambda>b. b_dev (bufs (fsys s) b) = dev \<and> b_blockno (bufs (fsys s) b) = bno \<and> b_valid (bufs (fsys s) b)"
  have "find ?P all_bufs \<noteq> None" using assms by (auto simp: find_None_iff)
  then obtain c where c: "find ?P all_bufs = Some c" by auto
  then have "c < NBUF" "?P c" by (auto dest!: find_SomeD)
  then have "c = b" using assms by (auto simp: one_buffer_def same_id_def)
  with c show ?thesis by (simp add: view_def)
qed

lemma view_uncached:
  assumes "\<forall>b < NBUF. b_dev (bufs (fsys s) b) = dev \<and> b_blockno (bufs (fsys s) b) = bno \<longrightarrow> \<not> b_valid (bufs (fsys s) b)"
  shows "view s dev bno = blk (disk (fsys s) dev bno)"
proof -
  have "find (\<lambda>b. b_dev (bufs (fsys s) b) = dev \<and> b_blockno (bufs (fsys s) b) = bno \<and> b_valid (bufs (fsys s) b)) all_bufs = None"
    using assms by (auto simp: find_None_iff)
  then show ?thesis by (simp add: view_def)
qed

section \<open>bget\<close>

abbreviation my_slock :: "'a system_scheme \<Rightarrow> sleeplock" where
  "my_slock s \<equiv> \<lparr>sl_locked = True, sl_pid = my_pid s\<rparr>"

definition taken :: "32 word \<Rightarrow> 32 word \<Rightarrow> (nat \<Rightarrow> buf) \<Rightarrow> nat \<Rightarrow> buf \<Rightarrow> bool" where
  "taken dev bno B b x \<longleftrightarrow>
     b_dev (B b) = dev \<and> b_blockno (B b) = bno \<and> x = (B b)\<lparr>b_refcnt := 1\<rparr>
     \<or> (\<forall>c < NBUF. \<not> (b_dev (B c) = dev \<and> b_blockno (B c) = bno)) \<and> \<not> b_dirty (B b)
       \<and> x = (B b)\<lparr>b_dev := dev, b_blockno := bno, b_valid := False, b_dirty := False, b_refcnt := 1\<rparr>"

lemma bget_exec:
  assumes inv: "cache_inv H s" and dev: "dev \<noteq> 0"
    and free: "\<forall>b \<in> H. \<not> (b_dev (bufs (fsys s) b) = dev \<and> b_blockno (bufs (fsys s) b) = bno)"
    and room: "busy H s \<noteq> {..<NBUF} \<or> (\<exists>b < NBUF. b_dev (bufs (fsys s) b) = dev \<and> b_blockno (bufs (fsys s) b) = bno)"
  shows "\<exists>b x. bget K dev bno s = Done b (set_slock (BufLock b) (my_slock s) (set_bufs ((bufs (fsys s))(b := x)) s))
    \<and> b < NBUF \<and> b \<notin> H \<and> taken dev bno (bufs (fsys s)) b x"
proof -
  let ?B = "bufs (fsys s)" and ?P = "\<lambda>b. b_dev (bufs (fsys s) b) = dev \<and> b_blockno (bufs (fsys s) b) = bno"
  let ?U = "\<lambda>b. b_refcnt (bufs (fsys s) b) = 0 \<and> \<not> b_dirty (bufs (fsys s) b)"
  have c: "calm s" and still: "still s" using cache_invD(1) [OF inv] cache_inv_still [OF inv] .
  obtain xs where xs: "ring ?B xs" using inv by (auto simp: cache_inv_def)
  have l: "linked ?B HEAD xs HEAD" "distinct xs" "set xs = {..<NBUF}" using xs by (simp_all add: ring_def)
  have h: "HEAD \<notin> set xs" "length xs < Suc NBUF" using l distinct_card [OF l(2)] by simp_all
  have cached: "bget_cached 31 (b_next (?B HEAD)) dev bno (inside BcacheLock s) = Done (find ?P xs) (inside BcacheLock s)"
    using bget_cached_exec [of "inside BcacheLock s" HEAD xs 31 dev bno] l(1) h linked_ends(1) [OF l(1)] by simp
  have unused: "bget_unused 31 (b_prev (?B HEAD)) (inside BcacheLock s) = Done (find ?U (rev xs)) (inside BcacheLock s)"
    using bget_unused_exec [of "inside BcacheLock s" xs HEAD 31] l(1) h linked_ends(2) [OF l(1)] by simp
  have ref: "b_refcnt (?B b) = 0 \<longleftrightarrow> b \<notin> H" "b \<notin> H \<Longrightarrow> \<not> sl_locked (slocks (fsys s) (BufLock b))" if "b < NBUF" for b
    using cache_invD(2) [OF inv that] by (auto simp: buf_inv_def Let_def split: if_splits)
  show ?thesis
  proof (cases "find ?P xs")
    case (Some b)
    then have b: "b < NBUF" "?P b" using find_SomeD [OF Some] l(3) by auto
    then have "b \<notin> H" using free by blast
    with b ref [of b] c have "bget K dev bno s
        = Done b (set_slock (BufLock b) (my_slock s) (set_bufs (?B(b := (?B b)\<lparr>b_refcnt := 1\<rparr>)) s))"
      by (simp add: bget_def exec_simps cached Some del: bget_cached.simps bget_unused.simps)
    then show ?thesis using b \<open>b \<notin> H\<close> by (intro exI conjI) (assumption+, auto simp: taken_def)
  next
    case None
    then have none: "\<forall>c < NBUF. \<not> ?P c" using l(3) by (auto simp: find_None_iff)
    then obtain b0 where "b0 < NBUF" "b0 \<notin> H" "\<not> b_dirty (?B b0)" using room by (auto simp: busy_def)
    then have "find ?U (rev xs) \<noteq> None" using l(3) ref [of b0] by (auto simp: find_None_iff)
    then obtain b where f: "find ?U (rev xs) = Some b" by auto
    then have b: "b < NBUF" "b \<notin> H" "\<not> b_dirty (?B b)" using find_SomeD [OF f] l(3) ref [of b] by auto
    with ref [of b] c have "bget K dev bno s = Done b (set_slock (BufLock b) (my_slock s) (set_bufs (?B(b := (?B b)
        \<lparr>b_dev := dev, b_blockno := bno, b_valid := False, b_dirty := False, b_refcnt := 1\<rparr>)) s))"
      by (simp add: bget_def exec_simps cached None unused f del: bget_cached.simps bget_unused.simps)
    then show ?thesis using b none by (intro exI conjI) (assumption+, auto simp: taken_def)
  qed
qed

section \<open>Changing one buffer\<close>

definition same_core :: "buf \<Rightarrow> buf \<Rightarrow> bool" where
  "same_core x y \<longleftrightarrow> b_valid x = b_valid y \<and> b_dirty x = b_dirty y \<and> b_dev x = b_dev y \<and> b_blockno x = b_blockno y
     \<and> b_refcnt x = b_refcnt y \<and> b_data x = b_data y"

lemma same_core_refl [simp]: "same_core x x"
  by (simp add: same_core_def)

definition contrib :: "buf \<Rightarrow> 32 word \<Rightarrow> 32 word \<Rightarrow> bytes option" where
  "contrib x dev bno = (if b_valid x \<and> b_dev x = dev \<and> b_blockno x = bno then Some (blk (b_data x)) else None)"

lemma view_contrib:
  "\<lbrakk>one_buffer (bufs (fsys s)); dev \<noteq> 0; b < NBUF; contrib (bufs (fsys s) b) dev bno = Some d\<rbrakk> \<Longrightarrow> view s dev bno = d"
  using view_cached [of s b dev bno] by (auto simp: contrib_def split: if_splits)

lemma view_no_contrib:
  "\<forall>b < NBUF. contrib (bufs (fsys s) b) dev bno = None \<Longrightarrow> view s dev bno = blk (disk (fsys s) dev bno)"
  by (rule view_uncached) (auto simp: contrib_def split: if_splits)

lemma cache_inv_one: "cache_inv H s \<Longrightarrow> one_buffer (bufs (fsys s))"
  by (simp add: cache_inv_def one_buffer_def)

lemma contrib_core: "same_core x y \<Longrightarrow> contrib x = contrib y"
  by (intro ext) (simp add: same_core_def contrib_def)

lemma view_same:
  fixes s t :: "'a system_scheme"
  assumes one: "one_buffer (bufs (fsys s))" "one_buffer (bufs (fsys t))" and dev: "dev \<noteq> 0"
    and o: "\<forall>c < NBUF. c \<noteq> b \<longrightarrow> same_core (bufs (fsys t) c) (bufs (fsys s) c)"
    and d: "blk (disk (fsys t) dev bno) = blk (disk (fsys s) dev bno)"
    and c: "contrib (bufs (fsys t) b) dev bno = contrib (bufs (fsys s) b) dev bno
      \<or> {contrib (bufs (fsys t) b) dev bno, contrib (bufs (fsys s) b) dev bno} \<subseteq> {None, Some (blk (disk (fsys s) dev bno))}"
  shows "view t dev bno = view s dev bno"
proof (cases "\<exists>c < NBUF. c \<noteq> b \<and> contrib (bufs (fsys s) c) dev bno \<noteq> None")
  case True
  then obtain k e where k: "k < NBUF" "k \<noteq> b" "contrib (bufs (fsys s) k) dev bno = Some e" by auto
  then have "contrib (bufs (fsys t) k) dev bno = Some e" using o contrib_core by metis
  with k show ?thesis using view_contrib one dev by metis
next
  case False
  then have n: "contrib (bufs (fsys s) k) dev bno = None" "contrib (bufs (fsys t) k) dev bno = None" if "k < NBUF" "k \<noteq> b" for k
    using that o contrib_core by (auto, metis)
  have v: "view u dev bno = (case contrib (bufs (fsys u) b) dev bno of Some e \<Rightarrow> e | None \<Rightarrow> blk (disk (fsys u) dev bno))"
    if "one_buffer (bufs (fsys u))" "\<And>k. k < NBUF \<Longrightarrow> k \<noteq> b \<Longrightarrow> contrib (bufs (fsys u) k) dev bno = None" "b < NBUF"
    for u :: "'a system_scheme"
    using view_contrib [OF that(1) dev that(3)] view_no_contrib [of u dev bno] that(2) by (fastforce split: option.split)
  show ?thesis
  proof (cases "b < NBUF")
    case True
    then show ?thesis using v [OF one(1)] v [OF one(2)] n c d by (auto split: option.splits)
  next
    case False
    then have "view s dev bno = blk (disk (fsys s) dev bno)" "view t dev bno = blk (disk (fsys t) dev bno)"
      using n view_no_contrib by metis+
    then show ?thesis using d by simp
  qed
qed

lemma cache_inv_intro:
  assumes inv: "cache_inv H s" and t: "still t" "my_pid t = my_pid s" "\<exists>ys. ring (bufs (fsys t)) ys"
    and b: "b < NBUF" "H' - {b} = H - {b}" "buf_inv H' t b"
    and o: "\<forall>c < NBUF. c \<noteq> b \<longrightarrow> same_core (bufs (fsys t) c) (bufs (fsys s) c)
      \<and> slocks (fsys t) (BufLock c) = slocks (fsys s) (BufLock c)
      \<and> blk (disk (fsys t) (b_dev (bufs (fsys s) c)) (b_blockno (bufs (fsys s) c)))
        = blk (disk (fsys s) (b_dev (bufs (fsys s) c)) (b_blockno (bufs (fsys s) c)))
      \<and> (b_dev (bufs (fsys t) b) \<noteq> 0 \<longrightarrow> \<not> same_id (bufs (fsys t) b) (bufs (fsys s) c))"
  shows "cache_inv H' t"
proof -
  have "buf_inv H' t c" if c: "c < NBUF" for c
  proof (cases "c = b")
    case False
    have "c \<in> H' \<longleftrightarrow> c \<in> H" using b(2) False by auto
    then show ?thesis using cache_invD(2) [OF inv c] o c False t(2)
      by (auto simp: buf_inv_def Let_def same_core_def slocked_def)
  qed (use b in simp)
  moreover have "one_buffer (bufs (fsys t))"
    unfolding one_buffer_def
  proof (intro allI impI)
    fix k c
    assume a: "k < NBUF" "c < NBUF" "b_dev (bufs (fsys t) k) \<noteq> 0" "same_id (bufs (fsys t) k) (bufs (fsys t) c)"
    have core: "same_core (bufs (fsys t) j) (bufs (fsys s) j)" if "j < NBUF" "j \<noteq> b" for j using o that by blast
    have ne: "\<not> same_id (bufs (fsys t) b) (bufs (fsys s) j)" if "j < NBUF" "j \<noteq> b" "b_dev (bufs (fsys t) b) \<noteq> 0" for j
      using o that by blast
    show "k = c"
    proof (cases "k = b \<or> c = b")
      case True
      then show ?thesis
        using a ne [of c] ne [of k] core [of c] core [of k] by (cases "k = c") (auto simp: same_id_def same_core_def)
    next
      case False
      then show ?thesis using a core [of k] core [of c] cache_inv_one [OF inv]
        by (auto simp: one_buffer_def same_id_def same_core_def)
    qed
  qed
  moreover have "H' \<subseteq> {..<NBUF}" using inv b by (auto simp: cache_inv_def)
  ultimately show ?thesis using t by (simp add: cache_inv_def one_buffer_def)
qed

section \<open>Block devices\<close>

text \<open>The devices whose requests the interrupt handlers complete.\<close>

definition dev_ok :: "32 word \<Rightarrow> bool" where
  "dev_ok dev \<longleftrightarrow> dev = 1 \<or> dev = 2"

definition put_disk :: "32 word \<Rightarrow> 32 word \<Rightarrow> bytes \<Rightarrow> (32 word \<Rightarrow> 32 word \<Rightarrow> bytes) \<Rightarrow> 32 word \<Rightarrow> 32 word \<Rightarrow> bytes" where
  "put_disk dev bno d D = D(dev := (D dev)(bno := d))"

lemma put_disk_apply [simp]: "put_disk dev bno d D k n = (if k = dev \<and> n = bno then d else D k n)"
  by (simp add: put_disk_def)

definition rw_frame :: "'a system_scheme \<Rightarrow> 'a system_scheme \<Rightarrow> bool" where
  "rw_frame s t \<longleftrightarrow> still t \<and> bc_frame s t \<and> slocks (fsys t) = slocks (fsys s)"

definition dirty :: "'a system_scheme \<Rightarrow> 32 word \<Rightarrow> 32 word \<Rightarrow> bool" where
  "dirty s dev bno \<longleftrightarrow> (\<exists>b < NBUF. b_dirty (bufs (fsys s) b) \<and> b_dev (bufs (fsys s) b) = dev \<and> b_blockno (bufs (fsys s) b) = bno)"

lemma ring_upd:
  assumes "ring B xs" "b_next x = b_next (B b)" "b_prev x = b_prev (B b)"
  shows "ring (B(b := x)) xs"
  using assms linked_cong [of B HEAD xs HEAD "B(b := x)"] by (simp add: ring_def)

text \<open>The state after \<open>bread\<close> has returned the buffer \<open>b\<close>.\<close>

definition opened :: "nat set \<Rightarrow> 'a system_scheme \<Rightarrow> nat \<Rightarrow> 32 word \<Rightarrow> 32 word \<Rightarrow> 'a system_scheme \<Rightarrow> bool" where
  "opened H s b dev bno t \<longleftrightarrow> cache_inv (insert b H) t \<and> bc_frame s t \<and> b < NBUF \<and> b \<notin> H
     \<and> b_dev (bufs (fsys t) b) = dev \<and> b_blockno (bufs (fsys t) b) = bno \<and> blk (b_data (bufs (fsys t) b)) = view s dev bno
     \<and> disk (fsys t) = disk (fsys s) \<and> (\<forall>d n. d \<noteq> 0 \<longrightarrow> view t d n = view s d n) \<and> dirty t = dirty s
     \<and> (b_dirty (bufs (fsys t) b) \<or> blk (b_data (bufs (fsys t) b)) = blk (disk (fsys t) dev bno))
     \<and> (\<forall>c < NBUF. b_dirty (bufs (fsys t) c) = b_dirty (bufs (fsys s) c)) \<and> (\<forall>c \<in> H. same_core (bufs (fsys t) c) (bufs (fsys s) c))"

text \<open>Reading the block after \<open>bget\<close>: a buffer \<open>x\<close> that held the block, or that it replaces.\<close>

lemma opened_intro:
  fixes s t :: "'a system_scheme"
  assumes inv: "cache_inv H s" and dev: "dev \<noteq> 0" and b: "b < NBUF" "b \<notin> H"
    and tk: "taken dev bno (bufs (fsys s)) b x"
    and fr: "still t" "bc_frame s t" "disk (fsys t) = disk (fsys s)"
    and sl: "slocks (fsys t) = (slocks (fsys s))(BufLock b := my_slock s)"
    and bt: "bufs (fsys t) = (bufs (fsys s))(b := y)"
    and y: "if b_valid x then y = x else \<exists>d q. blk d = blk (disk (fsys s) dev bno) \<and> y = x\<lparr>b_valid := True, b_qnext := q, b_data := d\<rparr>"
  shows "opened H s b dev bno t"
proof -
  let ?B = "bufs (fsys s)"
  have pid: "my_pid t = my_pid s" using fr(2) unfolding bc_frame_def by blast
  obtain xs where xs: "ring ?B xs" using inv by (auto simp: cache_inv_def)
  have bi: "buf_inv H s b" using cache_invD(2) [OF inv b(1)] .
  have xf: "b_next y = b_next (?B b)" "b_prev y = b_prev (?B b)" "b_refcnt y = 1" "b_valid y" "b_dev y = dev" "b_blockno y = bno"
    "b_dirty y = b_dirty (?B b)"
    using tk y by (auto simp: taken_def split: if_splits)
  have unique: "\<not> (b_dev (?B c) = dev \<and> b_blockno (?B c) = bno)" if "c < NBUF" "c \<noteq> b" for c
    using tk that b(1) dev cache_invD(4) [OF inv, of b c] by (auto simp: taken_def same_id_def)
  have ne: "\<forall>c < NBUF. c \<noteq> b \<longrightarrow> \<not> same_id y (?B c)" using unique xf(5,6) unfolding same_id_def by metis
  have inv': "cache_inv (insert b H) t"
  proof (rule cache_inv_intro [OF inv fr(1) pid _ b(1)])
    show "\<exists>ys. ring (bufs (fsys t)) ys" unfolding bt using ring_upd [OF xs xf(1,2)] by blast
    show "buf_inv (insert b H) t b" using xf dev pid sl bt by (simp add: buf_inv_def Let_def slocked_def)
  qed (use b(2) bt sl fr(3) ne in auto)
  have one: "one_buffer ?B" "one_buffer (bufs (fsys t))" using inv inv' cache_inv_one by auto
  have new: "contrib y dev bno = Some (blk (b_data y))" using xf by (simp add: contrib_def)
  have old: "contrib (?B b) d n = None \<or> contrib (?B b) d n = Some (blk (disk (fsys s) d n))"
    if "\<not> b_dirty (?B b)" "d \<noteq> 0" for d n
    using bi that b(2) by (auto simp: buf_inv_def Let_def contrib_def)
  have chg: "contrib y d n = contrib (?B b) d n
      \<or> {contrib y d n, contrib (?B b) d n} \<subseteq> {None, Some (blk (disk (fsys s) d n))}" if "d \<noteq> 0" for d n
  proof (cases "b_valid x")
    case True
    then have "y = (?B b)\<lparr>b_refcnt := 1\<rparr>" using y tk by (auto simp: taken_def)
    then show ?thesis by (simp add: contrib_def)
  next
    case False
    then have nd: "\<not> b_dirty (?B b)" using tk bi b(2) by (auto simp: taken_def buf_inv_def Let_def)
    have "contrib y d n = None \<or> contrib y d n = Some (blk (disk (fsys s) d n))"
      using y False xf by (auto simp: contrib_def)
    with old [OF nd that] show ?thesis by auto
  qed
  have v: "view t d n = view s d n" if "d \<noteq> 0" for d n
    by (rule view_same [OF one that, of b]) (use bt fr(3) chg [OF that] in auto)
  have "blk (b_data y) = view s dev bno" using view_contrib [OF one(2) dev b(1)] new bt v [OF dev] by simp
  moreover have "dirty t = dirty s"
    using tk xf(5-7) by (intro ext) (auto simp: dirty_def bt taken_def)
  moreover have "\<forall>c < NBUF. b_dirty (bufs (fsys t) c) = b_dirty (bufs (fsys s) c)"
    using xf(7) bt by simp
  moreover have "b_dirty y \<or> blk (b_data y) = blk (disk (fsys s) dev bno)"
  proof (cases "b_valid x")
    case True
    then have "y = (?B b)\<lparr>b_refcnt := 1\<rparr>" using y tk by (auto simp: taken_def)
    then show ?thesis using bi b(2) xf dev by (auto simp: buf_inv_def Let_def)
  next
    case False
    then show ?thesis using y by auto
  qed
  ultimately show ?thesis
    using inv' fr b v xf(5,6) bt by (auto simp: opened_def)
qed

section \<open>The routines of the cache on a block device\<close>

lemma wp_holdingsleep [wp_simps]:
  "calm s \<Longrightarrow> wp (holdingsleep l) Q E s = Q (sl_locked (slocks (fsys s) l) \<and> sl_pid (slocks (fsys s) l) = my_pid s) s"
  by (rule wp_Done) (rule holdingsleep_exec)

lemma dirty_cong:
  assumes "\<And>c. b_dirty (bufs (fsys t) c) = b_dirty (bufs (fsys s) c) \<and> same_id (bufs (fsys t) c) (bufs (fsys s) c)"
  shows "dirty t = dirty s"
  using assms by (intro ext) (simp add: dirty_def same_id_def)

lemma push_core: "same_core (push_buf a b B c) (B c)"
  by (auto simp: push_buf_def Let_def same_core_def)

lemma unlink_core: "same_core (unlink_buf b B c) (B c)"
  by (auto simp: unlink_buf_def Let_def same_core_def)

lemma same_core_trans: "same_core x y \<Longrightarrow> same_core y z \<Longrightarrow> same_core x z"
  by (simp add: same_core_def)

lemma held_buf:
  assumes "cache_inv H s" "b \<in> H"
  shows "b < NBUF" "slocked (BufLock b) s" "b_refcnt (bufs (fsys s) b) = 1" "b_valid (bufs (fsys s) b)" "b_dev (bufs (fsys s) b) \<noteq> 0"
  using cache_invD(2) [OF assms(1) cache_invD(3) [OF assms]] cache_invD(3) [OF assms] assms(2)
  by (simp_all add: buf_inv_def Let_def)

lemma held_view:
  "cache_inv H s \<Longrightarrow> b \<in> H \<Longrightarrow> b_dev (bufs (fsys s) b) = dev \<Longrightarrow> b_blockno (bufs (fsys s) b) = bno \<Longrightarrow>
   view s dev bno = blk (b_data (bufs (fsys s) b))"
  using view_cached [OF cache_inv_one, of H s b dev bno] held_buf [of H s b] by auto

text \<open>Changing the data of a held buffer.\<close>

lemma set_data:
  fixes d :: bytes
  assumes inv: "cache_inv H s" and b: "b \<in> H"
  defines "x \<equiv> bufs (fsys s) b"
  defines "t \<equiv> set_bufs ((bufs (fsys s))(b := x\<lparr>b_data := d\<rparr>)) s"
  shows "cache_inv H t" "dirty t = dirty s"
    "k \<noteq> 0 \<Longrightarrow> view t k n = (if k = b_dev x \<and> n = b_blockno x then blk d else view s k n)"
proof -
  note h = held_buf [OF inv b]
  obtain xs where xs: "ring (bufs (fsys s)) xs" using inv by (auto simp: cache_inv_def)
  show it: "cache_inv H t"
  proof (rule cache_inv_intro [OF inv _ _ _ h(1)])
    show "\<exists>ys. ring (bufs (fsys t)) ys" using ring_upd [OF xs, of "x\<lparr>b_data := d\<rparr>" b] by (auto simp: t_def x_def)
    show "buf_inv H t b" using cache_invD(2) [OF inv h(1)] b by (simp add: buf_inv_def Let_def t_def x_def slocked_def)
    show "\<forall>c<NBUF. c \<noteq> b \<longrightarrow> same_core (bufs (fsys t) c) (bufs (fsys s) c)
       \<and> slocks (fsys t) (BufLock c) = slocks (fsys s) (BufLock c)
       \<and> blk (disk (fsys t) (b_dev (bufs (fsys s) c)) (b_blockno (bufs (fsys s) c)))
         = blk (disk (fsys s) (b_dev (bufs (fsys s) c)) (b_blockno (bufs (fsys s) c)))
       \<and> (b_dev (bufs (fsys t) b) \<noteq> 0 \<longrightarrow> \<not> same_id (bufs (fsys t) b) (bufs (fsys s) c))"
      using cache_invD(4) [OF inv h(1)] h(5) by (auto simp: t_def x_def same_id_def)
  qed (use cache_inv_still [OF inv] in \<open>simp_all add: t_def\<close>)
  show "dirty t = dirty s" by (intro ext) (auto simp: dirty_def t_def x_def)
  assume k: "k \<noteq> 0"
  show "view t k n = (if k = b_dev x \<and> n = b_blockno x then blk d else view s k n)"
  proof (cases "k = b_dev x \<and> n = b_blockno x")
    case True
    then show ?thesis using held_view [OF it b, of k n] by (simp add: t_def x_def)
  next
    case False
    then have "view t k n = view s k n"
      by (intro view_same [OF cache_inv_one [OF inv] cache_inv_one [OF it] k, of b]) (auto simp: t_def x_def contrib_def)
    with False show ?thesis by auto
  qed
qed

lemma brelse_exec:
  assumes inv: "cache_inv H s" and b: "b \<in> H"
    and clean: "b_dirty (bufs (fsys s) b) \<or> blk (b_data (bufs (fsys s) b))
      = blk (disk (fsys s) (b_dev (bufs (fsys s) b)) (b_blockno (bufs (fsys s) b)))"
  shows "\<exists>t. brelse b s = Done () t \<and> cache_inv (H - {b}) t \<and> bc_frame s t \<and> disk (fsys t) = disk (fsys s)
    \<and> (\<forall>c. c \<noteq> b \<longrightarrow> same_core (bufs (fsys t) c) (bufs (fsys s) c)) \<and> (\<forall>k n. k \<noteq> 0 \<longrightarrow> view t k n = view s k n) \<and> dirty t = dirty s
    \<and> (\<forall>c. b_dirty (bufs (fsys t) c) = b_dirty (bufs (fsys s) c))"
proof -
  note h = held_buf [OF inv b]
  let ?x = "(bufs (fsys s) b)\<lparr>b_refcnt := 0\<rparr>"
  let ?B = "(bufs (fsys s))(b := ?x)"
  let ?C = "push_buf HEAD b (unlink_buf b ?B)"
  let ?t = "set_bufs ?C (set_slock (BufLock b) free_slock s)"
  have c: "calm s" and still: "still s" using cache_invD(1) [OF inv] cache_inv_still [OF inv] .
  have e: "brelse b s = Done () ?t"
    using c h by (simp add: brelse_def exec_simps slocked_def)
  obtain xs where xs: "ring (bufs (fsys s)) xs" using inv by (auto simp: cache_inv_def)
  then have "b \<in> set xs" using h(1) by (simp add: ring_def)
  then obtain us vs where "xs = us @ b # vs" by (meson split_list)
  then have "ring ?B (us @ b # vs)" using ring_upd [OF xs, of ?x b] by simp
  from make_recent_ring [OF this] have r: "\<exists>ys. ring ?C ys" by blast
  have core: "same_core (?C c) (?B c)" for c by (rule same_core_trans [OF push_core unlink_core])
  have cb: "same_core (?C b) ?x" using core [of b] by simp
  have co: "same_core (?C c) (bufs (fsys s) c)" if "c \<noteq> b" for c using core [of c] that by simp
  have fr: "bc_frame s ?t" by (rule bc_frame_trans [OF bc_frame_slock bc_frame_bufs])
  have it: "cache_inv (H - {b}) ?t"
  proof (rule cache_inv_intro [OF inv _ _ _ h(1)])
    show "buf_inv (H - {b}) ?t b" using cb h clean by (auto simp: buf_inv_def Let_def same_core_def)
    show "\<forall>c<NBUF. c \<noteq> b \<longrightarrow> same_core (bufs (fsys ?t) c) (bufs (fsys s) c)
       \<and> slocks (fsys ?t) (BufLock c) = slocks (fsys s) (BufLock c)
       \<and> blk (disk (fsys ?t) (b_dev (bufs (fsys s) c)) (b_blockno (bufs (fsys s) c)))
         = blk (disk (fsys s) (b_dev (bufs (fsys s) c)) (b_blockno (bufs (fsys s) c)))
       \<and> (b_dev (bufs (fsys ?t) b) \<noteq> 0 \<longrightarrow> \<not> same_id (bufs (fsys ?t) b) (bufs (fsys s) c))"
      using co cb cache_invD(4) [OF inv h(1)] h(5) by (auto simp: same_id_def same_core_def)
  qed (use c still r in simp_all)
  have "view ?t k n = view s k n" if "k \<noteq> 0" for k n
    by (rule view_same [OF cache_inv_one [OF inv] cache_inv_one [OF it] that, of b])
      (use co cb in \<open>auto simp: contrib_def same_core_def\<close>)
  moreover have "dirty ?t = dirty s"
  proof (rule dirty_cong)
    show "b_dirty (bufs (fsys ?t) c) = b_dirty (bufs (fsys s) c) \<and> same_id (bufs (fsys ?t) c) (bufs (fsys s) c)" for c
      using core [of c] by (cases "c = b") (simp_all add: same_core_def same_id_def)
  qed
  moreover have "b_dirty (bufs (fsys ?t) c) = b_dirty (bufs (fsys s) c)" for c
    using core [of c] by (cases "c = b") (simp_all add: same_core_def)
  ultimately show ?thesis using e it fr co by (intro exI [of _ ?t]) simp
qed

text \<open>
  What the cache relies on: a request for a locked buffer of a known device, which is dirty or not
  valid, is carried out, unless the process is not scheduled again, and nothing else changes that
  matters to the caller. A write that is not completed has reached the disk or has not.
\<close>

lemma wp_return_fun [wp_simps]: "wp (return a) Q B = Q a"
  by (rule ext) (rule wp_return)

lemma wp_bind_fun [wp_simps]: "wp (bind m f) Q B = wp m (\<lambda>a. wp (f a) Q B) B"
  by (rule ext) (rule wp_bind)

lemma wp_buf [wp_simps]:
  "wp (buf_at b) Q E s = Q (bufs (fsys s) b) s"
  "wp (upd_buf b f) R E s = R () (set_bufs ((bufs (fsys s))(b := f (bufs (fsys s) b))) s)"
  by (simp_all add: wp_def exec_simps)

locale block_device =
  fixes good :: "'a system_scheme kparams \<Rightarrow> bool"
  assumes rw_write: "\<lbrakk>good K; still s; b < NBUF; slocked (BufLock b) s; b_dirty (bufs (fsys s) b); dev_ok (b_dev (bufs (fsys s) b));
      b_blockno (bufs (fsys s) b) < FSSIZE\<rbrakk> \<Longrightarrow> wp (disk_rw K b (b_dev (bufs (fsys s) b)))
        (\<lambda>_ t. rw_frame s t \<and> bufs (fsys t) = (bufs (fsys s))(b := (bufs (fsys s) b)\<lparr>b_valid := True, b_dirty := False, b_qnext := None\<rparr>)
           \<and> disk (fsys t) = put_disk (b_dev (bufs (fsys s) b)) (b_blockno (bufs (fsys s) b)) (b_data (bufs (fsys s) b)) (disk (fsys s)))
        (\<lambda>t. disk (fsys t) \<in> {disk (fsys s),
           put_disk (b_dev (bufs (fsys s) b)) (b_blockno (bufs (fsys s) b)) (b_data (bufs (fsys s) b)) (disk (fsys s))}) s"
    and rw_read: "\<lbrakk>good K; still s; b < NBUF; slocked (BufLock b) s; \<not> b_valid (bufs (fsys s) b); \<not> b_dirty (bufs (fsys s) b);
      dev_ok (b_dev (bufs (fsys s) b)); b_blockno (bufs (fsys s) b) < FSSIZE\<rbrakk> \<Longrightarrow> wp (disk_rw K b (b_dev (bufs (fsys s) b)))
        (\<lambda>_ t. rw_frame s t \<and> disk (fsys t) = disk (fsys s) \<and> (\<exists>d. blk d = blk (disk (fsys s) (b_dev (bufs (fsys s) b)) (b_blockno (bufs (fsys s) b)))
           \<and> bufs (fsys t) = (bufs (fsys s))(b := (bufs (fsys s) b)\<lparr>b_valid := True, b_qnext := None, b_data := d\<rparr>)))
        (\<lambda>t. disk (fsys t) = disk (fsys s)) s"
begin

lemma bread_wp:
  assumes K: "good K" and inv: "cache_inv H s" and dev: "dev_ok dev" "bno < FSSIZE"
    and free: "\<forall>b \<in> H. \<not> (b_dev (bufs (fsys s) b) = dev \<and> b_blockno (bufs (fsys s) b) = bno)"
    and room: "busy H s \<noteq> {..<NBUF} \<or> dirty s dev bno"
  shows "wp (bread K dev bno) (\<lambda>b. opened H s b dev bno) (\<lambda>t. disk (fsys t) = disk (fsys s)) s"
proof -
  have d0: "dev \<noteq> 0" using dev(1) by (auto simp: dev_ok_def)
  obtain b x where g: "bget K dev bno s = Done b (set_slock (BufLock b) (my_slock s) (set_bufs ((bufs (fsys s))(b := x)) s))"
    and b: "b < NBUF" "b \<notin> H" and tk: "taken dev bno (bufs (fsys s)) b x"
    using bget_exec [OF inv d0 free, of K] room by (auto simp: dirty_def)
  let ?t = "set_slock (BufLock b) (my_slock s) (set_bufs ((bufs (fsys s))(b := x)) s)"
  have c: "calm s" and still: "still s" using cache_invD(1) [OF inv] cache_inv_still [OF inv] .
  have fr: "bc_frame s ?t" by (rule bc_frame_trans [OF bc_frame_bufs bc_frame_slock])
  show ?thesis
  proof (cases "b_valid x")
    case True
    then have "opened H s b dev bno ?t"
      using c still fr by (intro opened_intro [OF inv d0 b tk, where y = x]) simp_all
    then show ?thesis using True by (simp add: bread_def wp_simps wp_Done [of "bget K dev bno" s, OF g])
  next
    case False
    have x: "\<not> b_dirty x" "b_dev x = dev" "b_blockno x = bno"
      using False tk cache_invD(2) [OF inv b(1)] by (auto simp: taken_def buf_inv_def Let_def)
    have w: "wp (disk_rw K b dev) (\<lambda>_ u. rw_frame ?t u \<and> disk (fsys u) = disk (fsys s) \<and> (\<exists>d. blk d = blk (disk (fsys s) dev bno)
        \<and> bufs (fsys u) = (bufs (fsys s))(b := x\<lparr>b_valid := True, b_qnext := None, b_data := d\<rparr>)))
        (\<lambda>u. disk (fsys u) = disk (fsys s)) ?t"
      using rw_read [OF K, of ?t b] c still b x False dev by (simp add: slocked_def)
    have o: "opened H s b dev bno u"
      if "rw_frame ?t u" "disk (fsys u) = disk (fsys s)" "blk d = blk (disk (fsys s) dev bno)"
        "bufs (fsys u) = (bufs (fsys s))(b := x\<lparr>b_valid := True, b_qnext := None, b_data := d\<rparr>)" for u d
    proof (rule opened_intro [OF inv d0 b tk _ _ that(2) _ that(4)])
      show "still u" "slocks (fsys u) = (slocks (fsys s))(BufLock b := my_slock s)" using that(1) by (simp_all add: rw_frame_def)
      show "bc_frame s u" using that(1) bc_frame_trans [OF fr] by (simp add: rw_frame_def)
    qed (use False that(3) in auto)
    have "wp (disk_rw K b dev) (\<lambda>_. opened H s b dev bno) (\<lambda>u. disk (fsys u) = disk (fsys s)) ?t"
      by (rule wp_mono [OF w]) (use o in blast)+
    then show ?thesis using False by (simp add: bread_def wp_simps wp_Done [of "bget K dev bno" s, OF g])
  qed
qed

lemma held_id:
  assumes inv: "cache_inv H s" and b: "b \<in> H" and c: "c < NBUF" "c \<noteq> b"
  shows "\<not> (b_dev (bufs (fsys s) c) = b_dev (bufs (fsys s) b) \<and> b_blockno (bufs (fsys s) c) = b_blockno (bufs (fsys s) b))"
  using cache_invD(4) [OF inv held_buf(1) [OF inv b] c(1)] held_buf(5) [OF inv b] c(2) unfolding same_id_def by metis

lemma written_inv:
  fixes s t :: "'a system_scheme"
  assumes inv: "cache_inv H s" and b: "b \<in> H"
  defines "x \<equiv> bufs (fsys s) b"
  defines "D \<equiv> put_disk (b_dev x) (b_blockno x) (b_data x) (disk (fsys s))"
  assumes t: "rw_frame (set_bufs B s) t" "disk (fsys t) = D"
    "bufs (fsys t) = (bufs (fsys s))(b := x\<lparr>b_valid := True, b_dirty := False, b_qnext := None\<rparr>)"
  shows "cache_inv H t"
proof -
  note h = held_buf [OF inv b]
  note ids = held_id [OF inv b, folded x_def]
  obtain xs where xs: "ring (bufs (fsys s)) xs" using inv by (auto simp: cache_inv_def)
  have "bc_frame s t" using t(1) bc_frame_trans [OF bc_frame_bufs] unfolding rw_frame_def by blast
  then have pid: "my_pid t = my_pid s" unfolding bc_frame_def by blast
  show ?thesis
  proof (rule cache_inv_intro [OF inv _ pid _ h(1)])
    show "\<exists>ys. ring (bufs (fsys t)) ys" using t ring_upd [OF xs, of "x\<lparr>b_valid := True, b_dirty := False, b_qnext := None\<rparr>" b] by (auto simp: x_def)
    show "still t" using t by (simp add: rw_frame_def)
    show "buf_inv H t b" using t h b pid by (simp add: buf_inv_def Let_def x_def slocked_def rw_frame_def)
    show "\<forall>c<NBUF. c \<noteq> b \<longrightarrow> same_core (bufs (fsys t) c) (bufs (fsys s) c)
       \<and> slocks (fsys t) (BufLock c) = slocks (fsys s) (BufLock c)
       \<and> blk (disk (fsys t) (b_dev (bufs (fsys s) c)) (b_blockno (bufs (fsys s) c)))
         = blk (disk (fsys s) (b_dev (bufs (fsys s) c)) (b_blockno (bufs (fsys s) c)))
       \<and> (b_dev (bufs (fsys t) b) \<noteq> 0 \<longrightarrow> \<not> same_id (bufs (fsys t) b) (bufs (fsys s) c))"
      using t ids by (simp add: rw_frame_def D_def same_id_def) metis
  qed simp
qed

lemma written_dirty:
  fixes s t :: "'a system_scheme"
  assumes inv: "cache_inv H s" and b: "b \<in> H"
  defines "x \<equiv> bufs (fsys s) b"
  defines "D \<equiv> put_disk (b_dev x) (b_blockno x) (b_data x) (disk (fsys s))"
  assumes t: "rw_frame (set_bufs B s) t" "disk (fsys t) = D"
    "bufs (fsys t) = (bufs (fsys s))(b := x\<lparr>b_valid := True, b_dirty := False, b_qnext := None\<rparr>)"
  shows "dirty t = (\<lambda>k n. dirty s k n \<and> \<not> (k = b_dev x \<and> n = b_blockno x))"
proof (intro ext iffI)
  show "dirty s k n \<and> \<not> (k = b_dev x \<and> n = b_blockno x)" if "dirty t k n" for k n
    using that t held_id [OF inv b] by (auto simp: dirty_def x_def split: if_splits)
  show "dirty t k n" if a: "dirty s k n \<and> \<not> (k = b_dev x \<and> n = b_blockno x)" for k n
  proof -
    obtain c where c: "c < NBUF" "b_dirty (bufs (fsys s) c)" "b_dev (bufs (fsys s) c) = k" "b_blockno (bufs (fsys s) c) = n"
      using a by (auto simp: dirty_def)
    then have "c \<noteq> b" using a by (auto simp: x_def)
    with c t show ?thesis by (auto simp: dirty_def)
  qed
qed

lemma written_view:
  fixes s t :: "'a system_scheme"
  assumes inv: "cache_inv H s" and b: "b \<in> H"
  defines "x \<equiv> bufs (fsys s) b"
  defines "D \<equiv> put_disk (b_dev x) (b_blockno x) (b_data x) (disk (fsys s))"
  assumes t: "rw_frame (set_bufs B s) t" "disk (fsys t) = D"
    "bufs (fsys t) = (bufs (fsys s))(b := x\<lparr>b_valid := True, b_dirty := False, b_qnext := None\<rparr>)" and k: "k \<noteq> 0"
  shows "view t k n = view s k n"
proof (cases "k = b_dev x \<and> n = b_blockno x")
  case True
  then show ?thesis using held_view [OF written_inv [OF inv b t [unfolded D_def x_def]] b, of k n] held_view [OF inv b, of k n] t by (simp add: x_def)
next
  case False
  then show ?thesis
    by (intro view_same [OF cache_inv_one [OF inv] cache_inv_one [OF written_inv [OF inv b t [unfolded D_def x_def]]] k, of b])
      (use t held_buf [OF inv b] in \<open>auto simp: D_def contrib_def x_def\<close>)
qed

lemma bwrite_wp:
  fixes s :: "'a system_scheme"
  assumes K: "good K" and inv: "cache_inv H s" and b: "b \<in> H"
  defines "x \<equiv> bufs (fsys s) b"
  defines "D \<equiv> put_disk (b_dev x) (b_blockno x) (b_data x) (disk (fsys s))"
  assumes dev: "dev_ok (b_dev x)" "b_blockno x < FSSIZE"
  shows "wp (bwrite K b) (\<lambda>_ t. cache_inv H t \<and> bc_frame s t \<and> disk (fsys t) = D
      \<and> same_core (bufs (fsys t) b) (x\<lparr>b_dirty := False\<rparr>) \<and> (\<forall>c. c \<noteq> b \<longrightarrow> bufs (fsys t) c = bufs (fsys s) c)
      \<and> (\<forall>k n. k \<noteq> 0 \<longrightarrow> view t k n = view s k n)
      \<and> dirty t = (\<lambda>k n. dirty s k n \<and> \<not> (k = b_dev x \<and> n = b_blockno x)))
    (\<lambda>t. disk (fsys t) \<in> {disk (fsys s), D}) s"
proof -
  note h = held_buf [OF inv b]
  let ?s = "set_bufs ((bufs (fsys s))(b := x\<lparr>b_dirty := True\<rparr>)) s"
  let ?y = "x\<lparr>b_valid := True, b_dirty := False, b_qnext := None\<rparr>"
  have c: "calm s" and still: "still s" using cache_invD(1) [OF inv] cache_inv_still [OF inv] .
  have w: "wp (disk_rw K b (b_dev x)) (\<lambda>_ t. rw_frame ?s t \<and> bufs (fsys t) = (bufs (fsys s))(b := ?y) \<and> disk (fsys t) = D)
      (\<lambda>t. disk (fsys t) \<in> {disk (fsys s), D}) ?s"
    using rw_write [OF K, of ?s b] c still h dev by (simp add: slocked_def D_def)
  have post: "cache_inv H t \<and> bc_frame s t \<and> disk (fsys t) = D
      \<and> same_core (bufs (fsys t) b) (x\<lparr>b_dirty := False\<rparr>) \<and> (\<forall>c. c \<noteq> b \<longrightarrow> bufs (fsys t) c = bufs (fsys s) c)
      \<and> (\<forall>k n. k \<noteq> 0 \<longrightarrow> view t k n = view s k n)
      \<and> dirty t = (\<lambda>k n. dirty s k n \<and> \<not> (k = b_dev x \<and> n = b_blockno x))"
    if t: "rw_frame ?s t \<and> bufs (fsys t) = (bufs (fsys s))(b := ?y) \<and> disk (fsys t) = D" for t
  proof -
    note r = t [THEN conjunct1] t [THEN conjunct2, THEN conjunct2, unfolded D_def x_def] t [THEN conjunct2, THEN conjunct1, unfolded x_def]
    have "bc_frame s t" using t bc_frame_trans [OF bc_frame_bufs] unfolding rw_frame_def by blast
    moreover have "same_core (bufs (fsys t) b) (x\<lparr>b_dirty := False\<rparr>)" using t h(4) by (simp add: same_core_def x_def)
    ultimately show ?thesis
      using t written_inv [OF inv b r] written_view [OF inv b r] written_dirty [OF inv b r, folded x_def] by simp
  qed
  have "wp (disk_rw K b (b_dev x)) (\<lambda>_ t. cache_inv H t \<and> bc_frame s t \<and> disk (fsys t) = D
      \<and> same_core (bufs (fsys t) b) (x\<lparr>b_dirty := False\<rparr>) \<and> (\<forall>c. c \<noteq> b \<longrightarrow> bufs (fsys t) c = bufs (fsys s) c)
      \<and> (\<forall>k n. k \<noteq> 0 \<longrightarrow> view t k n = view s k n)
      \<and> dirty t = (\<lambda>k n. dirty s k n \<and> \<not> (k = b_dev x \<and> n = b_blockno x)))
    (\<lambda>t. disk (fsys t) \<in> {disk (fsys s), D}) ?s"
    using w by (rule wp_mono) (rule post)
  then show ?thesis using c h by (simp add: bwrite_def wp_simps slocked_def x_def)
qed

end

end
