(* ===== verification/Fslog_Inv.thy ===== *)
theory Fslog_Inv
  imports Bcache_Inv Inode
begin

text \<open>
  The write-ahead log of \<open>src/kernel/fs/log.c\<close> (modelled in \<open>Fslog\<close>) is proved atomic: \<open>commit\<close>
  brings the logged blocks to their places, and wherever it may stop for good while it waits for
  the disk, the log on the disk either is empty or holds the whole transaction, so that
  \<open>recover_from_log\<close> gives the contents before the commit or after it. The disk enters through the
  locale \<open>block_device\<close> of \<open>Bcache_Inv\<close>.
\<close>

section \<open>Copying blocks\<close>

lemma blk_move_block [simp]: "blk (move_block a b) = blk a"
  by (auto simp: blk_def move_block_def)

lemma wp_brelse:
  assumes "cache_inv H s" "b \<in> H"
    and "b_dirty (bufs (fsys s) b) \<or> blk (b_data (bufs (fsys s) b))
      = blk (disk (fsys s) (b_dev (bufs (fsys s) b)) (b_blockno (bufs (fsys s) b)))"
    and "\<And>t. \<lbrakk>cache_inv (H - {b}) t; bc_frame s t; disk (fsys t) = disk (fsys s);
      \<forall>c. c \<noteq> b \<longrightarrow> same_core (bufs (fsys t) c) (bufs (fsys s) c); \<forall>k n. k \<noteq> 0 \<longrightarrow> view t k n = view s k n;
      dirty t = dirty s; \<forall>c. b_dirty (bufs (fsys t) c) = b_dirty (bufs (fsys s) c)\<rbrakk> \<Longrightarrow> Q () t"
  shows "wp (brelse b) Q E s"
proof -
  from brelse_exec [OF assms(1-3)] obtain t where "brelse b s = Done () t" "Q () t" using assms(4) by blast
  then show ?thesis by (simp add: wp_def)
qed

text \<open>
  What a block copy from \<open>(dev, sp)\<close> to \<open>(dev, dq)\<close> through the cache achieves: the target block is
  on the disk and not dirty any more, everything else is as it was.
\<close>

definition copied :: "32 word \<Rightarrow> 32 word \<Rightarrow> 32 word \<Rightarrow> 'a system_scheme \<Rightarrow> 'a system_scheme \<Rightarrow> bool" where
  "copied dev sp dq s t \<longleftrightarrow> cache_inv {} t \<and> bc_frame s t
     \<and> (\<exists>d. blk d = view s dev sp \<and> disk (fsys t) = put_disk dev dq d (disk (fsys s)))
     \<and> (\<forall>k n. k \<noteq> 0 \<longrightarrow> view t k n = (if k = dev \<and> n = dq then view s dev sp else view s k n))
     \<and> dirty t = (\<lambda>k n. dirty s k n \<and> \<not> (k = dev \<and> n = dq))
     \<and> (\<forall>c < NBUF. b_dirty (bufs (fsys t) c) \<longrightarrow> b_dirty (bufs (fsys s) c))"

context block_device
begin

lemma wp_bread:
  assumes "good K" "cache_inv H s" "dev_ok dev" "bno < FSSIZE"
    "\<forall>b \<in> H. \<not> (b_dev (bufs (fsys s) b) = dev \<and> b_blockno (bufs (fsys s) b) = bno)"
    "busy H s \<noteq> {..<NBUF} \<or> dirty s dev bno"
    and "\<And>b t. opened H s b dev bno t \<Longrightarrow> Q b t" "\<And>t. disk (fsys t) = disk (fsys s) \<Longrightarrow> E t"
  shows "wp (bread K dev bno) Q E s"
  by (rule wp_mono [OF bread_wp [OF assms(1-6)]]) (use assms(7,8) in auto)

lemma wp_bwrite:
  assumes "good K" "cache_inv H s" "b \<in> H" "bufs (fsys s) b = x" "dev_ok (b_dev x)" "b_blockno x < FSSIZE"
    "D = put_disk (b_dev x) (b_blockno x) (b_data x) (disk (fsys s))"
    and "\<And>t. \<lbrakk>cache_inv H t; bc_frame s t; disk (fsys t) = D; same_core (bufs (fsys t) b) (x\<lparr>b_dirty := False\<rparr>);
      \<forall>c. c \<noteq> b \<longrightarrow> bufs (fsys t) c = bufs (fsys s) c; \<forall>k n. k \<noteq> 0 \<longrightarrow> view t k n = view s k n;
      dirty t = (\<lambda>k n. dirty s k n \<and> \<not> (k = b_dev x \<and> n = b_blockno x))\<rbrakk> \<Longrightarrow> Q () t"
    and "\<And>t. disk (fsys t) = disk (fsys s) \<or> disk (fsys t) = D \<Longrightarrow> E t"
  shows "wp (bwrite K b) Q E s"
  by (rule wp_mono [OF bwrite_wp [OF assms(1-3)]]) (use assms(4-9) in auto)

text \<open>The common end of the loops of the log, with both blocks locked.\<close>

lemma copy_tail_wp:
  fixes u :: "'a system_scheme"
  assumes K: "good K" and inv: "cache_inv {p, q} u" and pq: "p \<noteq> q"
    and p: "b_dev (bufs (fsys u) p) = dev" "b_blockno (bufs (fsys u) p) = sp"
      "b_dirty (bufs (fsys u) p) \<or> blk (b_data (bufs (fsys u) p)) = blk (disk (fsys u) dev sp)"
    and q: "b_dev (bufs (fsys u) q) = dev" "b_blockno (bufs (fsys u) q) = dq" "dev_ok dev" "dq < FSSIZE"
    and rest: "\<And>t. copied dev sp dq u t \<Longrightarrow> wp rest Q E t"
    and crash: "\<And>t d. blk d = view u dev sp \<Longrightarrow> disk (fsys t) = disk (fsys u) \<or> disk (fsys t) = put_disk dev dq d (disk (fsys u)) \<Longrightarrow> E t"
  shows "wp (bind (buf_at p) (\<lambda>x. bind (upd_buf q (\<lambda>y. y\<lparr>b_data := move_block (b_data x) (b_data y)\<rparr>)) (\<lambda>_.
    bind (bwrite K q) (\<lambda>_. bind (brelse p) (\<lambda>_. bind (brelse q) (\<lambda>_. rest)))))) Q E u"
proof -
  let ?x = "bufs (fsys u) p" and ?y = "bufs (fsys u) q"
  let ?d = "move_block (b_data ?x) (b_data ?y)"
  let ?v = "set_bufs ((bufs (fsys u))(q := ?y\<lparr>b_data := ?d\<rparr>)) u"
  have vd: "view u dev sp = blk (b_data ?x)" using held_view [OF inv, of p] p by simp
  have ne: "sp \<noteq> dq" using cache_invD(4) [OF inv, of p q] held_buf [OF inv, of p] held_buf [OF inv, of q] p q pq
    by (auto simp: same_id_def)
  have qin: "q \<in> {p, q}" by simp
  note sd = set_data [OF inv qin, where d = ?d]
  let ?D = "put_disk dev dq ?d (disk (fsys u))"
  have "wp (bwrite K q) (\<lambda>_. wp (brelse p) (\<lambda>_. wp (brelse q) (\<lambda>_. wp rest Q E) E) E) E ?v"
  proof (rule wp_bwrite [OF K sd(1), where x = "?y\<lparr>b_data := ?d\<rparr>" and D = ?D])
    fix t
    assume t: "cache_inv {p, q} t" "bc_frame ?v t" "disk (fsys t) = ?D" "same_core (bufs (fsys t) q) (?y\<lparr>b_data := ?d, b_dirty := False\<rparr>)"
      "\<forall>c. c \<noteq> q \<longrightarrow> bufs (fsys t) c = bufs (fsys ?v) c" "\<forall>k n. k \<noteq> 0 \<longrightarrow> view t k n = view ?v k n"
      "dirty t = (\<lambda>k n. dirty ?v k n \<and> \<not> (k = b_dev (?y\<lparr>b_data := ?d\<rparr>) \<and> n = b_blockno (?y\<lparr>b_data := ?d\<rparr>)))"
    have tp: "bufs (fsys t) p = ?x" using t(5) pq by simp
    show "wp (brelse p) (\<lambda>_. wp (brelse q) (\<lambda>_. wp rest Q E) E) E t"
    proof (rule wp_brelse [OF t(1)])
      fix w
      assume w: "cache_inv ({p, q} - {p}) w" "bc_frame t w" "disk (fsys w) = disk (fsys t)"
        "\<forall>c. c \<noteq> p \<longrightarrow> same_core (bufs (fsys w) c) (bufs (fsys t) c)" "\<forall>k n. k \<noteq> 0 \<longrightarrow> view w k n = view t k n"
        "dirty w = dirty t" "\<forall>c. b_dirty (bufs (fsys w) c) = b_dirty (bufs (fsys t) c)"
      have wq: "same_core (bufs (fsys w) q) (?y\<lparr>b_data := ?d, b_dirty := False\<rparr>)"
        using w(4) t(4) pq same_core_trans by metis
      show "wp (brelse q) (\<lambda>_. wp rest Q E) E w"
      proof (rule wp_brelse [OF w(1)])
        show "q \<in> {p, q} - {p}" using pq by simp
        show "b_dirty (bufs (fsys w) q) \<or> blk (b_data (bufs (fsys w) q))
            = blk (disk (fsys w) (b_dev (bufs (fsys w) q)) (b_blockno (bufs (fsys w) q)))"
          using wq w(3) t(3) q by (simp add: same_core_def)
        fix z
        assume z: "cache_inv ({p, q} - {p} - {q}) z" "bc_frame w z" "disk (fsys z) = disk (fsys w)"
          "\<forall>k n. k \<noteq> 0 \<longrightarrow> view z k n = view w k n" "dirty z = dirty w" "\<forall>c. b_dirty (bufs (fsys z) c) = b_dirty (bufs (fsys w) c)"
        have fr: "bc_frame u z"
          by (rule bc_frame_trans [OF bc_frame_bufs bc_frame_trans [OF t(2) bc_frame_trans [OF w(2) z(2)]]])
        have em: "{p, q} - {p} - {q} = {}" by auto
        have dd: "b_dirty (bufs (fsys z) c) \<longrightarrow> b_dirty (bufs (fsys u) c)" for c
          using z(6) w(7) t(4,5) by (cases "c = q") (simp_all add: same_core_def)
        have "copied dev sp dq u z"
          unfolding copied_def
        proof (intro conjI)
          show "cache_inv {} z" using z(1) unfolding em .
          show "\<exists>d. blk d = view u dev sp \<and> disk (fsys z) = put_disk dev dq d (disk (fsys u))"
            using z(3) w(3) t(3) vd by (intro exI [of _ ?d]) simp
          show "\<forall>k n. k \<noteq> 0 \<longrightarrow> view z k n = (if k = dev \<and> n = dq then view u dev sp else view u k n)"
            using z(4) w(5) t(6) sd(3) vd q by simp
          show "dirty z = (\<lambda>k n. dirty u k n \<and> \<not> (k = dev \<and> n = dq))"
            using z(5) w(6) t(7) sd(2) q by simp
        qed (use fr dd in auto)
        then show "wp rest Q E z" by (rule rest)
      qed
    qed (use tp p t(3) ne in auto)
  qed (use q crash [of ?d] vd in auto)
  then show ?thesis by (simp add: wp_simps)
qed

text \<open>Two blocks are opened, one after the other.\<close>

lemma two_opened:
  fixes s u v :: "'a system_scheme"
  assumes "opened {} s a dev an u" "opened {a} u b dev bn v" "dev \<noteq> 0"
  shows "cache_inv {a, b} v" "a \<noteq> b" "b_dev (bufs (fsys v) a) = dev" "b_blockno (bufs (fsys v) a) = an"
    "b_dirty (bufs (fsys v) a) \<or> blk (b_data (bufs (fsys v) a)) = blk (disk (fsys v) dev an)"
    "b_dev (bufs (fsys v) b) = dev" "b_blockno (bufs (fsys v) b) = bn"
    "b_dirty (bufs (fsys v) b) \<or> blk (b_data (bufs (fsys v) b)) = blk (disk (fsys v) dev bn)"
    "disk (fsys v) = disk (fsys s)" "k \<noteq> 0 \<Longrightarrow> view v k n = view s k n" "copied dev sp dq v t \<Longrightarrow> copied dev sp dq s t"
proof -
  have 1: "same_core (bufs (fsys v) a) (bufs (fsys u) a)" "b_dev (bufs (fsys u) a) = dev" "b_blockno (bufs (fsys u) a) = an"
    "b_dirty (bufs (fsys u) a) \<or> blk (b_data (bufs (fsys u) a)) = blk (disk (fsys u) dev an)"
    using assms(1,2) by (auto simp: opened_def)
  have fr: "bc_frame s v" using assms(1,2) bc_frame_trans unfolding opened_def by blast
  have v: "view v k n = view s k n" if "k \<noteq> 0" for k n using that assms(1,2) by (auto simp: opened_def)
  have b: "\<forall>c < NBUF. b_dirty (bufs (fsys v) c) = b_dirty (bufs (fsys s) c)" "dirty v = dirty s"
    using assms(1,2) by (auto simp: opened_def)
  show d: "disk (fsys v) = disk (fsys s)" using assms(1,2) by (simp add: opened_def)
  show "cache_inv {a, b} v" using assms(2) by (simp add: opened_def insert_commute)
  show "a \<noteq> b" "b_dev (bufs (fsys v) b) = dev" "b_blockno (bufs (fsys v) b) = bn"
    "b_dirty (bufs (fsys v) b) \<or> blk (b_data (bufs (fsys v) b)) = blk (disk (fsys v) dev bn)"
    using assms(2) by (auto simp: opened_def)
  show "b_dev (bufs (fsys v) a) = dev" "b_blockno (bufs (fsys v) a) = an"
    "b_dirty (bufs (fsys v) a) \<or> blk (b_data (bufs (fsys v) a)) = blk (disk (fsys v) dev an)"
    using 1 assms(2) by (auto simp: same_core_def opened_def)
  show "view v k n = view s k n" if "k \<noteq> 0" using that by (rule v)
  show "copied dev sp dq s t" if "copied dev sp dq v t"
    using that bc_frame_trans [OF fr] b d v assms(3) by (auto simp: copied_def)
qed

text \<open>Can \<open>bn\<close> be read while \<open>an\<close> is locked?\<close>

definition room_for_two :: "'a system_scheme \<Rightarrow> 32 word \<Rightarrow> 32 word \<Rightarrow> bool" where
  "room_for_two s dev bn \<longleftrightarrow> card (busy {} s) < NBUF \<and> (card (busy {} s) + 1 < NBUF \<or> dirty s dev bn)"

lemma card_busy_insert:
  "opened {} s a dev an u \<Longrightarrow> card (busy {a} u) \<le> card (busy {} s) + 1"
proof -
  assume o: "opened {} s a dev an u"
  then have "busy {a} u \<subseteq> insert a (busy {} s)" by (auto simp: opened_def busy_def)
  moreover have "finite (busy {} s)" by (rule finite_subset [of _ "{..<NBUF}"]) (auto simp: busy_def)
  ultimately have "card (busy {a} u) \<le> card (insert a (busy {} s))" by (intro card_mono) auto
  also have "\<dots> \<le> card (busy {} s) + 1" by (simp add: card_insert_le_m1 card_insert_if \<open>finite (busy {} s)\<close>)
  finally show ?thesis .
qed

lemma not_all_busy: "card (busy H s) < NBUF \<Longrightarrow> busy H s \<noteq> {..<NBUF}"
  by (metis card_lessThan less_irrefl)

lemma open_two_wp:
  fixes s :: "'a system_scheme"
  assumes K: "good K" and inv: "cache_inv {} s" and dev: "dev_ok dev" "an < FSSIZE" "bn < FSSIZE" "an \<noteq> bn"
    and room: "room_for_two s dev bn"
    and go: "\<And>a b u v. opened {} s a dev an u \<Longrightarrow> opened {a} u b dev bn v \<Longrightarrow> wp (f a b) Q E v"
    and crash: "\<And>t. disk (fsys t) = disk (fsys s) \<Longrightarrow> E t"
  shows "wp (bind (bread K dev an) (\<lambda>a. bind (bread K dev bn) (f a))) Q E s"
  unfolding wp_bind
proof (rule wp_bread [OF K inv dev(1,2)])
  show "busy {} s \<noteq> {..<NBUF} \<or> dirty s dev an" using room not_all_busy [of "{}" s] unfolding room_for_two_def by blast
  fix a u
  assume o: "opened {} s a dev an u"
  show "wp (bread K dev bn) (\<lambda>b. wp (f a b) Q E) E u"
  proof (rule wp_bread [OF K _ dev(1,3)])
    show "cache_inv {a} u" "\<forall>b\<in>{a}. \<not> (b_dev (bufs (fsys u) b) = dev \<and> b_blockno (bufs (fsys u) b) = bn)"
      using o dev(4) by (simp_all add: opened_def)
    show "busy {a} u \<noteq> {..<NBUF} \<or> dirty u dev bn"
    proof (cases "dirty s dev bn")
      case False
      then have "card (busy {a} u) < NBUF" using card_busy_insert [OF o] room by (simp add: room_for_two_def)
      then show ?thesis by (intro disjI1 not_all_busy)
    next
      case True
      moreover have "dirty u = dirty s" using o by (simp add: opened_def)
      ultimately show ?thesis by simp
    qed
    fix b v
    assume "opened {a} u b dev bn v"
    then show "wp (f a b) Q E v" by (rule go [OF o])
  next
    fix t :: "'a system_scheme"
    assume "disk (fsys t) = disk (fsys u)"
    then show "E t" using o by (intro crash) (simp add: opened_def)
  qed
next
  fix t :: "'a system_scheme"
  assume "disk (fsys t) = disk (fsys s)"
  then show "E t" by (rule crash)
qed simp

end

section \<open>The area of the log\<close>

definition log_block :: "logstate \<Rightarrow> nat \<Rightarrow> 32 word" where
  "log_block l i = l_start l + of_nat i + 1"

definition log_area :: "logstate \<Rightarrow> 32 word set" where
  "log_area l = {b. unat (l_start l) \<le> unat b \<and> unat b < unat (l_start l) + 30}"

definition log_ok :: "logstate \<Rightarrow> nat \<Rightarrow> bool" where
  "log_ok l n \<longleftrightarrow> dev_ok (l_dev l) \<and> lh_n (l_lh l) = int n \<and> n < 30 \<and> unat (l_start l) + 30 \<le> 1000
     \<and> inj_on (lh_block (l_lh l)) {..<n} \<and> (\<forall>i < n. lh_block (l_lh l) i < FSSIZE \<and> lh_block (l_lh l) i \<notin> log_area l)"

lemma unat_log_block:
  assumes "unat (l_start l) + 30 \<le> 1000" "i < 29"
  shows "unat (log_block l i) = unat (l_start l) + i + 1"
proof -
  have "unat (of_nat i :: 32 word) = i" using assms(2) by (simp add: unat_of_nat)
  then show ?thesis using assms by (simp add: log_block_def unat_word_ariths)
qed

lemma log_okD:
  assumes "log_ok l n"
  shows "dev_ok (l_dev l)" "l_start l < FSSIZE" "i < n \<Longrightarrow> log_block l i < FSSIZE" "i < n \<Longrightarrow> log_block l i \<in> log_area l"
    "i < n \<Longrightarrow> log_block l i \<noteq> l_start l" "l_start l \<in> log_area l" "i < n \<Longrightarrow> lh_block (l_lh l) i < FSSIZE"
    "i < n \<Longrightarrow> lh_block (l_lh l) i \<notin> log_area l" "inj_on (log_block l) {..<n}" "inj_on (lh_block (l_lh l)) {..<n}"
proof -
  note u = unat_log_block [of l]
  have s: "unat (l_start l) + 30 \<le> 1000" "n < 30" using assms by (simp_all add: log_ok_def)
  then have un: "unat (log_block l i) = unat (l_start l) + i + 1" if "i < n" for i using u that by simp
  show "dev_ok (l_dev l)" "i < n \<Longrightarrow> lh_block (l_lh l) i < FSSIZE" "i < n \<Longrightarrow> lh_block (l_lh l) i \<notin> log_area l"
    "inj_on (lh_block (l_lh l)) {..<n}" using assms by (simp_all add: log_ok_def)
  show "l_start l < FSSIZE" "l_start l \<in> log_area l" using s by (simp_all add: word_less_nat_alt log_area_def)
  show "log_block l i < FSSIZE" "log_block l i \<in> log_area l" if "i < n"
    using un [OF that] s that by (simp_all add: word_less_nat_alt log_area_def)
  show "log_block l i \<noteq> l_start l" if "i < n"
    using un [OF that] by (metis add.assoc add_eq_self_zero add_is_0 zero_neq_one)
  show "inj_on (log_block l) {..<n}"
  proof (rule inj_onI)
    fix x y
    assume xy: "x \<in> {..<n}" "y \<in> {..<n}" and e: "log_block l x = log_block l y"
    have "unat (log_block l x) = unat (log_block l y)" by (rule arg_cong [OF e])
    moreover have "unat (log_block l x) = unat (l_start l) + x + 1" "unat (log_block l y) = unat (l_start l) + y + 1"
      using un xy unfolding lessThan_iff by blast+
    ultimately show "x = y" by linarith
  qed
qed

section \<open>Copying a sequence of blocks\<close>

definition copied_all :: "32 word \<Rightarrow> (nat \<Rightarrow> 32 word) \<Rightarrow> (nat \<Rightarrow> 32 word) \<Rightarrow> nat \<Rightarrow> nat \<Rightarrow> 'a system_scheme \<Rightarrow> 'a system_scheme \<Rightarrow> bool" where
  "copied_all dev f g i n s t \<longleftrightarrow> cache_inv {} t \<and> bc_frame s t
     \<and> (\<forall>j \<in> {i..<n}. blk (disk (fsys t) dev (g j)) = view s dev (f j) \<and> view t dev (g j) = view s dev (f j))
     \<and> (\<forall>k b. \<not> (k = dev \<and> b \<in> g ` {i..<n}) \<longrightarrow> disk (fsys t) k b = disk (fsys s) k b)
     \<and> (\<forall>k b. k \<noteq> 0 \<and> \<not> (k = dev \<and> b \<in> g ` {i..<n}) \<longrightarrow> view t k b = view s k b)
     \<and> dirty t = (\<lambda>k b. dirty s k b \<and> \<not> (k = dev \<and> b \<in> g ` {i..<n}))
     \<and> (\<forall>c < NBUF. b_dirty (bufs (fsys t) c) \<longrightarrow> b_dirty (bufs (fsys s) c))"

definition partly :: "32 word \<Rightarrow> (nat \<Rightarrow> 32 word) \<Rightarrow> (nat \<Rightarrow> 32 word) \<Rightarrow> nat \<Rightarrow> nat \<Rightarrow> 'a system_scheme \<Rightarrow> 'a system_scheme \<Rightarrow> bool" where
  "partly dev f g i n s u \<longleftrightarrow> (\<forall>k b. \<not> (k = dev \<and> b \<in> g ` {i..<n}) \<longrightarrow> disk (fsys u) k b = disk (fsys s) k b)
     \<and> (\<forall>j \<in> {i..<n}. blk (disk (fsys u) dev (g j)) \<in> {blk (disk (fsys s) dev (g j)), view s dev (f j)})"

lemma range_step: "i < n \<Longrightarrow> {i..<n} = insert i {Suc i..<n}"
  by auto

lemma image_step: "i < n \<Longrightarrow> g ` {i..<n} = insert (g i) (g ` {Suc i..<n})"
  by (subst range_step) simp_all

lemma copied_all_step:
  assumes c: "copied dev (f i) (g i) s t" and a: "copied_all dev f g (Suc i) n t u" and i: "i < n"
    and dis: "\<forall>j \<in> {Suc i..<n}. f j \<noteq> g i \<and> g j \<noteq> g i" and dev: "dev \<noteq> 0"
  shows "copied_all dev f g i n s u"
proof -
  have gi: "g i \<notin> g ` {Suc i..<n}" using dis by auto
  have v: "view t dev (f j) = view s dev (f j)" if "j \<in> {Suc i..<n}" for j
    using c dis dev that by (auto simp: copied_def)
  have fr: "bc_frame s u" using c a bc_frame_trans unfolding copied_def copied_all_def by blast
  have 1: "blk (disk (fsys u) dev (g j)) = view s dev (f j) \<and> view u dev (g j) = view s dev (f j)" if "j \<in> {i..<n}" for j
  proof (cases "j = i")
    case True
    then show ?thesis using a c gi dev by (auto simp: copied_all_def copied_def)
  next
    case False
    then show ?thesis using a v [of j] that by (simp add: copied_all_def)
  qed
  have 2: "disk (fsys u) k b = disk (fsys s) k b" if "\<not> (k = dev \<and> b \<in> g ` {i..<n})" for k b
    using a c that unfolding copied_all_def copied_def image_step [OF i] by auto
  have 3: "view u k b = view s k b" if "k \<noteq> 0 \<and> \<not> (k = dev \<and> b \<in> g ` {i..<n})" for k b
    using a c that unfolding copied_all_def copied_def image_step [OF i] by auto
  have 4: "dirty u = (\<lambda>k b. dirty s k b \<and> \<not> (k = dev \<and> b \<in> g ` {i..<n}))"
    using a c unfolding copied_all_def copied_def image_step [OF i] by (auto simp: fun_eq_iff)
  show ?thesis using 1 2 3 4 fr a c by (simp add: copied_all_def copied_def)
qed

lemma partly_step:
  assumes c: "copied dev (f i) (g i) s t" and a: "partly dev f g (Suc i) n t u" and i: "i < n"
    and dis: "\<forall>j \<in> {Suc i..<n}. f j \<noteq> g i \<and> g j \<noteq> g i" and dev: "dev \<noteq> 0"
  shows "partly dev f g i n s u"
proof -
  have gi: "g i \<notin> g ` {Suc i..<n}" using dis by auto
  have 1: "blk (disk (fsys u) dev (g j)) \<in> {blk (disk (fsys s) dev (g j)), view s dev (f j)}" if "j \<in> {i..<n}" for j
  proof (cases "j = i")
    case True
    then show ?thesis using a c gi by (auto simp: partly_def copied_def)
  next
    case False
    then have j: "j \<in> {Suc i..<n}" using that by simp
    then have "view t dev (f j) = view s dev (f j)" "disk (fsys t) dev (g j) = disk (fsys s) dev (g j)"
      using c dis dev by (auto simp: copied_def)
    moreover have "blk (disk (fsys u) dev (g j)) \<in> {blk (disk (fsys t) dev (g j)), view t dev (f j)}"
      using a j unfolding partly_def by blast
    ultimately show ?thesis by simp
  qed
  have 2: "disk (fsys u) k b = disk (fsys s) k b" if "\<not> (k = dev \<and> b \<in> g ` {i..<n})" for k b
    using a c that unfolding partly_def copied_def image_step [OF i] by auto
  show ?thesis using 1 2 by (simp add: partly_def)
qed

definition log_room :: "'a system_scheme \<Rightarrow> 32 word \<Rightarrow> 32 word set \<Rightarrow> bool" where
  "log_room s dev B \<longleftrightarrow> card (busy {} s) < NBUF \<and> (card (busy {} s) + 1 < NBUF \<or> (\<forall>b \<in> B. dirty s dev b))"

lemma log_room_copied:
  assumes "log_room s dev B" "copied dev sp dq s t" "C \<subseteq> B" "dq \<notin> C"
  shows "log_room t dev C"
proof -
  have "busy {} t \<subseteq> busy {} s" using assms(2) by (auto simp: busy_def copied_def)
  moreover have "finite (busy {} s)" by (rule finite_subset [of _ "{..<NBUF}"]) (auto simp: busy_def)
  ultimately have "card (busy {} t) \<le> card (busy {} s)" by (rule card_mono [rotated])
  moreover have "\<forall>b \<in> C. dirty s dev b \<longrightarrow> dirty t dev b" using assms(2,4) by (auto simp: copied_def)
  ultimately show ?thesis using assms(1,3) by (fastforce simp: log_room_def)
qed

lemma copied_lg: "copied dev sp dq s t \<Longrightarrow> lg (fsys t) = lg (fsys s)"
  unfolding copied_def bc_frame_def by (blast intro: others_lg)

lemma dev_ok_nz: "dev_ok dev \<Longrightarrow> dev \<noteq> 0"
  by (auto simp: dev_ok_def)

lemma copied_all_refl: "cache_inv {} s \<Longrightarrow> n \<le> i \<Longrightarrow> copied_all dev f g i n s s"
  by (simp add: copied_all_def)

lemma wp_log_at [wp_simps]: "wp log_at Q E s = Q (lg (fsys s)) s"
  by (simp add: wp_def log_at_def exec_simps)

context block_device
begin

lemma install_step_wp:
  fixes s :: "'a system_scheme"
  assumes "good K" "cache_inv {} s" "dev_ok dev" "sp < FSSIZE" "dq < FSSIZE" "sp \<noteq> dq" "room_for_two s dev dq"
    and rest: "\<And>t. copied dev sp dq s t \<Longrightarrow> wp rest Q E t"
    and crash: "\<And>t d. blk d = view s dev sp \<Longrightarrow> disk (fsys t) = disk (fsys s) \<or> disk (fsys t) = put_disk dev dq d (disk (fsys s)) \<Longrightarrow> E t"
  shows "wp (bind (bread K dev sp) (\<lambda>p. bind (bread K dev dq) (\<lambda>q. bind (buf_at p) (\<lambda>x.
    bind (upd_buf q (\<lambda>y. y\<lparr>b_data := move_block (b_data x) (b_data y)\<rparr>)) (\<lambda>_.
    bind (bwrite K q) (\<lambda>_. bind (brelse p) (\<lambda>_. bind (brelse q) (\<lambda>_. rest)))))))) Q E s"
proof (rule open_two_wp [OF assms(1-7)])
  fix p q u v
  assume "opened {} s p dev sp u" "opened {p} u q dev dq v"
  note o = two_opened [OF this dev_ok_nz [OF assms(3)]]
  have vw: "view v dev sp = view s dev sp" using o(10) dev_ok_nz [OF assms(3)] .
  show "wp (bind (buf_at p) (\<lambda>x. bind (upd_buf q (\<lambda>y. y\<lparr>b_data := move_block (b_data x) (b_data y)\<rparr>)) (\<lambda>_.
    bind (bwrite K q) (\<lambda>_. bind (brelse p) (\<lambda>_. bind (brelse q) (\<lambda>_. rest)))))) Q E v"
    by (rule copy_tail_wp [OF assms(1) o(1-7) assms(3,5)])
      (use o(9) vw in \<open>auto intro: rest [OF o(11)] crash\<close>)
next
  fix t :: "'a system_scheme"
  assume "disk (fsys t) = disk (fsys s)"
  then show "E t" using crash [of "view s dev sp" t] by (simp add: view_def)
qed

lemma log_step_wp:
  fixes s :: "'a system_scheme"
  assumes "good K" "cache_inv {} s" "dev_ok dev" "dq < FSSIZE" "sp < FSSIZE" "dq \<noteq> sp" "room_for_two s dev sp"
    and rest: "\<And>t. copied dev sp dq s t \<Longrightarrow> wp rest Q E t"
    and crash: "\<And>t d. blk d = view s dev sp \<Longrightarrow> disk (fsys t) = disk (fsys s) \<or> disk (fsys t) = put_disk dev dq d (disk (fsys s)) \<Longrightarrow> E t"
  shows "wp (bind (bread K dev dq) (\<lambda>q. bind (bread K dev sp) (\<lambda>p. bind (buf_at p) (\<lambda>x.
    bind (upd_buf q (\<lambda>y. y\<lparr>b_data := move_block (b_data x) (b_data y)\<rparr>)) (\<lambda>_.
    bind (bwrite K q) (\<lambda>_. bind (brelse p) (\<lambda>_. bind (brelse q) (\<lambda>_. rest)))))))) Q E s"
proof (rule open_two_wp [OF assms(1-7)])
  fix q p u v
  assume "opened {} s q dev dq u" "opened {q} u p dev sp v"
  note o = two_opened [OF this dev_ok_nz [OF assms(3)]]
  have vw: "view v dev sp = view s dev sp" using o(10) dev_ok_nz [OF assms(3)] .
  have inv: "cache_inv {p, q} v" "p \<noteq> q" using o(1,2) by (simp_all add: insert_commute)
  show "wp (bind (buf_at p) (\<lambda>x. bind (upd_buf q (\<lambda>y. y\<lparr>b_data := move_block (b_data x) (b_data y)\<rparr>)) (\<lambda>_.
    bind (bwrite K q) (\<lambda>_. bind (brelse p) (\<lambda>_. bind (brelse q) (\<lambda>_. rest)))))) Q E v"
    by (rule copy_tail_wp [OF assms(1) inv o(6-8) o(3,4) assms(3,4)])
      (use o(9) vw in \<open>auto intro: rest [OF o(11)] crash\<close>)
next
  fix t :: "'a system_scheme"
  assume "disk (fsys t) = disk (fsys s)"
  then show "E t" using crash [of "view s dev sp" t] by (simp add: view_def)
qed

lemma log_room_two:
  "log_room s dev B \<Longrightarrow> b \<in> B \<Longrightarrow> room_for_two s dev b"
  by (auto simp: log_room_def room_for_two_def)

end

lemma partly_start:
  "disk (fsys t) = disk (fsys s) \<or> disk (fsys t) = put_disk dev (g i) d (disk (fsys s)) \<Longrightarrow> blk d = view s dev (f i) \<Longrightarrow> i < n
   \<Longrightarrow> inj_on g {i..<n} \<Longrightarrow> partly dev f g i n s t"
  unfolding partly_def by (auto simp: inj_on_eq_iff)

context block_device
begin

lemma install_loop_wp:
  fixes s :: "'a system_scheme"
  assumes K: "good K" and l: "log_ok l n"
  shows "\<lbrakk>cache_inv {} s; lg (fsys s) = l; i + m = n; log_room s (l_dev l) (lh_block (l_lh l) ` {i..<n})\<rbrakk> \<Longrightarrow>
    wp (install_loop m i K) (\<lambda>_. copied_all (l_dev l) (log_block l) (lh_block (l_lh l)) i n s)
      (partly (l_dev l) (log_block l) (lh_block (l_lh l)) i n s) s"
proof (induction m arbitrary: i s)
  case 0
  then show ?case by (simp add: wp_simps copied_all_refl)
next
  case (Suc m)
  let ?f = "log_block l" and ?g = "lh_block (l_lh l)"
  note lok = log_okD [OF l]
  have i: "i < n" and n: "Suc i + m = n" using Suc.prems by auto
  have ne: "?f j \<noteq> ?g k" if "j < n" "k < n" for j k using lok(4) [OF that(1)] lok(8) [OF that(2)] by auto
  have dis: "\<forall>j \<in> {Suc i..<n}. ?f j \<noteq> ?g i \<and> ?g j \<noteq> ?g i"
    using i ne inj_onD [OF lok(10)] by fastforce
  have inj: "inj_on ?g {i..<n}" by (rule inj_on_subset [OF lok(10)]) auto
  have room: "room_for_two s (l_dev l) (?g i)" by (rule log_room_two [OF Suc.prems(4)]) (use i in auto)
  have "wp (bind (bread K (l_dev l) (?f i)) (\<lambda>p. bind (bread K (l_dev l) (?g i)) (\<lambda>q. bind (buf_at p) (\<lambda>x.
    bind (upd_buf q (\<lambda>y. y\<lparr>b_data := move_block (b_data x) (b_data y)\<rparr>)) (\<lambda>_.
    bind (bwrite K q) (\<lambda>_. bind (brelse p) (\<lambda>_. bind (brelse q) (\<lambda>_. install_loop m (Suc i) K))))))))
    (\<lambda>_. copied_all (l_dev l) ?f ?g i n s) (partly (l_dev l) ?f ?g i n s) s"
  proof (rule install_step_wp [OF K Suc.prems(1) lok(1) lok(3) [OF i] lok(7) [OF i] ne [OF i i] room])
    fix t
    assume c: "copied (l_dev l) (?f i) (?g i) s t"
    have "log_room t (l_dev l) (?g ` {Suc i..<n})"
      by (rule log_room_copied [OF Suc.prems(4) c]) (use dis in auto)
    moreover have "lg (fsys t) = l" "cache_inv {} t" using copied_lg [OF c] Suc.prems(2) c by (simp_all add: copied_def)
    ultimately show "wp (install_loop m (Suc i) K) (\<lambda>_. copied_all (l_dev l) ?f ?g i n s) (partly (l_dev l) ?f ?g i n s) t"
      using copied_all_step [OF c _ i dis dev_ok_nz [OF lok(1)]] partly_step [OF c _ i dis dev_ok_nz [OF lok(1)]]
      by (intro wp_mono [OF Suc.IH [OF _ _ n]])
  next
    fix t :: "'a system_scheme" and d
    assume "blk d = view s (l_dev l) (?f i)" "disk (fsys t) = disk (fsys s) \<or> disk (fsys t) = put_disk (l_dev l) (?g i) d (disk (fsys s))"
    then show "partly (l_dev l) ?f ?g i n s t" using partly_start i inj by blast
  qed
  then show ?case using Suc.prems(2) by (simp add: wp_log_at wp_bind log_block_def [symmetric])
qed

lemma write_log_loop_wp:
  fixes s :: "'a system_scheme"
  assumes K: "good K" and l: "log_ok l n"
  shows "\<lbrakk>cache_inv {} s; lg (fsys s) = l; i + m = n; log_room s (l_dev l) (lh_block (l_lh l) ` {i..<n})\<rbrakk> \<Longrightarrow>
    wp (write_log_loop m i K) (\<lambda>_. copied_all (l_dev l) (lh_block (l_lh l)) (log_block l) i n s)
      (partly (l_dev l) (lh_block (l_lh l)) (log_block l) i n s) s"
proof (induction m arbitrary: i s)
  case 0
  then show ?case by (simp add: wp_simps copied_all_refl)
next
  case (Suc m)
  let ?f = "lh_block (l_lh l)" and ?g = "log_block l"
  note lok = log_okD [OF l]
  have i: "i < n" and n: "Suc i + m = n" using Suc.prems by auto
  have ne: "?g j \<noteq> ?f k" if "j < n" "k < n" for j k using lok(4) [OF that(1)] lok(8) [OF that(2)] by auto
  have dis: "\<forall>j \<in> {Suc i..<n}. ?f j \<noteq> ?g i \<and> ?g j \<noteq> ?g i"
    using i ne inj_onD [OF lok(9)] by fastforce
  have inj: "inj_on ?g {i..<n}" by (rule inj_on_subset [OF lok(9)]) auto
  have room: "room_for_two s (l_dev l) (?f i)" by (rule log_room_two [OF Suc.prems(4)]) (use i in auto)
  have "wp (bind (bread K (l_dev l) (?g i)) (\<lambda>q. bind (bread K (l_dev l) (?f i)) (\<lambda>p. bind (buf_at p) (\<lambda>x.
    bind (upd_buf q (\<lambda>y. y\<lparr>b_data := move_block (b_data x) (b_data y)\<rparr>)) (\<lambda>_.
    bind (bwrite K q) (\<lambda>_. bind (brelse p) (\<lambda>_. bind (brelse q) (\<lambda>_. write_log_loop m (Suc i) K))))))))
    (\<lambda>_. copied_all (l_dev l) ?f ?g i n s) (partly (l_dev l) ?f ?g i n s) s"
  proof (rule log_step_wp [OF K Suc.prems(1) lok(1) lok(3) [OF i] lok(7) [OF i] ne [OF i i] room])
    fix t
    assume c: "copied (l_dev l) (?f i) (?g i) s t"
    have "log_room t (l_dev l) (?f ` {Suc i..<n})"
      by (rule log_room_copied [OF Suc.prems(4) c]) (use dis in auto)
    moreover have "lg (fsys t) = l" "cache_inv {} t" using copied_lg [OF c] Suc.prems(2) c by (simp_all add: copied_def)
    ultimately show "wp (write_log_loop m (Suc i) K) (\<lambda>_. copied_all (l_dev l) ?f ?g i n s) (partly (l_dev l) ?f ?g i n s) t"
      using copied_all_step [OF c _ i dis dev_ok_nz [OF lok(1)]] partly_step [OF c _ i dis dev_ok_nz [OF lok(1)]]
      by (intro wp_mono [OF Suc.IH [OF _ _ n]])
  next
    fix t :: "'a system_scheme" and d
    assume "blk d = view s (l_dev l) (?f i)" "disk (fsys t) = disk (fsys s) \<or> disk (fsys t) = put_disk (l_dev l) (?g i) d (disk (fsys s))"
    then show "partly (l_dev l) ?f ?g i n s t" using partly_start i inj by blast
  qed
  then show ?case using Suc.prems(2) by (simp add: wp_log_at wp_bind log_block_def [symmetric])
qed

end

section \<open>The header of the log\<close>

definition header_holds :: "bytes \<Rightarrow> nat \<Rightarrow> (nat \<Rightarrow> 32 word) \<Rightarrow> bool" where
  "header_holds d n f \<longleftrightarrow> sint (load32 d 0) = int n \<and> (\<forall>i < n. load32 d (4 + 4 * of_nat i) = f i)"

lemma put_blocks_addrs: "put_blocks n f d = put_addrs n f 4 d"
  by (induction n) simp_all

lemma load32_blk: "unat p + 4 \<le> 512 \<Longrightarrow> load32 (blk d) p = load32 d p"
  by (rule load32_cong) (auto simp: within_def fits_def blk_def word_less_nat_alt)

lemma unat_slot: "i < 30 \<Longrightarrow> unat (4 + 4 * of_nat i :: 32 word) = 4 + 4 * i"
  using fits_word(1) [of 4 i] by (simp add: fits_def)

lemma header_holds_cong: "blk d = blk e \<Longrightarrow> n < 30 \<Longrightarrow> header_holds d n f = header_holds e n f"
proof -
  assume e: "blk d = blk e" and n: "n < 30"
  have "load32 d p = load32 e p" if "unat p + 4 \<le> 512" for p using load32_blk [OF that] e by metis
  moreover have "unat (4 + 4 * of_nat i :: 32 word) + 4 \<le> 512" if "i < n" for i using unat_slot [of i] that n by simp
  ultimately show ?thesis by (simp add: header_holds_def)
qed

lemma header_holds_bytes:
  assumes "lh_n h = int n" "n < 30"
  shows "header_holds (header_bytes h d) n (lh_block h)"
proof -
  let ?e = "store32 0 (of_int (lh_n h)) d"
  have fit: "fits 4 (4 * n)" using assms(2) by (simp add: fits_def)
  have "load32 (put_addrs n (lh_block h) 4 ?e) 0 = load32 ?e 0"
    by (rule load32_cong) (auto simp: within_def fits_def intro!: put_addrs_other [OF fit])
  moreover have "sint (of_nat n :: 32 word) = int n" using assms(2) by (simp add: sint_word_ariths signed_of_nat signed_take_bit_int_eq_self)
  ultimately show ?thesis
    using put_addrs_get [OF fit] assms(1) by (simp add: header_holds_def header_bytes_def put_blocks_addrs)
qed

section \<open>What a recovery finds on the disk\<close>

definition recovered :: "logstate \<Rightarrow> (32 word \<Rightarrow> 32 word \<Rightarrow> bytes) \<Rightarrow> 32 word \<Rightarrow> 32 word \<Rightarrow> bytes" where
  "recovered l D k b = (let h = D (l_dev l) (l_start l) in
     blk (case find (\<lambda>i. k = l_dev l \<and> load32 h (4 + 4 * of_nat i) = b) [0..<nat (sint (load32 h 0))] of
       Some i \<Rightarrow> D (l_dev l) (log_block l i)
     | None \<Rightarrow> D k b))"

lemma recovered_logged:
  assumes "header_holds (D (l_dev l) (l_start l)) n f" "inj_on f {..<n}" "i < n"
  shows "recovered l D (l_dev l) (f i) = blk (D (l_dev l) (log_block l i))"
proof -
  let ?h = "D (l_dev l) (l_start l)"
  let ?P = "\<lambda>j. l_dev l = l_dev l \<and> load32 ?h (4 + 4 * of_nat j) = f i"
  have n: "nat (sint (load32 ?h 0)) = n" using assms(1) by (simp add: header_holds_def)
  have P: "?P j \<longleftrightarrow> j = i" if "j < n" for j
    using assms that inj_onD [OF assms(2), of j i] by (auto simp: header_holds_def)
  have "find ?P [0..<n] = Some i"
  proof (cases "find ?P [0..<n]")
    case None
    then show ?thesis using P [OF assms(3)] assms(3) by (auto simp: find_None_iff)
  next
    case (Some j)
    then have "j < n" "?P j" by (auto simp: find_Some_iff)
    then show ?thesis using P Some by blast
  qed
  then show ?thesis by (simp add: recovered_def n)
qed

lemma recovered_other:
  assumes "header_holds (D (l_dev l) (l_start l)) n f" "\<not> (k = l_dev l \<and> b \<in> f ` {..<n})"
  shows "recovered l D k b = blk (D k b)"
proof -
  let ?h = "D (l_dev l) (l_start l)"
  have n: "nat (sint (load32 ?h 0)) = n" using assms(1) by (simp add: header_holds_def)
  have "find (\<lambda>j. k = l_dev l \<and> load32 ?h (4 + 4 * of_nat j) = b) [0..<n] = None"
    using assms by (auto simp: find_None_iff header_holds_def)
  then show ?thesis by (simp add: recovered_def n)
qed

section \<open>Writing the header\<close>

definition head_put :: "logstate \<Rightarrow> nat \<Rightarrow> 'a system_scheme \<Rightarrow> 'a system_scheme \<Rightarrow> bool" where
  "head_put l n s t \<longleftrightarrow> cache_inv {} t \<and> bc_frame s t
     \<and> (\<exists>d. disk (fsys t) = put_disk (l_dev l) (l_start l) d (disk (fsys s)) \<and> header_holds d n (lh_block (l_lh l)))
     \<and> (\<forall>k b. k \<noteq> 0 \<and> \<not> (k = l_dev l \<and> b = l_start l) \<longrightarrow> view t k b = view s k b)
     \<and> dirty t = (\<lambda>k b. dirty s k b \<and> \<not> (k = l_dev l \<and> b = l_start l))
     \<and> (\<forall>c < NBUF. b_dirty (bufs (fsys t) c) \<longrightarrow> b_dirty (bufs (fsys s) c))"

lemma view_clean:
  assumes "cache_inv {} s" "\<not> dirty s dev b" "dev \<noteq> 0"
  shows "view s dev b = blk (disk (fsys s) dev b)"
proof (cases "find (\<lambda>c. b_dev (bufs (fsys s) c) = dev \<and> b_blockno (bufs (fsys s) c) = b \<and> b_valid (bufs (fsys s) c)) all_bufs")
  case (Some c)
  then have c: "b_dev (bufs (fsys s) c) = dev" "b_blockno (bufs (fsys s) c) = b" "b_valid (bufs (fsys s) c)" "c < NBUF"
    by (auto simp: find_Some_iff all_bufs_def)
  then have "\<not> b_dirty (bufs (fsys s) c)" using assms(2) by (auto simp: dirty_def)
  then show ?thesis using Some c assms(1,3) by (auto simp: view_def cache_inv_def buf_inv_def Let_def)
qed (simp add: view_def)

context block_device
begin

lemma write_head_wp:
  fixes s :: "'a system_scheme"
  assumes K: "good K" and l: "log_ok l n" and inv: "cache_inv {} s" and lg: "lg (fsys s) = l" and room: "card (busy {} s) < NBUF"
  shows "wp (write_head K) (\<lambda>_. head_put l n s)
    (\<lambda>u. disk (fsys u) = disk (fsys s) \<or> (\<exists>d. disk (fsys u) = put_disk (l_dev l) (l_start l) d (disk (fsys s)) \<and> header_holds d n (lh_block (l_lh l)))) s"
    (is "wp _ _ ?E _")
proof -
  note lok = log_okD [OF l]
  have hh: "header_holds (header_bytes (l_lh l) d) n (lh_block (l_lh l))" for d
    by (rule header_holds_bytes) (use l in \<open>auto simp: log_ok_def\<close>)
  have "wp (bread K (l_dev l) (l_start l)) (\<lambda>b. wp (bind (upd_buf b (\<lambda>x. x\<lparr>b_data := header_bytes (l_lh l) (b_data x)\<rparr>)) (\<lambda>_.
     bind (bwrite K b) (\<lambda>_. brelse b))) (\<lambda>_. head_put l n s) ?E) ?E s"
  proof (rule wp_bread [OF K inv lok(1,2)])
    show "busy {} s \<noteq> {..<NBUF} \<or> dirty s (l_dev l) (l_start l)" using not_all_busy [OF room] ..
    fix b u
    assume o: "opened {} s b (l_dev l) (l_start l) u"
    let ?y = "bufs (fsys u) b"
    let ?d = "header_bytes (l_lh l) (b_data ?y)"
    let ?v = "set_bufs ((bufs (fsys u))(b := ?y\<lparr>b_data := ?d\<rparr>)) u"
    let ?D = "put_disk (l_dev l) (l_start l) ?d (disk (fsys s))"
    have ou: "cache_inv {b} u" "bc_frame s u" "b_dev ?y = l_dev l" "b_blockno ?y = l_start l" "disk (fsys u) = disk (fsys s)"
      "\<forall>k n. k \<noteq> 0 \<longrightarrow> view u k n = view s k n" "dirty u = dirty s" "\<forall>c < NBUF. b_dirty (bufs (fsys u) c) = b_dirty (bufs (fsys s) c)"
      using o by (simp_all add: opened_def)
    have bin: "b \<in> {b}" by simp
    note sd = set_data [OF ou(1) bin, where d = ?d]
    have "wp (bwrite K b) (\<lambda>_. wp (brelse b) (\<lambda>_. head_put l n s) ?E) ?E ?v"
    proof (rule wp_bwrite [OF K sd(1), where x = "?y\<lparr>b_data := ?d\<rparr>" and D = ?D])
      fix t
      assume t: "cache_inv {b} t" "bc_frame ?v t" "disk (fsys t) = ?D" "same_core (bufs (fsys t) b) (?y\<lparr>b_data := ?d, b_dirty := False\<rparr>)"
        "\<forall>c. c \<noteq> b \<longrightarrow> bufs (fsys t) c = bufs (fsys ?v) c" "\<forall>k n. k \<noteq> 0 \<longrightarrow> view t k n = view ?v k n"
        "dirty t = (\<lambda>k n. dirty ?v k n \<and> \<not> (k = b_dev (?y\<lparr>b_data := ?d\<rparr>) \<and> n = b_blockno (?y\<lparr>b_data := ?d\<rparr>)))"
      show "wp (brelse b) (\<lambda>_. head_put l n s) ?E t"
      proof (rule wp_brelse [OF t(1) bin])
        show "b_dirty (bufs (fsys t) b) \<or> blk (b_data (bufs (fsys t) b)) = blk (disk (fsys t) (b_dev (bufs (fsys t) b)) (b_blockno (bufs (fsys t) b)))"
          using t(3,4) ou(3,4) by (simp add: same_core_def)
        fix z
        assume z: "cache_inv ({b} - {b}) z" "bc_frame t z" "disk (fsys z) = disk (fsys t)" "\<forall>k n. k \<noteq> 0 \<longrightarrow> view z k n = view t k n"
          "dirty z = dirty t" "\<forall>c. b_dirty (bufs (fsys z) c) = b_dirty (bufs (fsys t) c)"
        have fr: "bc_frame s z" by (rule bc_frame_trans [OF ou(2) bc_frame_trans [OF bc_frame_bufs bc_frame_trans [OF t(2) z(2)]]])
        have dd: "b_dirty (bufs (fsys z) c) \<longrightarrow> b_dirty (bufs (fsys s) c)" if "c < NBUF" for c
          using z(6) t(4,5) ou(8) that by (cases "c = b") (simp_all add: same_core_def)
        have vw: "view z k c = view s k c" if "k \<noteq> 0" "\<not> (k = l_dev l \<and> c = l_start l)" for k c
          using z(4) t(6) sd(3) ou(3,4,6) that by auto
        have di: "dirty z = (\<lambda>k c. dirty s k c \<and> \<not> (k = l_dev l \<and> c = l_start l))"
          using z(5) t(7) sd(2) ou(3,4,7) by simp
        have em: "{b} - {b} = {}" by simp
        have "\<exists>d. disk (fsys z) = put_disk (l_dev l) (l_start l) d (disk (fsys s)) \<and> header_holds d n (lh_block (l_lh l))"
          using z(3) t(3) hh by (intro exI [of _ ?d]) simp
        then show "head_put l n s z" using z(1) [unfolded em] fr dd vw di by (simp add: head_put_def)
      qed
    qed (use ou(3-5) lok(1,2) hh in auto)
    then show "wp (bind (upd_buf b (\<lambda>x. x\<lparr>b_data := header_bytes (l_lh l) (b_data x)\<rparr>)) (\<lambda>_.
       bind (bwrite K b) (\<lambda>_. brelse b))) (\<lambda>_. head_put l n s) ?E u"
      by (simp add: wp_bind wp_simps)
  qed auto
  then show ?thesis by (simp add: write_head_def wp_bind wp_log_at lg)
qed

end

section \<open>Clearing the log\<close>

definition set_lg :: "logstate \<Rightarrow> 'a system_scheme \<Rightarrow> 'a system_scheme" where
  "set_lg l s = s\<lparr>fsys := (fsys s)\<lparr>lg := l\<rparr>\<rparr>"

lemma set_lg_simps [simp]:
  "fsys (set_lg l s) = (fsys s)\<lparr>lg := l\<rparr>" "view (set_lg l s) = view s" "dirty (set_lg l s) = dirty s" "busy H (set_lg l s) = busy H s"
  by (auto simp: set_lg_def view_def dirty_def busy_def fun_eq_iff cong: option.case_cong)

lemma set_lg_inv [simp]: "cache_inv H (set_lg l s) = cache_inv H s"
  by (simp add: set_lg_def cache_inv_def still_def buf_inv_def slocked_def Let_def)

lemma set_lg_frame: "bc_frame s t \<Longrightarrow> bc_frame (set_lg l s) (set_lg l t)"
proof -
  assume f: "bc_frame s t"
  have "others ((fsys t)\<lparr>lg := l\<rparr>) = (others (fsys t))\<lparr>lg := l\<rparr>" "others ((fsys s)\<lparr>lg := l\<rparr>) = (others (fsys s))\<lparr>lg := l\<rparr>"
    by (simp_all add: others_def)
  then show ?thesis using f unfolding bc_frame_def by (auto simp: set_lg_def)
qed

lemma wp_upd_lh: "wp (upd_lh f) Q E s = Q () (set_lg ((lg (fsys s))\<lparr>l_lh := f (l_lh (lg (fsys s)))\<rparr>) s)"
  by (simp add: wp_def upd_lh_def upd_log_def exec_simps set_lg_def)

definition cleared :: "logstate \<Rightarrow> logstate" where
  "cleared l = l\<lparr>l_lh := (l_lh l)\<lparr>lh_n := 0\<rparr>\<rparr>"

lemma cleared_simps [simp]: "l_dev (cleared l) = l_dev l" "l_start (cleared l) = l_start l" "lh_block (l_lh (cleared l)) = lh_block (l_lh l)"
  by (simp_all add: cleared_def)

lemma cleared_ok: "log_ok l n \<Longrightarrow> log_ok (cleared l) 0"
  by (simp add: log_ok_def cleared_def)

abbreviation (input) log_dirty :: "logstate \<Rightarrow> nat \<Rightarrow> 32 word \<Rightarrow> 32 word \<Rightarrow> bool" where
  "log_dirty l n k b \<equiv> k = l_dev l \<and> b \<in> lh_block (l_lh l) ` {..<n}"

definition outside :: "logstate \<Rightarrow> 32 word \<Rightarrow> 32 word \<Rightarrow> bool" where
  "outside l k b \<longleftrightarrow> \<not> (k = l_dev l \<and> b \<in> log_area l)"

definition agrees :: "logstate \<Rightarrow> (32 word \<Rightarrow> 32 word \<Rightarrow> bytes) \<Rightarrow> (32 word \<Rightarrow> 32 word \<Rightarrow> bytes) \<Rightarrow> bool" where
  "agrees l X Y \<longleftrightarrow> (\<forall>k b. outside l k b \<longrightarrow> X k b = Y k b)"

definition finished :: "logstate \<Rightarrow> (32 word \<Rightarrow> 32 word \<Rightarrow> bytes) \<Rightarrow> 'a system_scheme \<Rightarrow> 'a system_scheme \<Rightarrow> bool" where
  "finished l X s t \<longleftrightarrow> cache_inv {} t \<and> bc_frame (set_lg (cleared l) s) t
     \<and> header_holds (disk (fsys t) (l_dev l) (l_start l)) 0 (lh_block (l_lh l))
     \<and> agrees l (\<lambda>k b. blk (disk (fsys t) k b)) X
     \<and> (\<forall>k b. dirty t k b \<longrightarrow> dirty s k b \<and> \<not> log_dirty l (nat (lh_n (l_lh l))) k b)"

text \<open>The header on the disk names no block, or all of the transaction.\<close>

definition log_intact :: "logstate \<Rightarrow> nat \<Rightarrow> (nat \<Rightarrow> 32 word) \<Rightarrow> (32 word \<Rightarrow> 32 word \<Rightarrow> bytes) \<Rightarrow> bool" where
  "log_intact l n f D \<longleftrightarrow> header_holds (D (l_dev l) (l_start l)) 0 f \<or> header_holds (D (l_dev l) (l_start l)) n f"

lemma header_holds_0: "header_holds d 0 f \<longleftrightarrow> sint (load32 d 0) = 0"
  by (auto simp: header_holds_def)

lemma recovered_unlogged:
  assumes "header_holds (D (l_dev l) (l_start l)) 0 f"
  shows "recovered l D k b = blk (D k b)"
  using recovered_other [of D l 0 f, OF assms] by simp

lemma same_recovery:
  assumes l: "log_ok l n" and h: "header_holds (D (l_dev l) (l_start l)) n (lh_block (l_lh l))"
    and same: "\<And>k b. \<not> log_dirty l n k b \<Longrightarrow> D' k b = D k b"
  shows "recovered l D' = recovered l D"
proof (rule ext, rule ext)
  note lok = log_okD [OF l]
  have st: "D' (l_dev l) (l_start l) = D (l_dev l) (l_start l)" by (rule same) (use lok(6,8) in auto)
  have lb: "D' (l_dev l) (log_block l i) = D (l_dev l) (log_block l i)" if "i < n" for i
    by (rule same) (use lok(4) [OF that] lok(8) in auto)
  have h': "header_holds (D' (l_dev l) (l_start l)) n (lh_block (l_lh l))" using h st by simp
  fix k b
  show "recovered l D' k b = recovered l D k b"
  proof (cases "log_dirty l n k b")
    case True
    then obtain i where "i < n" "k = l_dev l" "b = lh_block (l_lh l) i" by auto
    then show ?thesis using recovered_logged [of D l n _ i, OF h lok(10)] recovered_logged [of D' l n _ i, OF h' lok(10)] lb by simp
  next
    case False
    then show ?thesis using recovered_other [of D' l n _ k b, OF h' False] recovered_other [of D l n _ k b, OF h False] same by simp
  qed
qed

lemma installed_recovered:
  assumes l: "log_ok l n" and h: "header_holds (disk (fsys s) (l_dev l) (l_start l)) n (lh_block (l_lh l))"
    and c: "copied_all (l_dev l) (log_block l) (lh_block (l_lh l)) 0 n s t" and inv: "cache_inv {} s"
    and clean: "\<forall>i < n. \<not> dirty s (l_dev l) (log_block l i)"
  shows "blk (disk (fsys t) k b) = recovered l (disk (fsys s)) k b"
proof (cases "log_dirty l n k b")
  case True
  then obtain i where i: "i < n" "k = l_dev l" "b = lh_block (l_lh l) i" by auto
  then have "blk (disk (fsys t) k b) = view s (l_dev l) (log_block l i)" using c by (simp add: copied_all_def)
  also have "\<dots> = blk (disk (fsys s) (l_dev l) (log_block l i))"
    by (rule view_clean [OF inv]) (use clean i dev_ok_nz [OF log_okD(1) [OF l]] in auto)
  finally show ?thesis using recovered_logged [of "disk (fsys s)" l n _ i, OF h log_okD(10) [OF l] i(1)] i by simp
next
  case False
  then show ?thesis using recovered_other [of "disk (fsys s)" l n _ k b, OF h False] c by (simp add: copied_all_def lessThan_atLeast0)
qed

lemma head_put_lg: "head_put l n s t \<Longrightarrow> lg (fsys t) = lg (fsys s)"
  unfolding head_put_def bc_frame_def by (blast intro: others_lg)

lemma copied_all_lg: "copied_all dev f g i n s t \<Longrightarrow> lg (fsys t) = lg (fsys s)"
  unfolding copied_all_def bc_frame_def by (blast intro: others_lg)

lemma card_busy_mono:
  assumes "\<forall>c < NBUF. b_dirty (bufs (fsys t) c) \<longrightarrow> b_dirty (bufs (fsys s) c)"
  shows "card (busy {} t) \<le> card (busy {} s)"
proof (rule card_mono)
  show "finite (busy {} s)" by (rule finite_subset [of _ "{..<NBUF}"]) (auto simp: busy_def)
  show "busy {} t \<subseteq> busy {} s" using assms by (auto simp: busy_def)
qed

context block_device
begin

lemma install_clear_wp:
  fixes s :: "'a system_scheme"
  assumes K: "good K" and l: "log_ok l n" and inv: "cache_inv {} s" and lg: "lg (fsys s) = l"
    and room: "log_room s (l_dev l) (lh_block (l_lh l) ` {..<n})"
    and h: "header_holds (disk (fsys s) (l_dev l) (l_start l)) n (lh_block (l_lh l))"
    and clean: "\<forall>i < n. \<not> dirty s (l_dev l) (log_block l i)"
  shows "wp (seqs [install_trans K, upd_lh (\<lambda>h. h\<lparr>lh_n := 0\<rparr>), write_head K])
    (\<lambda>_. finished l (recovered l (disk (fsys s))) s)
    (\<lambda>u. log_intact l n (lh_block (l_lh l)) (disk (fsys u)) \<and> agrees l (recovered l (disk (fsys u))) (recovered l (disk (fsys s)))) s"
    (is "wp _ ?Q ?E _")
proof -
  note lok = log_okD [OF l]
  let ?ca = "copied_all (l_dev l) (log_block l) (lh_block (l_lh l)) 0 n s"
  have ns: "\<not> (l_dev l = l_dev l \<and> l_start l \<in> lh_block (l_lh l) ` {0..<n})" using lok(6,8) by auto
  have n: "nat (lh_n (l_lh l)) = n" using l by (simp add: log_ok_def)
  have put: "agrees l (\<lambda>k b. blk (put_disk (l_dev l) (l_start l) d D k b)) (\<lambda>k b. blk (D k b))" for d D
    using lok(6) by (auto simp: agrees_def outside_def)
  have fin: "wp (seqs [upd_lh (\<lambda>h. h\<lparr>lh_n := 0\<rparr>), write_head K]) ?Q ?E t" if t: "?ca t" for t
  proof -
    have ct: "cache_inv {} t" "lg (fsys t) = l" using t copied_all_lg [OF t] lg by (simp_all add: copied_all_def)
    have bt: "card (busy {} t) < NBUF"
      using card_busy_mono [of t s] t room by (simp add: copied_all_def log_room_def)
    note ir = installed_recovered [OF l h t inv clean]
    have rt: "recovered l (disk (fsys t)) = recovered l (disk (fsys s))"
      by (rule same_recovery [of l n "disk (fsys s)", OF l h]) (use t in \<open>auto simp: copied_all_def lessThan_atLeast0\<close>)
    have ht: "header_holds (disk (fsys t) (l_dev l) (l_start l)) n (lh_block (l_lh l))"
      using t ns h by (simp add: copied_all_def)
    have new: "agrees l (recovered l (put_disk (l_dev l) (l_start l) d (disk (fsys t)))) (recovered l (disk (fsys s)))"
      if "header_holds d 0 (lh_block (l_lh l))" for d
      using put [of d "disk (fsys t)"] recovered_unlogged [of "put_disk (l_dev l) (l_start l) d (disk (fsys t))" l] that ir by (simp add: agrees_def)
    have "wp (write_head K) ?Q ?E (set_lg (cleared l) t)"
    proof (rule wp_mono [OF write_head_wp [OF K cleared_ok [OF l]]])
      fix a u
      assume u: "head_put (cleared l) 0 (set_lg (cleared l) t) u"
      then obtain d where d: "disk (fsys u) = put_disk (l_dev l) (l_start l) d (disk (fsys t))" "header_holds d 0 (lh_block (l_lh l))"
        by (auto simp: head_put_def)
      have "bc_frame s t" "bc_frame (set_lg (cleared l) t) u" "cache_inv {} u" using t u by (simp_all add: copied_all_def head_put_def)
      moreover have "dirty u = (\<lambda>k b. (dirty s k b \<and> \<not> log_dirty l n k b) \<and> \<not> (k = l_dev l \<and> b = l_start l))"
        using t u by (simp add: copied_all_def head_put_def lessThan_atLeast0)
      ultimately show "finished l (recovered l (disk (fsys s))) s u"
        using bc_frame_trans [OF set_lg_frame] put [of d "disk (fsys t)"] d ir n unfolding finished_def agrees_def by simp
    qed (use ct bt rt ht new in \<open>auto simp: agrees_def log_intact_def\<close>)
    then show ?thesis by (simp add: wp_simps wp_bind wp_upd_lh ct(2) cleared_def)
  qed
  have "wp (install_loop n 0 K) (\<lambda>_. wp (seqs [upd_lh (\<lambda>h. h\<lparr>lh_n := 0\<rparr>), write_head K]) ?Q ?E) ?E s"
  proof (rule wp_mono [OF install_loop_wp [OF K l inv lg, of 0 n]])
    fix u :: "'a system_scheme"
    assume u: "partly (l_dev l) (log_block l) (lh_block (l_lh l)) 0 n s u"
    have "recovered l (disk (fsys u)) = recovered l (disk (fsys s))"
      by (rule same_recovery [of l n "disk (fsys s)", OF l h]) (use u in \<open>auto simp: partly_def lessThan_atLeast0\<close>)
    moreover have "header_holds (disk (fsys u) (l_dev l) (l_start l)) n (lh_block (l_lh l))" using u ns h by (simp add: partly_def)
    ultimately show "?E u" by (simp add: agrees_def log_intact_def)
  qed (use fin room in \<open>auto simp: lessThan_atLeast0\<close>)
  then show ?thesis by (simp add: install_trans_def wp_simps wp_bind wp_log_at lg n)
qed

end

section \<open>Commit\<close>

definition log_pinned :: "logstate \<Rightarrow> nat \<Rightarrow> 'a system_scheme \<Rightarrow> bool" where
  "log_pinned l n s \<longleftrightarrow> (\<forall>k b. dirty s k b \<longleftrightarrow> log_dirty l n k b)"

lemma pinned_room:
  assumes inv: "cache_inv {} s" and l: "log_ok l n" and p: "log_pinned l n s"
  shows "log_room s (l_dev l) (lh_block (l_lh l) ` {..<n})"
proof -
  let ?num = "\<lambda>b. b_blockno (bufs (fsys s) b)"
  have d: "b < NBUF \<and> b_dev (bufs (fsys s) b) = l_dev l \<and> ?num b \<in> lh_block (l_lh l) ` {..<n}" if b: "b \<in> busy {} s" for b
  proof -
    have "b < NBUF" "dirty s (b_dev (bufs (fsys s) b)) (?num b)" using b by (auto simp: busy_def dirty_def)
    then show ?thesis using p by (simp add: log_pinned_def)
  qed
  have "inj_on ?num (busy {} s)"
  proof (rule inj_onI)
    fix b c
    assume "b \<in> busy {} s" "c \<in> busy {} s" "?num b = ?num c"
    then show "b = c" using d [of b] d [of c] cache_invD(4) [OF inv, of b c] dev_ok_nz [OF log_okD(1) [OF l]] by (auto simp: same_id_def)
  qed
  then have "card (busy {} s) \<le> card (lh_block (l_lh l) ` {..<n})" by (rule card_inj_on_le) (use d in auto)
  also have "\<dots> \<le> n" using card_image_le [of "{..<n}" "lh_block (l_lh l)"] by simp
  finally show ?thesis using l p by (auto simp: log_room_def log_ok_def log_pinned_def)
qed

lemma log_room_shrink:
  assumes "log_room s dev B" "\<forall>c < NBUF. b_dirty (bufs (fsys t) c) \<longrightarrow> b_dirty (bufs (fsys s) c)" "dirty t = dirty s"
  shows "log_room t dev B"
  using assms(1,3) card_busy_mono [OF assms(2)] by (auto simp: log_room_def)

definition committed :: "logstate \<Rightarrow> nat \<Rightarrow> 'a system_scheme \<Rightarrow> 32 word \<Rightarrow> 32 word \<Rightarrow> bytes" where
  "committed l n s k b = (if log_dirty l n k b then view s k b else blk (disk (fsys s) k b))"

lemma cleared_id: "lh_n (l_lh l) = 0 \<Longrightarrow> cleared l = l"
  by (simp add: cleared_def)

lemma set_lg_id: "lg (fsys s) = l \<Longrightarrow> set_lg l s = s"
  by (auto simp: set_lg_def)

text \<open>A log that has been written and whose header is on the disk holds the transaction.\<close>

lemma logged_committed:
  assumes l: "log_ok l n" and c: "copied_all (l_dev l) (lh_block (l_lh l)) (log_block l) 0 n s t"
    and h: "header_holds d n (lh_block (l_lh l))"
  shows "agrees l (recovered l (put_disk (l_dev l) (l_start l) d (disk (fsys t)))) (committed l n s)"
  unfolding agrees_def
proof (intro allI impI)
  note lok = log_okD [OF l]
  let ?D = "put_disk (l_dev l) (l_start l) d (disk (fsys t))"
  have h': "header_holds (?D (l_dev l) (l_start l)) n (lh_block (l_lh l))" using h by simp
  fix k b
  assume o: "outside l k b"
  show "recovered l ?D k b = committed l n s k b"
  proof (cases "log_dirty l n k b")
    case True
    then obtain i where i: "i < n" "k = l_dev l" "b = lh_block (l_lh l) i" by auto
    then have "recovered l ?D k b = blk (disk (fsys t) (l_dev l) (log_block l i))"
      using recovered_logged [of ?D l n _ i, OF h' lok(10)] lok(5) [OF i(1)] by simp
    then show ?thesis using c True i by (simp add: copied_all_def committed_def)
  next
    case False
    have "\<not> (k = l_dev l \<and> b \<in> log_block l ` {0..<n})" "\<not> (k = l_dev l \<and> b = l_start l)"
      using o lok(4,6) by (auto simp: outside_def)
    moreover from this(1) have "disk (fsys t) k b = disk (fsys s) k b" using c by (simp add: copied_all_def)
    ultimately show ?thesis using recovered_other [of ?D l n _ k b, OF h' False] False by (auto simp: committed_def)
  qed
qed

lemma logging_keeps:
  assumes l: "log_ok l n" and h: "header_holds (D (l_dev l) (l_start l)) 0 f"
    and same: "\<And>k b. \<not> (k = l_dev l \<and> b \<in> log_block l ` {..<n}) \<Longrightarrow> D' k b = D k b"
  shows "agrees l (recovered l D') (\<lambda>k b. blk (D k b))"
  unfolding agrees_def
proof (intro allI impI)
  note lok = log_okD [OF l]
  have st: "D' (l_dev l) (l_start l) = D (l_dev l) (l_start l)" by (rule same) (use lok(5) in \<open>auto simp: eq_commute\<close>)
  fix k b
  assume o: "outside l k b"
  then have "D' k b = D k b" by (intro same) (use lok(4) in \<open>auto simp: outside_def\<close>)
  then show "recovered l D' k b = blk (D k b)" using recovered_unlogged [of D' l f] h st by simp
qed

context block_device
begin

lemma start_unlogged: "log_ok l n \<Longrightarrow> l_start l \<notin> log_block l ` {0..<n}"
  using log_okD(5) by (metis atLeastLessThan_iff imageE)

lemma commit_install_wp:
  fixes s t u :: "'a system_scheme"
  assumes K: "good K" and l: "log_ok l n" and inv: "cache_inv {} s" and lg: "lg (fsys s) = l" and pin: "log_pinned l n s"
    and t: "copied_all (l_dev l) (lh_block (l_lh l)) (log_block l) 0 n s t" and u: "head_put l n t u"
  shows "wp (seqs [install_trans K, upd_lh (\<lambda>h. h\<lparr>lh_n := 0\<rparr>), write_head K]) (\<lambda>_. finished l (committed l n s) s)
    (\<lambda>u. log_intact l n (lh_block (l_lh l)) (disk (fsys u)) \<and>
      (agrees l (recovered l (disk (fsys u))) (\<lambda>k b. blk (disk (fsys s) k b)) \<or> agrees l (recovered l (disk (fsys u))) (committed l n s))) u"
    (is "wp _ ?Q ?E _")
proof -
  note lok = log_okD [OF l]
  note room = pinned_room [OF inv l pin]
  obtain d where d: "disk (fsys u) = put_disk (l_dev l) (l_start l) d (disk (fsys t))" "header_holds d n (lh_block (l_lh l))"
    using u by (auto simp: head_put_def)
  have ag: "agrees l (recovered l (disk (fsys u))) (committed l n s)" using logged_committed [OF l t d(2)] d(1) by simp
  have dt: "dirty u = (\<lambda>k b. (dirty s k b \<and> \<not> (k = l_dev l \<and> b \<in> log_block l ` {0..<n})) \<and> \<not> (k = l_dev l \<and> b = l_start l))"
    using t u by (simp add: head_put_def copied_all_def)
  have lgd: "\<not> dirty s (l_dev l) b" if "b \<in> log_area l" for b using pin that lok(8) by (auto simp: log_pinned_def)
  have "dirty u = dirty s" using dt lgd lok(4,6) by (auto simp: fun_eq_iff)
  have r: "log_room u (l_dev l) (lh_block (l_lh l) ` {..<n})"
    by (rule log_room_shrink [OF room]) (use t u \<open>dirty u = dirty s\<close> in \<open>auto simp: head_put_def copied_all_def\<close>)
  have fr: "bc_frame s u" using t u bc_frame_trans unfolding head_put_def copied_all_def by blast
  have li: "\<forall>i < n. \<not> dirty u (l_dev l) (log_block l i)" using \<open>dirty u = dirty s\<close> lgd lok(4) by simp
  have "wp (seqs [install_trans K, upd_lh (\<lambda>h. h\<lparr>lh_n := 0\<rparr>), write_head K]) (\<lambda>_. finished l (recovered l (disk (fsys u))) u)
      (\<lambda>v. log_intact l n (lh_block (l_lh l)) (disk (fsys v)) \<and> agrees l (recovered l (disk (fsys v))) (recovered l (disk (fsys u)))) u"
    by (rule install_clear_wp [OF K l _ _ r _ li]) (use d u t head_put_lg [OF u] copied_all_lg [OF t] lg in \<open>simp_all add: head_put_def\<close>)
  then show ?thesis
  proof (rule wp_mono)
    fix a v
    assume v: "finished l (recovered l (disk (fsys u))) u v"
    then show "finished l (committed l n s) s v"
      using bc_frame_trans [OF set_lg_frame [OF fr]] ag \<open>dirty u = dirty s\<close> by (simp add: finished_def agrees_def)
  next
    fix v :: "'a system_scheme"
    assume "log_intact l n (lh_block (l_lh l)) (disk (fsys v)) \<and> agrees l (recovered l (disk (fsys v))) (recovered l (disk (fsys u)))"
    then show "?E v" using ag by (simp add: agrees_def)
  qed
qed

lemma commit_head_wp:
  fixes s t :: "'a system_scheme"
  assumes K: "good K" and l: "log_ok l n" and inv: "cache_inv {} s" and lg: "lg (fsys s) = l" and pin: "log_pinned l n s"
    and h: "header_holds (disk (fsys s) (l_dev l) (l_start l)) 0 f"
    and t: "copied_all (l_dev l) (lh_block (l_lh l)) (log_block l) 0 n s t"
  shows "wp (write_head K) (\<lambda>_. wp (seqs [install_trans K, upd_lh (\<lambda>h. h\<lparr>lh_n := 0\<rparr>), write_head K]) (\<lambda>_. finished l (committed l n s) s)
    (\<lambda>u. log_intact l n (lh_block (l_lh l)) (disk (fsys u)) \<and>
      (agrees l (recovered l (disk (fsys u))) (\<lambda>k b. blk (disk (fsys s) k b)) \<or> agrees l (recovered l (disk (fsys u))) (committed l n s))))
    (\<lambda>u. log_intact l n (lh_block (l_lh l)) (disk (fsys u)) \<and>
      (agrees l (recovered l (disk (fsys u))) (\<lambda>k b. blk (disk (fsys s) k b)) \<or> agrees l (recovered l (disk (fsys u))) (committed l n s))) t"
    (is "wp _ _ ?E _")
proof (rule wp_mono [OF write_head_wp [OF K l]])
  show "cache_inv {} t" "lg (fsys t) = l" using t copied_all_lg [OF t] lg by (simp_all add: copied_all_def)
  show "card (busy {} t) < NBUF" using card_busy_mono [of t s] pinned_room [OF inv l pin] t by (simp add: log_room_def copied_all_def)
  fix u :: "'a system_scheme"
  assume u: "disk (fsys u) = disk (fsys t) \<or> (\<exists>d. disk (fsys u) = put_disk (l_dev l) (l_start l) d (disk (fsys t)) \<and> header_holds d n (lh_block (l_lh l)))"
  have "agrees l (recovered l (disk (fsys t))) (\<lambda>k b. blk (disk (fsys s) k b))"
    by (rule logging_keeps [of l n "disk (fsys s)" f, OF l h]) (use t in \<open>auto simp: copied_all_def lessThan_atLeast0\<close>)
  moreover have "header_holds (disk (fsys t) (l_dev l) (l_start l)) 0 (lh_block (l_lh l))"
    using t start_unlogged [OF l] h by (simp add: copied_all_def header_holds_0)
  moreover have "agrees l (recovered l (put_disk (l_dev l) (l_start l) d (disk (fsys t)))) (committed l n s)"
    if "header_holds d n (lh_block (l_lh l))" for d by (rule logged_committed [OF l t that])
  ultimately show "?E u" using u unfolding log_intact_def by (elim disjE exE conjE) simp_all
qed (rule commit_install_wp [OF K l inv lg pin t])

lemma commit_wp:
  fixes s :: "'a system_scheme"
  assumes K: "good K" and l: "log_ok l n" and inv: "cache_inv {} s" and lg: "lg (fsys s) = l" and pin: "log_pinned l n s"
    and h: "header_holds (disk (fsys s) (l_dev l) (l_start l)) 0 f"
  shows "wp (commit K) (\<lambda>_. finished l (committed l n s) s)
    (\<lambda>u. log_intact l n (lh_block (l_lh l)) (disk (fsys u)) \<and>
      (agrees l (recovered l (disk (fsys u))) (\<lambda>k b. blk (disk (fsys s) k b)) \<or> agrees l (recovered l (disk (fsys u))) (committed l n s))) s"
    (is "wp _ ?Q ?E _")
proof (cases "n = 0")
  case True
  then have "lh_n (l_lh l) = 0" using l by (simp add: log_ok_def)
  then show ?thesis using True inv lg h pin
    by (simp add: commit_def wp_simps wp_bind wp_log_at finished_def cleared_id set_lg_id agrees_def committed_def header_holds_def log_pinned_def)
next
  case False
  note room = pinned_room [OF inv l pin]
  have n: "nat (lh_n (l_lh l)) = n" "lh_n (l_lh l) > 0" using l False by (simp_all add: log_ok_def)
  let ?rest = "seqs [install_trans K, upd_lh (\<lambda>h. h\<lparr>lh_n := 0\<rparr>), write_head K]"
  have "wp (write_log_loop n 0 K) (\<lambda>_. wp (write_head K) (\<lambda>_. wp ?rest ?Q ?E) ?E) ?E s"
  proof (rule wp_mono [OF write_log_loop_wp [OF K l inv lg, of 0 n]])
    fix u :: "'a system_scheme"
    assume u: "partly (l_dev l) (lh_block (l_lh l)) (log_block l) 0 n s u"
    have "agrees l (recovered l (disk (fsys u))) (\<lambda>k b. blk (disk (fsys s) k b))"
      by (rule logging_keeps [of l n "disk (fsys s)" f, OF l h]) (use u in \<open>auto simp: partly_def lessThan_atLeast0\<close>)
    moreover have "header_holds (disk (fsys u) (l_dev l) (l_start l)) 0 (lh_block (l_lh l))"
      using u start_unlogged [OF l] h by (simp add: partly_def header_holds_0)
    ultimately show "?E u" by (simp add: log_intact_def)
  qed (use room commit_head_wp [OF K l inv lg pin h] in \<open>simp_all add: lessThan_atLeast0\<close>)
  then show ?thesis by (simp add: commit_def write_log_def wp_simps wp_bind wp_log_at lg n)
qed

end

section \<open>Recovery\<close>

definition with_head :: "logheader \<Rightarrow> logstate \<Rightarrow> logstate" where
  "with_head h l = l\<lparr>l_lh := h\<rparr>"

lemma with_head_simps [simp]: "l_dev (with_head h l) = l_dev l" "l_start (with_head h l) = l_start l" "l_lh (with_head h l) = h"
  "log_block (with_head h l) = log_block l" "log_area (with_head h l) = log_area l" "recovered (with_head h l) = recovered l"
  "agrees (with_head h l) = agrees l"
  by (simp_all add: with_head_def log_block_def log_area_def recovered_def agrees_def outside_def fun_eq_iff Let_def cong: option.case_cong)

definition no_dirty :: "'a system_scheme \<Rightarrow> bool" where
  "no_dirty s \<longleftrightarrow> (\<forall>b < NBUF. \<not> b_dirty (bufs (fsys s) b))"

lemma no_dirtyD: "no_dirty s \<Longrightarrow> busy {} s = {}" "no_dirty s \<Longrightarrow> \<not> dirty s k b"
  by (auto simp: no_dirty_def busy_def dirty_def)

definition head_read :: "logstate \<Rightarrow> nat \<Rightarrow> (nat \<Rightarrow> 32 word) \<Rightarrow> 'a system_scheme \<Rightarrow> 'a system_scheme \<Rightarrow> bool" where
  "head_read l n f s t \<longleftrightarrow> (\<exists>h. lh_n h = int n \<and> (\<forall>i < n. lh_block h i = f i) \<and> bc_frame (set_lg (with_head h l) s) t
     \<and> cache_inv {} t \<and> disk (fsys t) = disk (fsys s) \<and> no_dirty t)"

lemma log_ok_head:
  assumes "log_ok (with_head h l) n" "lh_n h' = int n" "\<forall>i < n. lh_block h' i = lh_block h i"
  shows "log_ok (with_head h' l) n"
proof -
  have "inj_on (lh_block h') {..<n}" using assms(1,3) inj_on_cong [of "{..<n}" "lh_block h'" "lh_block h"] by (simp add: log_ok_def)
  then show ?thesis using assms by (simp add: log_ok_def)
qed

lemma header_holds_fun: "\<forall>i < n. f i = g i \<Longrightarrow> header_holds d n f = header_holds d n g"
  by (simp add: header_holds_def)

context block_device
begin

lemma read_head_wp:
  fixes s :: "'a system_scheme"
  assumes K: "good K" and l: "log_ok (with_head h l) n" and inv: "cache_inv {} s" and lg: "lg (fsys s) = l" and nd: "no_dirty s"
    and hd: "header_holds (disk (fsys s) (l_dev l) (l_start l)) n (lh_block h)"
  shows "wp (read_head K) (\<lambda>_. head_read l n (lh_block h) s) (\<lambda>u. disk (fsys u) = disk (fsys s)) s"
proof -
  note lok = log_okD [OF l, simplified]
  let ?E = "\<lambda>u :: 'a system_scheme. disk (fsys u) = disk (fsys s)"
  have n: "n < 30" using l by (simp add: log_ok_def)
  have "wp (bread K (l_dev l) (l_start l)) (\<lambda>b. wp (bind (buf_at b) (\<lambda>x.
     if sint (load32 (b_data x) 0) > LOGSIZE then fail Bad_Access
     else bind (upd_lh (header_of (b_data x))) (\<lambda>_. brelse b))) (\<lambda>_. head_read l n (lh_block h) s) ?E) ?E s"
  proof (rule wp_bread [OF K inv lok(1,2)])
    show "busy {} s \<noteq> {..<NBUF} \<or> dirty s (l_dev l) (l_start l)" using not_all_busy [of "{}" s] no_dirtyD(1) [OF nd] by simp
    fix b u
    assume o: "opened {} s b (l_dev l) (l_start l) u"
    let ?y = "bufs (fsys u) b"
    have ou: "cache_inv {b} u" "bc_frame s u" "b_dev ?y = l_dev l" "b_blockno ?y = l_start l" "disk (fsys u) = disk (fsys s)"
      "\<forall>c < NBUF. b_dirty (bufs (fsys u) c) = b_dirty (bufs (fsys s) c)" "b < NBUF"
      "b_dirty ?y \<or> blk (b_data ?y) = blk (disk (fsys u) (l_dev l) (l_start l))"
      using o by (auto simp: opened_def)
    have lu: "lg (fsys u) = l" using ou(2) lg unfolding bc_frame_def by (blast dest: others_lg)
    have "blk (b_data ?y) = blk (disk (fsys s) (l_dev l) (l_start l))" using ou(5-8) nd by (simp add: no_dirty_def)
    then have hy: "header_holds (b_data ?y) n (lh_block h)" using hd header_holds_cong n by metis
    let ?h = "header_of (b_data ?y) (l_lh l)"
    have hn: "lh_n ?h = int n" "\<forall>i < n. lh_block ?h i = lh_block h i" using hy by (simp_all add: header_of_def header_holds_def)
    let ?v = "set_lg (with_head ?h l) u"
    have "wp (brelse b) (\<lambda>_. head_read l n (lh_block h) s) ?E ?v"
    proof (rule wp_brelse [of "{b}"])
      fix z
      assume z: "cache_inv ({b} - {b}) z" "bc_frame ?v z" "disk (fsys z) = disk (fsys ?v)" "\<forall>c. b_dirty (bufs (fsys z) c) = b_dirty (bufs (fsys ?v) c)"
      have "bc_frame (set_lg (with_head ?h l) s) z" by (rule bc_frame_trans [OF set_lg_frame [OF ou(2)] z(2)])
      moreover have "no_dirty z" using z(4) ou(6) nd by (simp add: no_dirty_def)
      ultimately show "head_read l n (lh_block h) s z"
        unfolding head_read_def using hn z ou(5) by (intro exI [of _ ?h]) simp
    qed (use ou in auto)
    then show "wp (bind (buf_at b) (\<lambda>x. if sint (load32 (b_data x) 0) > LOGSIZE then fail Bad_Access
       else bind (upd_lh (header_of (b_data x))) (\<lambda>_. brelse b))) (\<lambda>_. head_read l n (lh_block h) s) ?E u"
      using hy n by (simp add: wp_simps wp_bind wp_upd_lh lu with_head_def [symmetric] header_holds_def)
  qed auto
  then show ?thesis by (simp add: read_head_def wp_bind wp_log_at lg)
qed

lemma recover_wp:
  fixes s :: "'a system_scheme"
  assumes K: "good K" and l: "log_ok (with_head h l) n" and inv: "cache_inv {} s" and lg: "lg (fsys s) = l" and nd: "no_dirty s"
    and hd: "header_holds (disk (fsys s) (l_dev l) (l_start l)) n (lh_block h)"
  shows "wp (recover_from_log K) (\<lambda>_ t. cache_inv {} t \<and> no_dirty t \<and> lh_n (l_lh (lg (fsys t))) = 0
      \<and> header_holds (disk (fsys t) (l_dev l) (l_start l)) 0 (lh_block h)
      \<and> agrees l (\<lambda>k b. blk (disk (fsys t) k b)) (recovered l (disk (fsys s))))
    (\<lambda>u. log_intact l n (lh_block h) (disk (fsys u)) \<and> agrees l (recovered l (disk (fsys u))) (recovered l (disk (fsys s)))) s"
  (is "wp _ ?Q ?E _")
proof -
  let ?rest = "seqs [install_trans K, upd_lh (\<lambda>h. h\<lparr>lh_n := 0\<rparr>), write_head K]"
  have "wp (read_head K) (\<lambda>_. wp ?rest ?Q ?E) ?E s"
  proof (rule wp_mono [OF read_head_wp [OF assms]])
    fix a t
    assume "head_read l n (lh_block h) s t"
    then obtain h' where h': "lh_n h' = int n" "\<forall>i < n. lh_block h' i = lh_block h i" and fr: "bc_frame (set_lg (with_head h' l) s) t"
      and t: "cache_inv {} t" "disk (fsys t) = disk (fsys s)" "no_dirty t" unfolding head_read_def by blast
    let ?l = "with_head h' l"
    have lt: "lg (fsys t) = ?l" using fr unfolding bc_frame_def by (auto dest!: others_lg)
    have r: "log_room t (l_dev ?l) (lh_block (l_lh ?l) ` {..<n})" using no_dirtyD(1) [OF t(3)] by (simp add: log_room_def)
    have ht: "header_holds (disk (fsys t) (l_dev ?l) (l_start ?l)) n (lh_block (l_lh ?l))"
      using hd t(2) header_holds_fun [OF h'(2)] by simp
    have "wp ?rest (\<lambda>_. finished ?l (recovered ?l (disk (fsys t))) t)
        (\<lambda>u. log_intact ?l n (lh_block (l_lh ?l)) (disk (fsys u)) \<and> agrees ?l (recovered ?l (disk (fsys u))) (recovered ?l (disk (fsys t)))) t"
      by (rule install_clear_wp [OF K log_ok_head [OF l h'] t(1) lt r ht]) (use no_dirtyD(2) [OF t(3)] in auto)
    then show "wp ?rest ?Q ?E t"
    proof (rule wp_mono)
      fix a u
      assume u: "finished ?l (recovered ?l (disk (fsys t))) t u"
      have lu: "lg (fsys u) = cleared ?l" using u unfolding finished_def bc_frame_def by (auto dest!: others_lg)
      have du: "\<not> dirty u k b" for k b using u no_dirtyD(2) [OF t(3)] by (auto simp: finished_def)
      then have "no_dirty u" by (auto simp: no_dirty_def dirty_def)
      then show "?Q () u" using u lu t(2) by (simp add: finished_def cleared_def header_holds_def)
    qed (use t(2) header_holds_fun [OF h'(2)] in \<open>auto simp: log_intact_def header_holds_0\<close>)
  qed (use hd in \<open>simp add: agrees_def log_intact_def\<close>)
  then show ?thesis by (simp add: recover_from_log_def wp_simps)
qed

end

section \<open>Recording a block\<close>

lemma log_slot_spec:
  "i \<le> log_slot m i f b \<and> log_slot m i f b \<le> i + m \<and> (log_slot m i f b < i + m \<longrightarrow> f (log_slot m i f b) = b)
   \<and> (\<forall>k. i \<le> k \<and> k < log_slot m i f b \<longrightarrow> f k \<noteq> b)"
proof (induction m arbitrary: i)
  case (Suc m)
  show ?case
  proof (cases "f i = b")
    case False
    moreover have "i \<le> k \<longleftrightarrow> k = i \<or> Suc i \<le> k" for k by auto
    ultimately show ?thesis using Suc.IH [of "Suc i"] by auto
  qed auto
qed auto

lemma set_dirty:
  assumes inv: "cache_inv H s" and b: "b \<in> H"
  defines "x \<equiv> bufs (fsys s) b"
  defines "t \<equiv> set_bufs ((bufs (fsys s))(b := x\<lparr>b_dirty := True\<rparr>)) s"
  shows "cache_inv H t" "dirty t = (\<lambda>k n. dirty s k n \<or> k = b_dev x \<and> n = b_blockno x)"
proof -
  note h = held_buf [OF inv b]
  obtain xs where xs: "ring (bufs (fsys s)) xs" using inv by (auto simp: cache_inv_def)
  show "cache_inv H t"
  proof (rule cache_inv_intro [OF inv _ _ _ h(1)])
    show "\<exists>ys. ring (bufs (fsys t)) ys" using ring_upd [OF xs, of "x\<lparr>b_dirty := True\<rparr>" b] by (auto simp: t_def x_def)
    show "buf_inv H t b" using cache_invD(2) [OF inv h(1)] b by (simp add: buf_inv_def Let_def t_def x_def slocked_def)
    show "\<forall>c<NBUF. c \<noteq> b \<longrightarrow> same_core (bufs (fsys t) c) (bufs (fsys s) c)
       \<and> slocks (fsys t) (BufLock c) = slocks (fsys s) (BufLock c)
       \<and> blk (disk (fsys t) (b_dev (bufs (fsys s) c)) (b_blockno (bufs (fsys s) c)))
         = blk (disk (fsys s) (b_dev (bufs (fsys s) c)) (b_blockno (bufs (fsys s) c)))
       \<and> (b_dev (bufs (fsys t) b) \<noteq> 0 \<longrightarrow> \<not> same_id (bufs (fsys t) b) (bufs (fsys s) c))"
      using cache_invD(4) [OF inv h(1)] h(5) by (auto simp: t_def x_def same_id_def)
  qed (use cache_inv_still [OF inv] in \<open>simp_all add: t_def\<close>)
  show "dirty t = (\<lambda>k n. dirty s k n \<or> k = b_dev x \<and> n = b_blockno x)"
    using h(1) by (intro ext) (auto simp: dirty_def t_def x_def)
qed

definition noted :: "nat \<Rightarrow> 32 word \<Rightarrow> logstate \<Rightarrow> logstate" where
  "noted i b l = l\<lparr>l_lh := \<lparr>lh_n = (if int i = lh_n (l_lh l) then lh_n (l_lh l) + 1 else lh_n (l_lh l)), lh_block = (lh_block (l_lh l))(i := b)\<rparr>\<rparr>"

lemma log_write_exec:
  fixes b :: nat
  assumes c: "calm s" and l: "lg (fsys s) = l" "lh_n (l_lh l) = int n" "n < 29" "int n < l_size l - 1" "1 \<le> l_outstanding l"
  defines "i \<equiv> log_slot n 0 (lh_block (l_lh l)) (b_blockno (bufs (fsys s) b))"
  shows "log_write b s = Done () (set_lg (noted i (b_blockno (bufs (fsys s) b)) l)
    (set_bufs ((bufs (fsys s))(b := (bufs (fsys s) b)\<lparr>b_dirty := True\<rparr>)) s))"
proof -
  have "\<not> (lh_n (l_lh l) \<ge> LOGSIZE \<or> lh_n (l_lh l) \<ge> l_size l - 1)" "\<not> l_outstanding l < 1" using l by simp_all
  then show ?thesis
    using c l(1,2) by (simp add: log_write_def log_at_def upd_lh_def upd_log_def buf_at_def upd_buf_def exec_simps Let_def i_def [symmetric]
      noted_def set_lg_def set_bufs_def)
qed

lemma noted_simps [simp]:
  "l_dev (noted i b l) = l_dev l" "l_start (noted i b l) = l_start l" "log_area (noted i b l) = log_area l"
  by (simp_all add: noted_def log_area_def)

lemma noted_ok:
  assumes l: "log_ok l n" "n < 29" and b: "b < FSSIZE" "b \<notin> log_area l"
  defines "i \<equiv> log_slot n 0 (lh_block (l_lh l)) b"
  defines "m \<equiv> (if b \<in> lh_block (l_lh l) ` {..<n} then n else Suc n)"
  shows "log_ok (noted i b l) m" "lh_block (l_lh (noted i b l)) ` {..<m} = insert b (lh_block (l_lh l) ` {..<n})"
proof -
  let ?f = "lh_block (l_lh l)"
  have i: "i \<le> n" "i < n \<longrightarrow> ?f i = b" "\<forall>k < i. ?f k \<noteq> b" using log_slot_spec [of 0 n ?f b] by (auto simp: i_def)
  have ln: "lh_n (l_lh l) = int n" using l(1) by (simp add: log_ok_def)
  have "log_ok (noted i b l) m \<and> lh_block (l_lh (noted i b l)) ` {..<m} = insert b (?f ` {..<n})"
  proof (cases "i < n")
    case True
    then have "b \<in> ?f ` {..<n}" "?f(i := b) = ?f" using i(2) by (auto simp: fun_eq_iff)
    then have "noted i b l = l" "m = n" "insert b (?f ` {..<n}) = ?f ` {..<n}" using True ln by (auto simp: noted_def m_def)
    then show ?thesis using l(1) by simp
  next
    case False
    then have n: "i = n" using i(1) by simp
    then have nb: "b \<notin> ?f ` {..<n}" using i(3) by auto
    then have m: "m = Suc n" by (simp add: m_def)
    have im: "?f(n := b) ` {..<n} = ?f ` {..<n}" by (rule image_cong) auto
    have "lh_block (l_lh (noted i b l)) ` {..<m} = insert b (?f ` {..<n})"
      using n by (auto simp: m noted_def lessThan_Suc)
    moreover have "inj_on (?f(n := b)) {..<Suc n}"
      using log_okD(10) [OF l(1)] nb im by (simp add: lessThan_Suc inj_on_fun_updI)
    then have "log_ok (noted i b l) m" using l b ln n by (auto simp: m log_ok_def noted_def less_Suc_eq log_area_def)
    ultimately show ?thesis by simp
  qed
  then show "log_ok (noted i b l) m" "lh_block (l_lh (noted i b l)) ` {..<m} = insert b (?f ` {..<n})" by simp_all
qed

lemma log_write_pins:
  fixes s :: "'a system_scheme"
  assumes inv: "cache_inv H s" "b \<in> H" and l: "lg (fsys s) = l" "log_ok l n" "log_pinned l n s" "n < 29" "int n < l_size l - 1" "1 \<le> l_outstanding l"
    and x: "b_dev (bufs (fsys s) b) = l_dev l" "b_blockno (bufs (fsys s) b) < FSSIZE" "b_blockno (bufs (fsys s) b) \<notin> log_area l"
  shows "\<exists>t m. log_write b s = Done () t \<and> cache_inv H t \<and> log_ok (lg (fsys t)) m \<and> log_pinned (lg (fsys t)) m t
    \<and> m = (if b_blockno (bufs (fsys s) b) \<in> lh_block (l_lh l) ` {..<n} then n else Suc n)
    \<and> disk (fsys t) = disk (fsys s) \<and> dirty t (l_dev l) (b_blockno (bufs (fsys s) b))"
proof -
  let ?n = "b_blockno (bufs (fsys s) b)"
  let ?i = "log_slot n 0 (lh_block (l_lh l)) ?n"
  let ?m = "if ?n \<in> lh_block (l_lh l) ` {..<n} then n else Suc n"
  let ?u = "set_bufs ((bufs (fsys s))(b := (bufs (fsys s) b)\<lparr>b_dirty := True\<rparr>)) s"
  have ln: "lh_n (l_lh l) = int n" using l(2) by (simp add: log_ok_def)
  note e = log_write_exec [OF cache_invD(1) [OF inv(1)] l(1) ln l(4-6), of b]
  note no = noted_ok [OF l(2,4) x(2,3)]
  note sd = set_dirty [OF inv]
  have "log_pinned (noted ?i ?n l) ?m (set_lg (noted ?i ?n l) ?u)"
    using l(3) sd(2) no(2) x(1) by (auto simp: log_pinned_def)
  moreover have "dirty ?u (l_dev l) ?n" using sd(2) x(1) by simp
  ultimately show ?thesis using e no(1) sd(1)
    by (intro exI [of _ "set_lg (noted ?i ?n l) ?u"] exI [of _ ?m]) simp
qed

section \<open>The end of a file system call\<close>

text \<open>The counters of the log that the file system calls keep do not matter for its contents.\<close>

definition in_commit :: "logstate \<Rightarrow> logstate" where
  "in_commit l = l\<lparr>l_outstanding := 0, l_committing := True\<rparr>"

lemma in_commit_simps [simp]:
  "l_dev (in_commit l) = l_dev l" "l_start (in_commit l) = l_start l" "l_lh (in_commit l) = l_lh l" "log_block (in_commit l) = log_block l"
  "log_area (in_commit l) = log_area l" "log_ok (in_commit l) n = log_ok l n" "agrees (in_commit l) = agrees l" "recovered (in_commit l) = recovered l"
  "log_intact (in_commit l) = log_intact l"
proof -
  show *: "l_dev (in_commit l) = l_dev l" "l_start (in_commit l) = l_start l" "l_lh (in_commit l) = l_lh l"
    "log_block (in_commit l) = log_block l" "log_area (in_commit l) = log_area l"
    by (simp_all add: in_commit_def log_block_def log_area_def fun_eq_iff)
  then show "log_ok (in_commit l) n = log_ok l n" "agrees (in_commit l) = agrees l" "recovered (in_commit l) = recovered l"
    "log_intact (in_commit l) = log_intact l"
    by (simp_all add: log_ok_def agrees_def outside_def recovered_def log_intact_def fun_eq_iff Let_def cong: option.case_cong)
qed

lemma in_commit_state [simp]:
  "log_pinned (in_commit l) n (set_lg l' s) = log_pinned l n s" "committed (in_commit l) n (set_lg l' s) = committed l n s"
  by (simp_all add: log_pinned_def committed_def fun_eq_iff)

lemma finished_lg: "finished l X s t \<Longrightarrow> lg (fsys t) = cleared l"
  unfolding finished_def bc_frame_def by (auto dest!: others_lg)

lemma finished_clean:
  assumes "finished l X s t" "log_ok l n" "log_pinned l n s"
  shows "no_dirty t"
proof -
  have n: "nat (lh_n (l_lh l)) = n" using assms(2) by (simp add: log_ok_def)
  have "\<not> dirty t k b" for k b using assms(1,3) unfolding finished_def log_pinned_def n by blast
  then show ?thesis by (auto simp: no_dirty_def dirty_def)
qed

text \<open>A machine that was started again with the same disks.\<close>

definition rebooted :: "logstate \<Rightarrow> (32 word \<Rightarrow> 32 word \<Rightarrow> bytes) \<Rightarrow> 'a system_scheme \<Rightarrow> bool" where
  "rebooted l D s \<longleftrightarrow> cache_inv {} s \<and> no_dirty s \<and> disk (fsys s) = D \<and> (\<exists>h. lg (fsys s) = with_head h l)"

lemma log_ok_less:
  assumes "log_ok l n" "m \<le> n"
  shows "log_ok (with_head ((l_lh l)\<lparr>lh_n := int m\<rparr>) l) m"
  using assms inj_on_subset [of "lh_block (l_lh l)" "{..<n}" "{..<m}"] by (auto simp: log_ok_def)

lemma with_head_twice [simp]: "with_head h (with_head h' l) = with_head h l"
  by (simp add: with_head_def)

context block_device
begin

lemma end_op_wp:
  fixes s :: "'a system_scheme"
  assumes K: "good K" and inv: "cache_inv {} s" and l: "lg (fsys s) = l" "log_ok l n" "l_outstanding l = 1" "\<not> l_committing l"
    "log_pinned l n s" "header_holds (disk (fsys s) (l_dev l) (l_start l)) 0 (lh_block (l_lh l))"
  shows "wp (end_op K)
    (\<lambda>_ t. cache_inv {} t \<and> no_dirty t \<and> lg (fsys t) = (cleared l)\<lparr>l_outstanding := 0\<rparr>
       \<and> header_holds (disk (fsys t) (l_dev l) (l_start l)) 0 (lh_block (l_lh l)) \<and> agrees l (\<lambda>k b. blk (disk (fsys t) k b)) (committed l n s))
    (\<lambda>u. log_intact l n (lh_block (l_lh l)) (disk (fsys u))
       \<and> (agrees l (recovered l (disk (fsys u))) (\<lambda>k b. blk (disk (fsys s) k b)) \<or> agrees l (recovered l (disk (fsys u))) (committed l n s))) s"
    (is "wp _ ?Q ?E s")
proof -
  let ?s = "set_lg (in_commit l) s"
  let ?tail = "seqs [acquire LogLock, upd_log (\<lambda>l. l\<lparr>l_committing := False\<rparr>), wakeup (Some ChLog), release LogLock]"
  have c: "calm s" using cache_invD(1) [OF inv] .
  have e: "end_op K s = bind (commit K) (\<lambda>_. ?tail) ?s"
    using c l by (simp add: end_op_def upd_log_def log_at_def exec_simps set_lg_def in_commit_def)
  have w: "wp (commit K) (\<lambda>_. wp ?tail ?Q ?E) ?E ?s"
  proof (rule wp_mono [OF commit_wp [OF K, of "in_commit l" n ?s "lh_block (l_lh l)"]])
    fix a t
    assume t: "finished (in_commit l) (committed (in_commit l) n ?s) ?s t"
    have ct: "cache_inv {} t" "calm t" using t cache_invD(1) by (auto simp: finished_def)
    note lt = finished_lg [OF t]
    have nd: "no_dirty t" using finished_clean [OF t, of n] l by simp
    let ?t = "set_lg ((cleared l)\<lparr>l_outstanding := 0\<rparr>) t"
    have "?tail t = Done () ?t"
      using ct(2) lt l(4) by (simp add: upd_log_def exec_simps set_lg_def cleared_def in_commit_def)
    moreover have "?Q () ?t" using t ct nd by (simp add: finished_def no_dirty_def)
    ultimately show "wp ?tail ?Q ?E t" by (simp add: wp_def)
  qed (use inv l in simp_all)
  then have "wp (bind (commit K) (\<lambda>_. ?tail)) ?Q ?E ?s" by (simp only: wp_bind)
  then show ?thesis using e by (simp add: wp_def)
qed

lemma crash_wp:
  fixes s :: "'a system_scheme"
  assumes "good K" "cache_inv {} s" "lg (fsys s) = l" "log_ok l n" "l_outstanding l = 1" "\<not> l_committing l" "log_pinned l n s"
    "header_holds (disk (fsys s) (l_dev l) (l_start l)) 0 (lh_block (l_lh l))"
  shows "wp (end_op K) (\<lambda>_ _. True) (\<lambda>u. \<forall>r. rebooted l (disk (fsys u)) r \<longrightarrow> wp (recover_from_log K)
    (\<lambda>_ t. agrees l (\<lambda>k b. blk (disk (fsys t) k b)) (\<lambda>k b. blk (disk (fsys s) k b)) \<or> agrees l (\<lambda>k b. blk (disk (fsys t) k b)) (committed l n s))
    (\<lambda>v. agrees l (recovered l (disk (fsys v))) (\<lambda>k b. blk (disk (fsys s) k b)) \<or> agrees l (recovered l (disk (fsys v))) (committed l n s)) r) s"
proof (rule wp_mono [OF end_op_wp [OF assms]], simp, intro allI impI)
  fix u r :: "'a system_scheme"
  let ?X = "\<lambda>k b. blk (disk (fsys s) k b)" and ?Y = "committed l n s"
  assume u: "log_intact l n (lh_block (l_lh l)) (disk (fsys u)) \<and> (agrees l (recovered l (disk (fsys u))) ?X \<or> agrees l (recovered l (disk (fsys u))) ?Y)"
    and "rebooted l (disk (fsys u)) r"
  then obtain h where r: "cache_inv {} r" "no_dirty r" "disk (fsys r) = disk (fsys u)" "lg (fsys r) = with_head h l" by (auto simp: rebooted_def)
  obtain m where m: "m \<le> n" "header_holds (disk (fsys u) (l_dev l) (l_start l)) m (lh_block (l_lh l))" using u by (auto simp: log_intact_def)
  have w: "wp (recover_from_log K) (\<lambda>_ t. cache_inv {} t \<and> no_dirty t \<and> lh_n (l_lh (lg (fsys t))) = 0
      \<and> header_holds (disk (fsys t) (l_dev l) (l_start l)) 0 (lh_block (l_lh l)) \<and> agrees l (\<lambda>k b. blk (disk (fsys t) k b)) (recovered l (disk (fsys u))))
    (\<lambda>v. log_intact l m (lh_block (l_lh l)) (disk (fsys v)) \<and> agrees l (recovered l (disk (fsys v))) (recovered l (disk (fsys u)))) r"
    using recover_wp [OF assms(1) _ r(1,4,2), of "(l_lh l)\<lparr>lh_n := int m\<rparr>" m] log_ok_less [OF assms(4) m(1)] m(2) r(3) 
    by (simp add: log_intact_def)
  show "wp (recover_from_log K) (\<lambda>_ t. agrees l (\<lambda>k b. blk (disk (fsys t) k b)) ?X \<or> agrees l (\<lambda>k b. blk (disk (fsys t) k b)) ?Y)
    (\<lambda>v. agrees l (recovered l (disk (fsys v))) ?X \<or> agrees l (recovered l (disk (fsys v))) ?Y) r"
    by (rule wp_mono [OF w]) (use u in \<open>auto simp: agrees_def\<close>)
qed

end

end
