(* ===== verification/Ide_Inv.thy ===== *)
theory Ide_Inv
  imports Fslog_Inv Ide
begin

text \<open>
  The disk driver of \<open>src/kernel/drivers/ide.c\<close> (modelled in \<open>Ide\<close>) is proved to be a block device in
  the sense of \<open>Bcache_Inv\<close>. The controllers are read off the log of port accesses: the task file
  registers of a controller select a drive and a sector, and a write command stores the data sent
  after it. \<open>idestart\<close> programs these registers so that they name the block of the buffer;
  \<open>iderw\<close> queues the request, issues the command and sleeps; while it sleeps the controller carries
  the command out, the handler \<open>ideintr\<close> or \<open>ideintr2\<close> completes the buffer and wakes the process.
\<close>

unbundle bit_operations_syntax

section \<open>The controllers\<close>

primrec reg :: "32 word \<Rightarrow> port_event list \<Rightarrow> 8 word" where
  "reg p [] = 0"
| "reg p (e # ps) = (case e of Outb q v \<Rightarrow> if q = p then v else reg p ps | Outsl _ _ \<Rightarrow> reg p ps)"

primrec sent :: "32 word \<Rightarrow> port_event list \<Rightarrow> bytes" where
  "sent p [] = (\<lambda>_. 0)"
| "sent p (e # ps) = (case e of Outb _ _ \<Rightarrow> sent p ps | Outsl q d \<Rightarrow> if q = p then d else sent p ps)"

definition lba :: "32 word \<Rightarrow> port_event list \<Rightarrow> 32 word" where
  "lba base ps = ucast (reg (base + 3) ps) OR push_bit 8 (ucast (reg (base + 4) ps)) OR push_bit 16 (ucast (reg (base + 5) ps))
     OR push_bit 24 (ucast (reg (base + 6) ps AND 0x0f))"

definition drive_of :: "32 word \<Rightarrow> port_event list \<Rightarrow> 32 word" where
  "drive_of base ps = (if base = BASEPORT1 then (if bit (reg (base + 6) ps) 4 then 1 else 0)
     else if bit (reg (base + 6) ps) 4 then 3 else 2)"

definition ide_exec :: "32 word \<Rightarrow> port_event list \<Rightarrow> (32 word \<Rightarrow> 32 word \<Rightarrow> bytes) \<Rightarrow> 32 word \<Rightarrow> 32 word \<Rightarrow> bytes" where
  "ide_exec base ps D = (if reg (base + 7) ps = ucast IDE_CMD_WRITE then put_disk (drive_of base ps) (lba base ps) (sent base ps) D else D)"

definition base_of :: "32 word \<Rightarrow> 32 word" where
  "base_of dev = (if dev = 1 then BASEPORT1 else BASEPORT2)"

section \<open>Issuing a command\<close>

definition set_ports :: "port_event list \<Rightarrow> 8 word \<Rightarrow> 'a system_scheme \<Rightarrow> 'a system_scheme" where
  "set_ports P S s = s\<lparr>fsys := (fsys s)\<lparr>ports := P, startup := S\<rparr>\<rparr>"

lemma port_exec [exec_simps]:
  "outb p v s = Done () (set_ports (Outb p (ucast v) # ports (fsys s)) (startup (fsys s)) s)"
  "outsl p d s = Done () (set_ports (Outsl p d # ports (fsys s)) (startup (fsys s)) s)"
  "inb K p s = Done (ucast (port_in K (ports (fsys s)) p)) s"
  by (simp_all add: outb_def outsl_def inb_def exec_simps set_ports_def)

lemma set_ports_simps [simp]:
  "ports (fsys (set_ports P S s)) = P" "startup (fsys (set_ports P S s)) = S" "set_ports P S (set_ports P' S' s) = set_ports P S s"
  "bufs (fsys (set_ports P S s)) = bufs (fsys s)" "disk (fsys (set_ports P S s)) = disk (fsys s)"
  "set_ports (ports (fsys s)) (startup (fsys s)) s = s"
  by (simp_all add: set_ports_def)

lemma select_once_exec [exec_simps]:
  "select_once m p v s = Done () (if startup (fsys s) AND m = 0 then set_ports (Outb p (ucast v) # ports (fsys s)) (startup (fsys s) OR m) s else s)"
  by (simp add: select_once_def exec_simps set_ports_def)

text \<open>After the first call every disk has been selected once.\<close>

abbreviation (input) selected :: "8 word \<Rightarrow> bool" where
  "selected S \<equiv> S AND 0x04 \<noteq> 0 \<and> S AND 0x08 \<noteq> 0 \<and> S AND 0x10 \<noteq> 0 \<and> S AND 0x20 \<noteq> 0 \<and> S AND 0x40 \<noteq> 0 \<and> S AND 0x80 \<noteq> 0"

lemma select_mask:
  "(S OR m) AND k \<noteq> 0 \<longleftrightarrow> S AND k \<noteq> 0 \<or> m AND k \<noteq> 0" for S :: "8 word"
  by (auto simp: bit_eq_iff bit_simps)

definition wait_status :: "'a system_scheme kparams \<Rightarrow> 32 word \<Rightarrow> bool \<Rightarrow> port_event list \<Rightarrow> int" where
  "wait_status K dev checkerr ps = (if ucast (port_in K ps (if dev = 2 then BASEPORT2 + 7 else BASEPORT1 + 7)) AND (0xC0 :: 32 word) = 0x40 then 0 else -1)"

lemma byte_low: "ucast x AND (0xFF :: 32 word) = ucast x" for x :: "8 word"
proof -
  have m: "(0xFF :: 32 word) = mask 8" by (simp add: mask_eq_exp_minus_1)
  show ?thesis unfolding m by (rule bit_word_eqI) (auto simp: bit_simps intro: ccontr [of "_ < 8"] dest: not_bit_8 [OF leI])
qed

lemma idewait_loop_exec:
  "idewait_loop (Suc 0) K (if dev = 2 then BASEPORT2 + 7 else BASEPORT1 + 7) checkerr s
     = Done (wait_status K dev checkerr (ports (fsys s))) s"
  by (simp add: exec_simps wait_status_def byte_low)

lemma select_step:
  assumes "m \<noteq> 0"
  shows "\<exists>P S. select_once m p v s = Done () (set_ports P S s) \<and> S AND m \<noteq> 0 \<and> (\<forall>k. startup (fsys s) AND k \<noteq> 0 \<longrightarrow> S AND k \<noteq> 0)"
proof (cases "startup (fsys s) AND m = 0")
  case True
  then show ?thesis using assms select_mask by (auto simp: exec_simps intro!: exI)
next
  case False
  then show ?thesis
    by (intro exI [of _ "ports (fsys s)"] exI [of _ "startup (fsys s)"]) (simp add: exec_simps)
qed

lemma select_all:
  "(\<forall>x \<in> set xs. fst x \<noteq> 0) \<Longrightarrow> \<exists>P S. seqs (map (\<lambda>x. select_once (fst x) (fst (snd x)) (snd (snd x))) xs) s = Done () (set_ports P S s)
     \<and> (\<forall>x \<in> set xs. S AND fst x \<noteq> 0) \<and> (\<forall>k. startup (fsys s) AND k \<noteq> 0 \<longrightarrow> S AND k \<noteq> 0)"
proof (induction xs arbitrary: s)
  case Nil
  show ?case by (intro exI [of _ "ports (fsys s)"] exI [of _ "startup (fsys s)"]) (simp add: exec_simps)
next
  case (Cons x xs)
  obtain m p v where x: "x = (m, p, v)" by (cases x)
  obtain P S where 1: "select_once m p v s = Done () (set_ports P S s)" "S AND m \<noteq> 0" "\<forall>k. startup (fsys s) AND k \<noteq> 0 \<longrightarrow> S AND k \<noteq> 0"
    using select_step [of m p v s] Cons.prems x by auto
  obtain P' S' where 2: "seqs (map (\<lambda>x. select_once (fst x) (fst (snd x)) (snd (snd x))) xs) (set_ports P S s) = Done () (set_ports P' S' s)"
    "\<forall>x \<in> set xs. S' AND fst x \<noteq> 0" "\<forall>k. S AND k \<noteq> 0 \<longrightarrow> S' AND k \<noteq> 0"
    using Cons.IH [of "set_ports P S s"] Cons.prems by auto
  show ?case using 1 2 x by (intro exI [of _ P'] exI [of _ S']) (simp add: bind_exec del: select_once_exec)
qed

lemma idewait_exec:
  "\<exists>P S r. idewait K dev checkerr s = Done r (set_ports P S s) \<and> selected S"
proof -
  let ?xs = "[(0x04, BASEPORT2 + 6, 0xe0), (0x08, BASEPORT2 + 6, 0xf0), (0x10, BASEPORT3 + 6, 0xe0), (0x20, BASEPORT3 + 6, 0xf0),
    (0x40, BASEPORT4 + 6, 0xe0), (0x80, BASEPORT4 + 6, 0xf0)] :: (8 word \<times> 32 word \<times> 32 word) list"
  obtain P S where s: "seqs (map (\<lambda>x. select_once (fst x) (fst (snd x)) (snd (snd x))) ?xs) s = Done () (set_ports P S s)" "\<forall>x \<in> set ?xs. S AND fst x \<noteq> 0"
    using select_all [of ?xs s] by auto
  have "idewait K dev checkerr s = bind (seqs (map (\<lambda>x. select_once (fst x) (fst (snd x)) (snd (snd x))) ?xs))
      (\<lambda>_. idewait_loop (Suc 0) K (if dev = 2 then BASEPORT2 + 7 else BASEPORT1 + 7) checkerr) s"
    by (simp only: idewait_def list.map fst_conv snd_conv)
  also have "\<dots> = Done (wait_status K dev checkerr P) (set_ports P S s)"
    by (simp only: bind_exec s(1) outcome.case idewait_loop_exec set_ports_simps)
  finally show ?thesis using s(2) by auto
qed

lemma idewait_selected:
  assumes "selected (startup (fsys s))"
  shows "idewait K dev checkerr s = Done (wait_status K dev checkerr (ports (fsys s))) s"
proof -
  have "seqs [select_once 0x04 (BASEPORT2 + 6) 0xe0, select_once 0x08 (BASEPORT2 + 6) 0xf0, select_once 0x10 (BASEPORT3 + 6) 0xe0,
      select_once 0x20 (BASEPORT3 + 6) 0xf0, select_once 0x40 (BASEPORT4 + 6) 0xe0, select_once 0x80 (BASEPORT4 + 6) 0xf0] s = Done () s"
    using assms by (simp add: exec_simps)
  then show ?thesis by (simp only: idewait_def bind_exec outcome.case idewait_loop_exec)
qed

section \<open>A command\<close>

lemma drive_1: "0xe0 OR push_bit 4 (1 :: 32 word) OR (drop_bit 24 n AND 0x0f) = 0xf0 OR (drop_bit 24 n AND 0x0f)"
  by (simp flip: or.assoc)

lemma lba_bytes:
  fixes n x :: "32 word"
  assumes n: "n < 1000" and x: "x AND 0x0f = 0"
  shows "(ucast (ucast (n AND 0xff) :: 8 word) :: 32 word) OR push_bit 8 (ucast (ucast (drop_bit 8 n AND 0xff) :: 8 word))
     OR push_bit 16 (ucast (ucast (drop_bit 16 n AND 0xff) :: 8 word))
     OR push_bit 24 (ucast (ucast (x OR (drop_bit 24 n AND 0x0f)) AND (0x0f :: 8 word))) = n"
proof -
  have d: "drop_bit 16 n = 0" "drop_bit 24 n = 0"
    using n by (simp_all add: word_unat_eq_iff unat_drop_bit_eq drop_bit_eq_div [where 'a = nat] word_less_nat_alt)
  have m: "(0xff :: 32 word) = mask 8" "(0x0f :: 32 word) = mask 4" "(0x0f :: 8 word) = mask 4" by (simp_all add: mask_eq_exp_minus_1)
  have x0: "\<not> bit x k" if "k < 4" for k
  proof -
    have "\<not> bit (x AND mask 4) k" using x unfolding m by simp
    then show ?thesis using that by (simp add: bit_simps)
  qed
  have n16: "\<not> bit n k" if "16 \<le> k" for k
  proof -
    have "\<not> bit (drop_bit 16 n) (k - 16)" using d(1) by simp
    then show ?thesis using that by (simp add: bit_simps)
  qed
  have h: "ucast (x OR (0 AND mask 4)) AND (mask 4 :: 8 word) = 0"
    by (rule bit_word_eqI) (auto simp: bit_simps x0)
  have "(ucast (ucast (n AND mask 8) :: 8 word) :: 32 word) OR push_bit 8 (ucast (ucast (drop_bit 8 n AND mask 8) :: 8 word)) = n"
  proof (rule bit_word_eqI, goal_cases)
    case (1 k)
    then show ?case by (cases "k < 8"; cases "k < 16") (auto simp: bit_simps n16)
  qed
  then show ?thesis unfolding d m h by simp
qed

lemma ide_command_exec:
  fixes s :: "'a system_scheme"
  shows "\<exists>P S. ide_command K wdev control base drv x s = Done () (set_ports P S s) \<and> selected S
    \<and> reg (base + 3) P = ucast (b_blockno x AND 0xff) \<and> reg (base + 4) P = ucast (drop_bit 8 (b_blockno x) AND 0xff)
    \<and> reg (base + 5) P = ucast (drop_bit 16 (b_blockno x) AND 0xff)
    \<and> reg (base + 6) P = ucast (0xe0 OR push_bit 4 drv OR (drop_bit 24 (b_blockno x) AND 0x0f))
    \<and> reg (base + 7) P = ucast (if b_dirty x then IDE_CMD_WRITE else IDE_CMD_READ) \<and> (b_dirty x \<longrightarrow> sent base P = b_data x)"
proof -
  obtain P S r where w: "idewait K wdev False s = Done r (set_ports P S s)" "selected S" using idewait_exec by blast
  show ?thesis
    by (cases "b_dirty x") (simp add: ide_command_def exec_simps w Let_def, intro exI conjI, rule refl, simp_all add: w(2))+
qed

lemma e0_or: "(0xe0 OR push_bit 4 drv) AND 0x0f = 0" for drv :: "32 word"
proof -
  have m: "(0x0f :: 32 word) = mask 4" by (simp add: mask_eq_exp_minus_1)
  have "(0xe0 OR push_bit 4 drv) AND 0x0f = (0xe0 AND 0x0f) OR (push_bit 4 drv AND 0x0f)" by (simp add: bit.conj_disj_distrib2)
  also have "push_bit 4 drv AND 0x0f = 0" unfolding m by (rule bit_word_eqI) (auto simp: bit_simps)
  finally show ?thesis by simp
qed

lemma bit_4:
  fixes drv n :: "32 word"
  assumes "n < 1000"
  shows "bit (ucast (0xe0 OR push_bit 4 drv OR (drop_bit 24 n AND 0x0f)) :: 8 word) 4 \<longleftrightarrow> bit drv 0"
proof -
  have m: "(0x0f :: 32 word) = mask 4" by (simp add: mask_eq_exp_minus_1)
  have "\<not> bit (0xe0 :: 32 word) 4" by simp
  then show ?thesis unfolding m by (simp add: bit_simps)
qed

lemma idestart_exec:
  fixes s :: "'a system_scheme"
  assumes dev: "b_dev (bufs (fsys s) b) = dev" "dev_ok dev" and n: "b_blockno (bufs (fsys s) b) < FSSIZE"
  shows "\<exists>P S. idestart K dev b s = Done () (set_ports P S s) \<and> selected S
    \<and> lba (base_of dev) P = b_blockno (bufs (fsys s) b) \<and> drive_of (base_of dev) P = dev
    \<and> reg (base_of dev + 7) P = ucast (if b_dirty (bufs (fsys s) b) then IDE_CMD_WRITE else IDE_CMD_READ)
    \<and> (b_dirty (bufs (fsys s) b) \<longrightarrow> sent (base_of dev) P = b_data (bufs (fsys s) b))"
proof -
  let ?x = "bufs (fsys s) b"
  let ?drv = "if dev = 1 then 1 else 2 :: 32 word"
  let ?c = "if dev = 1 then CONTROLBASE1 else CONTROLBASE2"
  have "idestart K dev b s = ide_command K dev ?c (base_of dev) ?drv ?x s"
    using dev n by (auto simp: idestart_def dev_ok_def exec_simps base_of_def not_le)
  moreover obtain P S where c: "ide_command K dev ?c (base_of dev) ?drv ?x s = Done () (set_ports P S s)" "selected S"
    "reg (base_of dev + 3) P = ucast (b_blockno ?x AND 0xff)" "reg (base_of dev + 4) P = ucast (drop_bit 8 (b_blockno ?x) AND 0xff)"
    "reg (base_of dev + 5) P = ucast (drop_bit 16 (b_blockno ?x) AND 0xff)"
    "reg (base_of dev + 6) P = ucast (0xe0 OR push_bit 4 ?drv OR (drop_bit 24 (b_blockno ?x) AND 0x0f))"
    "reg (base_of dev + 7) P = ucast (if b_dirty ?x then IDE_CMD_WRITE else IDE_CMD_READ)" "b_dirty ?x \<longrightarrow> sent (base_of dev) P = b_data ?x"
    using ide_command_exec [of K dev ?c "base_of dev" ?drv ?x s] by blast
  moreover have "lba (base_of dev) P = b_blockno ?x"
    unfolding lba_def c(3-6) using lba_bytes [OF n e0_or, of ?drv] by (simp only: or.assoc)
  moreover have "drive_of (base_of dev) P = dev"
    unfolding drive_of_def c(6) bit_4 [OF n] using dev(2) by (auto simp: dev_ok_def base_of_def)
  ultimately show ?thesis by metis
qed

section \<open>The interrupt\<close>

definition ide_handler :: "'a system_scheme kparams \<Rightarrow> 32 word \<Rightarrow> ('a system_scheme, unit) kmon" where
  "ide_handler K dev = (if dev = 1 then ideintr K else ideintr2 K)"

definition interrupted :: "32 word \<Rightarrow> 'a system_scheme \<Rightarrow> 'a system_scheme" where
  "interrupted dev t = (set_cur ((cur t)\<lparr>cproc := None, ncli := 0\<rparr>) t)\<lparr>locks := (\<lambda>_. free_lock), if_flag := False,
     fsys := (fsys t)\<lparr>disk := ide_exec (base_of dev) (ports (fsys t)) (disk (fsys t))\<rparr>\<rparr>"

definition asleep_on :: "nat \<Rightarrow> nat \<Rightarrow> 'a system_scheme \<Rightarrow> bool" where
  "asleep_on b p t \<longleftrightarrow> cpu_ok t \<and> this_cpu t < NCPU \<and> p < NPROC \<and> cproc (cur t) = Some p \<and> ncli (cur t) = 1
     \<and> locks t = (\<lambda>_. free_lock)(PtableLock := held_by (this_cpu t))
     \<and> (\<exists>R. qinv t R \<and> R SleepQ = [p]) \<and> state (ptable t p) = SLEEPING \<and> chan (ptable t p) = Some (ChBuf b)
     \<and> (\<forall>y. y \<noteq> p \<longrightarrow> chan (ptable t y) = None)"

lemma interrupted_fields [simp]:
  "ptable (interrupted dev t) = ptable t" "queues (interrupted dev t) = queues t" "locks (interrupted dev t) = (\<lambda>_. free_lock)"
  "fsys (interrupted dev t) = (fsys t)\<lparr>disk := ide_exec (base_of dev) (ports (fsys t)) (disk (fsys t))\<rparr>"
  by (simp_all add: interrupted_def)

lemma interrupted_cpu:
  assumes "cpu_ok t"
  shows "cpu_ok (interrupted dev t)" "ncli (cur (interrupted dev t)) = 0"
  using assms by (simp_all add: interrupted_def cpu_ok_def)

lemma wakeup_one:
  assumes ok: "cpu_ok w" "ncli (cur w) = 1" and fl: "locks w PtableLock = free_lock" "locks w CheckLock = free_lock"
      "\<forall>q. locks w (QLock q) = free_lock"
    and q: "qinv w R" "R SleepQ = [p]" and p: "state (ptable w p) = SLEEPING" "chan (ptable w p) = ch" "p < NPROC"
    and o: "\<forall>x. x \<noteq> p \<longrightarrow> chan (ptable w x) \<noteq> ch"
  shows "\<exists>T Q. wakeup ch w = Done () (w\<lparr>ptable := T, queues := Q\<rparr>)"
proof -
  let ?u = "(cli_enter w)\<lparr>locks := (locks w)(PtableLock := held_by (this_cpu w))\<rparr>"
  have u: "qinv ?u R" "movable p ?u" "0 < ncli (cur ?u)" "R SleepQ = [] @ p # []" "\<forall>a \<in> set []. chan (ptable ?u a) \<noteq> ch"
    "state (ptable ?u p) = SLEEPING" "chan (ptable ?u p) = ch"
    using q ok fl p by (simp_all add: qinv_def movable_def)
  have pr: "p \<notin> set (R ReadyQ)" using q qinv_disjoint [OF q(1), of SleepQ ReadyQ p] by auto
  have "\<forall>x \<in> set (R ReadyQ). chan (ptable ?u x) \<noteq> ch"
  proof
    fix x
    assume "x \<in> set (R ReadyQ)"
    then show "chan (ptable ?u x) \<noteq> ch" using o pr by auto
  qed
  from wakeup1_first [OF u this] obtain T Q where "wakeup1 ch ?u = Done () (?u\<lparr>ptable := T, queues := Q\<rparr>)" by blast
  moreover have "(locks w)(PtableLock := free_lock) = locks w" using fl(1) by (intro ext) simp
  ultimately show ?thesis using ok fl by (intro exI [of _ T] exI [of _ Q]) (simp add: wakeup_def exec_simps)
qed


text \<open>The buffer after its request: written out, or filled with what the controller delivers.\<close>

definition served :: "'a system_scheme kparams \<Rightarrow> 32 word \<Rightarrow> (32 word \<Rightarrow> 32 word \<Rightarrow> bytes) \<Rightarrow> port_event list \<Rightarrow> buf \<Rightarrow> buf" where
  "served K base D ps x = (if b_dirty x then x\<lparr>b_valid := True, b_dirty := False\<rparr>
     else x\<lparr>b_data := move_block (port_data K D ps base) (b_data x), b_valid := True, b_dirty := False\<rparr>)"

definition ide_ready :: "'a system_scheme kparams \<Rightarrow> bool" where
  "ide_ready K \<longleftrightarrow> (\<forall>ps. port_in K ps (BASEPORT1 + 7) = 0x40 \<and> port_in K ps (BASEPORT2 + 7) = 0x40)"

lemma ready_status: "ide_ready K \<Longrightarrow> wait_status K dev c ps = 0"
  by (simp add: ide_ready_def wait_status_def)

lemma finish_exec:
  fixes w :: "'a system_scheme"
  assumes K: "ide_ready K" and sel: "selected (startup (fsys w))"
    and ok: "cpu_ok w" "ncli (cur w) = 1" and fl: "locks w PtableLock = free_lock" "locks w CheckLock = free_lock"
      "\<forall>q. locks w (QLock q) = free_lock"
    and q: "qinv w R" "R SleepQ = [p]" and p: "state (ptable w p) = SLEEPING" "chan (ptable w p) = Some (ChBuf b)" "p < NPROC"
    and o: "\<forall>x. x \<noteq> p \<longrightarrow> chan (ptable w x) \<noteq> Some (ChBuf b)"
  shows "\<exists>T Q. finish_request K wdev base b w = Done () (w\<lparr>fsys := (fsys w)\<lparr>bufs := (bufs (fsys w))(b :=
    served K base (disk (fsys w)) (ports (fsys w)) (bufs (fsys w) b))\<rparr>, ptable := T, queues := Q\<rparr>)"
proof -
  let ?f = "(fsys w)\<lparr>bufs := (bufs (fsys w))(b := served K base (disk (fsys w)) (ports (fsys w)) (bufs (fsys w) b))\<rparr>"
  let ?w = "w\<lparr>fsys := ?f\<rparr>"
  obtain T Q where wk: "wakeup (Some (ChBuf b)) ?w = Done () (?w\<lparr>ptable := T, queues := Q\<rparr>)"
    using wakeup_one [of ?w R p "Some (ChBuf b)"] ok fl q p o by (auto simp: qinv_def)
  have "finish_request K wdev base b w = wakeup (Some (ChBuf b)) ?w"
    using idewait_selected [OF sel, of K wdev True] ready_status [OF K]
    by (simp add: finish_request_def buf_at_def upd_buf_def exec_simps served_def)
  then show ?thesis using wk by auto
qed


lemma handler_exec:
  fixes t :: "'a system_scheme"
  assumes K: "ide_ready K" and a: "asleep_on b p t" and sel: "selected (startup (fsys t))" and dev: "dev_ok dev"
    and q: "idequeue (fsys t) = (\<lambda>_. None)(dev := Some b)" "b_qnext (bufs (fsys t) b) = None" "b_dev (bufs (fsys t) b) = dev"
  defines "D \<equiv> ide_exec (base_of dev) (ports (fsys t)) (disk (fsys t))"
  shows "\<exists>v. ide_handler K dev (interrupted dev t) = Done () v \<and> fsys v = (fsys t)\<lparr>disk := D, idequeue := (\<lambda>_. None),
    bufs := (bufs (fsys t))(b := served K (base_of dev) D (ports (fsys t)) (bufs (fsys t) b))\<rparr>"
proof -
  let ?u = "interrupted dev t"
  let ?l = "IdeLock (unat dev)"
  let ?f = "(fsys ?u)\<lparr>idequeue := (\<lambda>_. None)\<rparr>"
  let ?w = "inside ?l (?u\<lparr>fsys := ?f\<rparr>)"
  have at: "cpu_ok t" "p < NPROC" "state (ptable t p) = SLEEPING" "chan (ptable t p) = Some (ChBuf b)"
    "\<forall>y. y \<noteq> p \<longrightarrow> chan (ptable t y) = None" using a by (auto simp: asleep_on_def)
  obtain R where R: "qinv t R" "R SleepQ = [p]" using a by (auto simp: asleep_on_def)
  have qu: "qinv ?w R" using R(1) by (simp add: qinv_def inside_def)
  note cu = interrupted_cpu [OF at(1), of dev]
  have cw: "cpu_ok ?w" "ncli (cur ?w) = 1" "locks ?w PtableLock = free_lock" "locks ?w CheckLock = free_lock" "\<forall>q. locks ?w (QLock q) = free_lock"
    using cu by (simp_all add: inside_def)
  obtain T Q where fin: "finish_request K dev (base_of dev) b ?w = Done () (?w\<lparr>fsys := (fsys ?w)\<lparr>bufs := (bufs (fsys ?w))(b :=
    served K (base_of dev) (disk (fsys ?w)) (ports (fsys ?w)) (bufs (fsys ?w) b))\<rparr>, ptable := T, queues := Q\<rparr>)"
    using finish_exec [OF K _ cw qu R(2), of b dev "base_of dev"] sel at by auto
  let ?x = "?w\<lparr>fsys := (fsys ?w)\<lparr>bufs := (bufs (fsys ?w))(b :=
    served K (base_of dev) (disk (fsys ?w)) (ports (fsys ?w)) (bufs (fsys ?w) b))\<rparr>, ptable := T, queues := Q\<rparr>"
  have acq: "acquire ?l ?u = Done () (inside ?l ?u)" using cu by (simp add: exec_simps inside_def)
  have rel: "release ?l ?x = Done () ((cli_leave ?x)\<lparr>locks := (locks ?x)(?l := free_lock)\<rparr>)"
    by (rule release_exec) (use cu in \<open>simp_all add: inside_def\<close>)
  have q': "(idequeue (fsys t))(dev := None) = (\<lambda>_. None)" using q(1) by auto
  have "ide_handler K dev ?u = release ?l ?x"
  proof (cases "dev = 1")
    case True
    then show ?thesis using acq fin q q' by (simp add: ide_handler_def ideintr_def buf_at_def set_idequeue_def exec_simps base_of_def)
  next
    case False
    then have "dev = 2" using dev by (simp add: dev_ok_def)
    then show ?thesis using acq fin q q' by (simp add: ide_handler_def ideintr2_def buf_at_def set_idequeue_def exec_simps base_of_def)
  qed
  from trans [OF this rel] show ?thesis by (intro exI conjI) (assumption, simp add: D_def)
qed

lemma finish_calm:
  fixes s :: "'a system_scheme"
  assumes s: "calm s" and l: "l \<noteq> PtableLock"
  shows "\<exists>P S y. finish_request K wdev base b (inside l s) = Done () (inside l (s\<lparr>fsys := (fsys s)\<lparr>ports := P, startup := S, bufs := (bufs (fsys s))(b := y)\<rparr>\<rparr>))"
proof (cases "b_dirty (bufs (fsys s) b)")
  case True
  then show ?thesis using s l
    by (intro exI [of _ "ports (fsys s)"] exI [of _ "startup (fsys s)"] exI) (simp add: finish_request_def buf_at_def upd_buf_def exec_simps)
next
  case False
  obtain P S r where w: "idewait K wdev True (inside l s) = Done r (set_ports P S (inside l s))" using idewait_exec by blast
  have i: "set_ports P S (inside l s) = inside l (s\<lparr>fsys := (fsys s)\<lparr>ports := P, startup := S\<rparr>\<rparr>)" by (simp add: set_ports_def)
  show ?thesis
  proof (cases "r \<ge> 0")
    case True
    then show ?thesis using s l False w
      by (intro exI [of _ P] exI [of _ S] exI) (simp add: finish_request_def buf_at_def upd_buf_def exec_simps i)
  next
    case r: False
    then show ?thesis using s l False w
      by (intro exI [of _ P] exI [of _ S] exI) (simp add: finish_request_def buf_at_def upd_buf_def exec_simps i)
  qed
qed

section \<open>Sleeping until the request is done\<close>

definition resumed :: "nat \<Rightarrow> 'a system_scheme \<Rightarrow> 'a system_scheme \<Rightarrow> bool" where
  "resumed p t x \<longleftrightarrow> (\<exists>rest R. on_cpu p rest R x \<and> R SleepQ = []) \<and> ncli (cur x) = 1
     \<and> locks x = (\<lambda>_. free_lock)(PtableLock := held_by (this_cpu x)) \<and> pid (ptable x p) = pid (ptable t p)
     \<and> (\<forall>y. y \<noteq> p \<longrightarrow> chan (ptable x y) = None)"

lemma switches_upd [simp]:
  "asleep_on b p (t\<lparr>switches := n\<rparr>) = asleep_on b p t" "on_cpu p rest R (t\<lparr>switches := n\<rparr>) = on_cpu p rest R t"
  "resumed p (t\<lparr>switches := n\<rparr>) x = resumed p t x" "resumed p t (x\<lparr>switches := n\<rparr>) = resumed p t x"
  by (simp_all add: asleep_on_def resumed_def on_cpu_def qinv_def)

text \<open>The end of \<open>sleep\<close>: the process takes its wait channel back and exchanges the locks.\<close>

lemma wake_tail:
  fixes x :: "'a system_scheme"
  assumes r: "resumed p t x" and l: "l \<noteq> PtableLock"
  shows "\<exists>u. bind (bind mycpu (\<lambda>c. upd_cpu c (\<lambda>k. k\<lparr>intena := saved\<rparr>))) (\<lambda>_. seqs [
        upd_proc p (\<lambda>x. x\<lparr>chan := None\<rparr>),
        cwhen (l \<noteq> PtableLock) (seqs [release PtableLock, acquire l])]) x = Done () (inside l u)
    \<and> calm u \<and> me u = p \<and> my_pid u = pid (ptable t p) \<and> fsys u = fsys x \<and> switches u = switches x"
proof -
  obtain rest R where o: "on_cpu p rest R x" "R SleepQ = []" using r by (auto simp: resumed_def)
  have x: "ncli (cur x) = 1" "locks x = (\<lambda>_. free_lock)(PtableLock := held_by (this_cpu x))" "pid (ptable x p) = pid (ptable t p)"
    "\<forall>y. y \<noteq> p \<longrightarrow> chan (ptable x y) = None" "cpu_ok x" "\<not> if_flag x" "cproc (cur x) = Some p"
    using r o by (auto simp: resumed_def on_cpu_def cpu_ok_def)
  let ?y = "(set_cur ((cur x)\<lparr>intena := saved\<rparr>) x)\<lparr>ptable := (ptable x)(p := (ptable x p)\<lparr>chan := None\<rparr>)\<rparr>"
  let ?u = "(cli_leave ?y)\<lparr>locks := (\<lambda>_. free_lock)\<rparr>"
  have y: "cpu_ok ?y" "ncli (cur ?y) = 1" "this_cpu ?y = this_cpu x" "intena (cur ?y) = saved" "cproc (cur ?y) = Some p"
    using x by (simp_all add: cpu_ok_def)
  have "qinv ?u R" using o(1) qinv_upd_data [of x R "(ptable x p)\<lparr>chan := None\<rparr>" p] by (simp add: on_cpu_def qinv_def)
  then have "on_cpu p rest R ?u" using o(1) x y by (simp add: on_cpu_def)
  moreover have "intena (cur ?u) = if_flag ?u" using x y by (simp add: cli_leave_def cpu_leave_def)
  ultimately have c: "calm ?u" using o(2) x y by (auto simp: calm_def)
  have lf: "(\<lambda>_. free_lock)(PtableLock := free_lock) = (\<lambda>_. free_lock)" by auto
  have "bind (bind mycpu (\<lambda>c. upd_cpu c (\<lambda>k. k\<lparr>intena := saved\<rparr>))) (\<lambda>_. seqs [
        upd_proc p (\<lambda>x. x\<lparr>chan := None\<rparr>), cwhen (l \<noteq> PtableLock) (seqs [release PtableLock, acquire l])]) x
    = acquire l ?u"
    using x y l lf by (simp add: exec_simps upd_cpu_exec)
  also have "\<dots> = Done () (inside l ?u)" using c by (rule calm_acquire)
  finally show ?thesis using c x y by (intro exI conjI) (assumption, simp_all add: me_def)
qed

lemma calm_sleep:
  fixes s :: "'a system_scheme"
  assumes c: "calm s" and l: "l \<noteq> PtableLock" "l \<noteq> CheckLock" "\<forall>q. l \<noteq> QLock q"
  shows "\<exists>t. fsys t = fsys s \<and> switches t = switches s \<and> asleep_on b (me s) t \<and> pid (ptable t (me s)) = my_pid s
    \<and> (switches s = 0 \<longrightarrow> sleep e (Some (ChBuf b)) (Some l) (inside l s) = Blocked t)
    \<and> (\<forall>n. switches s = Suc n \<and> resumed (me s) t (e n (t\<lparr>switches := n\<rparr>)) \<longrightarrow>
        (\<exists>u. sleep e (Some (ChBuf b)) (Some l) (inside l s) = Done () (inside l u) \<and> calm u \<and> me u = me s \<and> my_pid u = my_pid s
          \<and> fsys u = fsys (e n (t\<lparr>switches := n\<rparr>)) \<and> switches u = n))"
proof -
  let ?w = "inside l s"
  obtain p rest R where o: "on_cpu p rest R s" "R SleepQ = []" using c by (auto simp: calm_def)
  have p: "p = me s" using o(1) by (simp add: on_cpu_def me_def)
  have ow: "on_cpu p rest R ?w" using o(1) calmD [OF c] l by (auto simp: on_cpu_def inside_def qinv_def)
  have can: "can_sleep l p rest R ?w" using ow calmD [OF c] l by (simp add: can_sleep_def inside_def)
  let ?p = "(ptable ?w p)\<lparr>chan := Some (ChBuf b), state := SLEEPING\<rparr>"
  obtain T Q t where sl: "sleep e (Some (ChBuf b)) (Some l) ?w = bind (resume_sched e (intena (cur ?w))) (\<lambda>_. seqs [
        upd_proc p (\<lambda>x. x\<lparr>chan := None\<rparr>), cwhen (l \<noteq> PtableLock) (seqs [release PtableLock, acquire l])]) t"
    and t: "t = (handover l ?w)\<lparr>ptable := T, queues := Q\<rparr>"
      "qinv t (R(RunQ (this_cpu ?w) := rest, SleepQ := enqueue (\<lambda>x. overtakes ?p (ptable ?w x)) p (R SleepQ)))"
    and d: "\<forall>x. proc_data (T x) = proc_data (if x = p then ?p else ptable ?w x)"
    using sleep_queues [OF can, of e "Some (ChBuf b)"] by blast
  have pd: "state (T p) = SLEEPING" "chan (T p) = Some (ChBuf b)" "pid (T p) = pid (ptable s p)"
    using proc_data_eqD [OF d [rule_format, of p]] by simp_all
  have od: "chan (T x) = None" if "x \<noteq> p" for x
    using proc_data_eqD(4) [OF d [rule_format, of x]] that c by (simp add: calm_def)
  have as: "asleep_on b p t"
    unfolding asleep_on_def using t pd od ow calmD [OF c] l o(2) by (auto simp: on_cpu_def handover_def inside_def fun_eq_iff)
  have ft: "fsys t = fsys s" "switches t = switches s" using t(1) by (simp_all add: handover_def)
  have "sleep e (Some (ChBuf b)) (Some l) ?w = Blocked t" if "switches s = 0"
    using that ft(2) by (simp add: sl resume_sched_def swtch_def bind_exec)
  moreover have "\<exists>u. sleep e (Some (ChBuf b)) (Some l) ?w = Done () (inside l u) \<and> calm u \<and> me u = me s \<and> my_pid u = my_pid s
      \<and> fsys u = fsys (e n (t\<lparr>switches := n\<rparr>)) \<and> switches u = n"
    if n: "switches s = Suc n" and r: "resumed (me s) t (e n (t\<lparr>switches := n\<rparr>))" for n
  proof -
    let ?x = "(e n (t\<lparr>switches := n\<rparr>))\<lparr>switches := n\<rparr>"
    have "resumed p t ?x" using r p by simp
    from wake_tail [OF this l(1), of "intena (cur ?w)"] show ?thesis
      using n ft(2) pd(3) t(1) p by (simp add: sl resume_sched_def swtch_def bind_exec)
  qed
  ultimately show ?thesis using ft as pd(3) t(1) p by (intro exI [of _ t]) auto
qed


section \<open>The driver\<close>

text \<open>
  What is assumed of the hardware and of the rest of the system: the controllers are ready, they
  deliver the block of the last read command, and while a process sleeps on its request the
  controller carries the command out, the interrupt handler runs and the scheduler resumes the process.
\<close>

definition ide_data :: "'a system_scheme kparams \<Rightarrow> bool" where
  "ide_data K \<longleftrightarrow> (\<forall>D ps dev. dev_ok dev \<and> reg (base_of dev + 7) ps = ucast IDE_CMD_READ \<longrightarrow>
     port_data K D ps (base_of dev) = D (drive_of (base_of dev) ps) (lba (base_of dev) ps))"

definition disk_env :: "'a system_scheme kparams \<Rightarrow> bool" where
  "disk_env K \<longleftrightarrow> (\<forall>n t p b dev v. asleep_on b p t \<and> dev_ok dev \<and> idequeue (fsys t) = (\<lambda>_. None)(dev := Some b)
     \<and> ide_handler K dev (interrupted dev t) = Done () v \<longrightarrow> fsys (env K n t) = fsys v \<and> resumed p t (env K n t))"

definition ide_ok :: "'a system_scheme kparams \<Rightarrow> bool" where
  "ide_ok K \<longleftrightarrow> disk_rw K = iderw K \<and> ide_ready K \<and> ide_data K \<and> disk_env K"

text \<open>The state of the file system when the request has been issued, and when it is done.\<close>

definition issued :: "nat \<Rightarrow> 32 word \<Rightarrow> port_event list \<Rightarrow> 8 word \<Rightarrow> fsystem \<Rightarrow> fsystem" where
  "issued b dev P S f = f\<lparr>bufs := (bufs f)(b := (bufs f b)\<lparr>b_qnext := None\<rparr>), idequeue := (\<lambda>_. None)(dev := Some b), ports := P, startup := S\<rparr>"

definition commanded :: "32 word \<Rightarrow> buf \<Rightarrow> port_event list \<Rightarrow> 8 word \<Rightarrow> bool" where
  "commanded dev x P S \<longleftrightarrow> selected S \<and> lba (base_of dev) P = b_blockno x \<and> drive_of (base_of dev) P = dev
     \<and> reg (base_of dev + 7) P = ucast (if b_dirty x then IDE_CMD_WRITE else IDE_CMD_READ) \<and> (b_dirty x \<longrightarrow> sent (base_of dev) P = b_data x)"

lemma iderw_issues:
  fixes s :: "'a system_scheme"
  assumes s: "still s" and l: "slocked (BufLock b) s" and x: "\<not> (b_valid (bufs (fsys s) b) \<and> \<not> b_dirty (bufs (fsys s) b))"
    "b_dev (bufs (fsys s) b) = dev" "dev_ok dev" "b_blockno (bufs (fsys s) b) < FSSIZE"
  shows "\<exists>P S. commanded dev (bufs (fsys s) b) P S \<and> iderw K b dev s
    = bind (ide_sleep (Suc (switches s)) (env K) b (IdeLock (unat dev))) (\<lambda>_. release (IdeLock (unat dev)))
        (inside (IdeLock (unat dev)) (s\<lparr>fsys := issued b dev P S (fsys s)\<rparr>))"
proof -
  let ?l = "IdeLock (unat dev)"
  let ?f = "(fsys s)\<lparr>bufs := (bufs (fsys s))(b := (bufs (fsys s) b)\<lparr>b_qnext := None\<rparr>), idequeue := (\<lambda>_. None)(dev := Some b)\<rparr>"
  let ?w = "inside ?l (s\<lparr>fsys := ?f\<rparr>)"
  have c: "calm s" "idequeue (fsys s) = (\<lambda>_. None)" using s by (simp_all add: still_def)
  obtain P S where st: "idestart K dev b ?w = Done () (set_ports P S ?w)" "commanded dev (bufs (fsys ?w) b) P S"
    using idestart_exec [of ?w b dev K] x by (auto simp: commanded_def)
  have "commanded dev (bufs (fsys s) b) P S" using st(2) by (simp add: commanded_def)
  moreover have "set_ports P S ?w = inside ?l (s\<lparr>fsys := issued b dev P S (fsys s)\<rparr>)"
    by (simp add: set_ports_def issued_def)
  moreover have "holdingsleep (BufLock b) s = Done True s"
    using holdingsleep_exec [OF c(1), of "BufLock b"] l by (simp add: slocked_def)
  moreover have "1 \<le> dev" "dev \<le> 8" using x(3) by (auto simp: dev_ok_def)
  ultimately show ?thesis using st(1) c x(1,2)
    by (intro exI [of _ P] exI [of _ S]) (cases "b_dirty (bufs (fsys s) b)"; simp add: iderw_def buf_at_def upd_buf_def set_idequeue_def exec_simps Let_def del: ide_sleep.simps)
qed

definition completed :: "'a system_scheme kparams \<Rightarrow> nat \<Rightarrow> 32 word \<Rightarrow> port_event list \<Rightarrow> 8 word \<Rightarrow> fsystem \<Rightarrow> fsystem" where
  "completed K b dev P S f = (let D = ide_exec (base_of dev) P (disk f) in
     f\<lparr>disk := D, bufs := (bufs f)(b := served K (base_of dev) D P ((bufs f b)\<lparr>b_qnext := None\<rparr>)), ports := P, startup := S\<rparr>)"

lemma iderw_serves:
  fixes s :: "'a system_scheme"
  assumes K: "ide_ok K" and s: "still s" and l: "slocked (BufLock b) s" and x: "\<not> (b_valid (bufs (fsys s) b) \<and> \<not> b_dirty (bufs (fsys s) b))"
    "b_dev (bufs (fsys s) b) = dev" "dev_ok dev" "b_blockno (bufs (fsys s) b) < FSSIZE"
  shows "\<exists>P S. commanded dev (bufs (fsys s) b) P S \<and> wp (iderw K b dev)
    (\<lambda>_ t. calm t \<and> me t = me s \<and> my_pid t = my_pid s \<and> fsys t = completed K b dev P S (fsys s)) (\<lambda>t. disk (fsys t) = disk (fsys s)) s"
proof -
  let ?l = "IdeLock (unat dev)"
  obtain P S where cm: "commanded dev (bufs (fsys s) b) P S" and rw: "iderw K b dev s
    = bind (ide_sleep (Suc (switches s)) (env K) b ?l) (\<lambda>_. release ?l) (inside ?l (s\<lparr>fsys := issued b dev P S (fsys s)\<rparr>))"
    using iderw_issues [OF s l x] by blast
  let ?g = "issued b dev P S (fsys s)"
  let ?s = "s\<lparr>fsys := ?g\<rparr>"
  have c: "calm ?s" "idequeue (fsys s) = (\<lambda>_. None)" using s by (simp_all add: still_def)
  have g: "\<not> (b_valid (bufs ?g b) \<and> \<not> b_dirty (bufs ?g b))" "disk ?g = disk (fsys s)" using x(1) by (simp_all add: issued_def)
  obtain t where t: "fsys t = ?g" "switches t = switches s" "asleep_on b (me s) t" "pid (ptable t (me s)) = my_pid s"
    and z: "switches s = 0 \<Longrightarrow> sleep (env K) (Some (ChBuf b)) (Some ?l) (inside ?l ?s) = Blocked t"
    and n: "\<And>n. \<lbrakk>switches s = Suc n; resumed (me s) t (env K n (t\<lparr>switches := n\<rparr>))\<rbrakk> \<Longrightarrow>
        \<exists>u. sleep (env K) (Some (ChBuf b)) (Some ?l) (inside ?l ?s) = Done () (inside ?l u) \<and> calm u \<and> me u = me s \<and> my_pid u = my_pid s
          \<and> fsys u = fsys (env K n (t\<lparr>switches := n\<rparr>)) \<and> switches u = n"
    using calm_sleep [OF c(1), of ?l b "env K"] by auto
  have e: "iderw K b dev s = (case sleep (env K) (Some (ChBuf b)) (Some ?l) (inside ?l ?s) of
      Done _ u \<Rightarrow> bind (ide_sleep (switches s) (env K) b ?l) (\<lambda>_. release ?l) u | Fail f \<Rightarrow> Fail f | Blocked u \<Rightarrow> Blocked u)"
    using rw g(1) by (cases "b_dirty (bufs ?g b)") (simp_all add: bind_exec buf_at_def exec_simps split: outcome.splits)
  have "wp (iderw K b dev) (\<lambda>_ u. calm u \<and> me u = me s \<and> my_pid u = my_pid s \<and> fsys u = completed K b dev P S (fsys s))
    (\<lambda>u. disk (fsys u) = disk (fsys s)) s"
  proof (cases "switches s")
    case 0
    then show ?thesis using e z t(1) g(2) by (simp add: wp_def)
  next
    case (Suc m)
    let ?t = "t\<lparr>switches := m\<rparr>"
    have K': "ide_ready K" "disk_env K" using K by (simp_all add: ide_ok_def)
    have sel: "selected (startup (fsys ?t))" using cm t(1) by (simp add: commanded_def issued_def)
    obtain v where v: "ide_handler K dev (interrupted dev ?t) = Done () v" "fsys v = completed K b dev P S (fsys s)"
      using handler_exec [OF K'(1), of b "me s" ?t dev] t(1,3) sel x(2,3) c(2)
      by (auto simp: issued_def completed_def Let_def)
    have "asleep_on b (me s) ?t" "idequeue (fsys ?t) = (\<lambda>_. None)(dev := Some b)" using t(1,3) by (simp_all add: issued_def)
    then have en: "fsys (env K m ?t) = fsys v" "resumed (me s) t (env K m ?t)"
      using K'(2) x(3) v(1) unfolding disk_env_def by (blast, metis switches_upd(3))
    obtain u where u: "sleep (env K) (Some (ChBuf b)) (Some ?l) (inside ?l ?s) = Done () (inside ?l u)" "calm u" "me u = me s" "my_pid u = my_pid s"
      "fsys u = completed K b dev P S (fsys s)" using n [OF Suc en(2)] en(1) v(2) by auto
    have "b_valid (bufs (fsys u) b)" "\<not> b_dirty (bufs (fsys u) b)" using u(5) by (simp_all add: completed_def served_def Let_def)
    then have "iderw K b dev s = Done () u" using e u(1,2) Suc by (simp add: exec_simps buf_at_def)
    then show ?thesis using u by (simp add: wp_def)
  qed
  with cm show ?thesis by blast
qed

lemma completed_frame:
  assumes "still s" "calm t" "me t = me s" "my_pid t = my_pid s" "fsys t = completed K b dev P S (fsys s)"
  shows "rw_frame s t"
  using assms by (auto simp: rw_frame_def still_def bc_frame_def completed_def others_def Let_def)

lemma completed_write:
  assumes "commanded (b_dev (bufs f b)) (bufs f b) P S" "b_dirty (bufs f b)" "b_dev (bufs f b) = dev"
  shows "disk (completed K b dev P S f) = put_disk dev (b_blockno (bufs f b)) (b_data (bufs f b)) (disk f)"
    "bufs (completed K b dev P S f) = (bufs f)(b := (bufs f b)\<lparr>b_valid := True, b_dirty := False, b_qnext := None\<rparr>)"
  using assms by (auto simp: completed_def commanded_def ide_exec_def served_def Let_def)

lemma completed_read:
  assumes "ide_data K" "commanded dev (bufs f b) P S" "\<not> b_dirty (bufs f b)" "dev_ok dev"
  shows "disk (completed K b dev P S f) = disk f"
    "bufs (completed K b dev P S f) = (bufs f)(b := (bufs f b)\<lparr>b_valid := True, b_qnext := None,
       b_data := move_block (disk f dev (b_blockno (bufs f b))) (b_data (bufs f b))\<rparr>)"
  using assms by (auto simp: completed_def commanded_def ide_exec_def served_def ide_data_def Let_def)

interpretation ide: block_device ide_ok
proof (unfold_locales, goal_cases)
  case (1 K s b)
  let ?x = "bufs (fsys s) b"
  obtain P S where cm: "commanded (b_dev ?x) ?x P S" and w: "wp (iderw K b (b_dev ?x))
    (\<lambda>_ t. calm t \<and> me t = me s \<and> my_pid t = my_pid s \<and> fsys t = completed K b (b_dev ?x) P S (fsys s)) (\<lambda>t. disk (fsys t) = disk (fsys s)) s"
    using iderw_serves [OF 1(1,2,4) _ _ 1(6,7)] 1(5) by auto
  have K: "disk_rw K = iderw K" using 1(1) by (simp add: ide_ok_def)
  show ?case unfolding K
    by (rule wp_mono [OF w]) (use completed_write [OF cm 1(5) refl] completed_frame [OF 1(2)] in auto)
next
  case (2 K s b)
  let ?x = "bufs (fsys s) b"
  obtain P S where cm: "commanded (b_dev ?x) ?x P S" and w: "wp (iderw K b (b_dev ?x))
    (\<lambda>_ t. calm t \<and> me t = me s \<and> my_pid t = my_pid s \<and> fsys t = completed K b (b_dev ?x) P S (fsys s)) (\<lambda>t. disk (fsys t) = disk (fsys s)) s"
    using iderw_serves [OF 2(1,2,4) _ _ 2(7,8)] 2(5) by auto
  have K: "disk_rw K = iderw K" "ide_data K" using 2(1) by (simp_all add: ide_ok_def)
  note cr = completed_read [OF K(2) cm 2(6,7)]
  show ?case unfolding K(1)
  proof (rule wp_mono [OF w])
    fix a and t :: "'a system_scheme"
    assume t: "calm t \<and> me t = me s \<and> my_pid t = my_pid s \<and> fsys t = completed K b (b_dev ?x) P S (fsys s)"
    then show "rw_frame s t \<and> disk (fsys t) = disk (fsys s) \<and> (\<exists>d. blk d = blk (disk (fsys s) (b_dev ?x) (b_blockno ?x))
           \<and> bufs (fsys t) = (bufs (fsys s))(b := ?x\<lparr>b_valid := True, b_qnext := None, b_data := d\<rparr>))"
      using completed_frame [OF 2(2)] cr
      by (auto intro!: exI [of _ "move_block (disk (fsys s) (b_dev ?x) (b_blockno ?x)) (b_data ?x)"])
  qed
qed

end
