(* ===== verification/Samples.thy ===== *)
theory Samples
  imports Trap Ide_Inv
begin

text \<open>
  Concrete kernel states on which the properties are evaluated: a machine with two CPUs, all
  locks free, in the situations the operations expect (queued, running and sleeping processes,
  a free list of pages, a page directory).
\<close>

section \<open>Processes and queues\<close>

text \<open>A machine with two CPUs that runs on the first one, with all locks free.\<close>

definition proc0 :: proc where
  "proc0 = \<lparr>sz = 0, stack_base = 0, p_sig = 0, signal_handler = 0, p_ign = 0, p_pri = 3,
     p_time_quantum = 45, p_cpu_usage = 0, p_flag = 0, queue_mask = 0, space_flag = 2,
     child_pri = 0, pgdir = 0, kstack = 0, state = RUNNABLE, pid = 0, parent = None,
     tf = \<lparr>eax = 0, esp = 0, eip = 0, eflags = 0, cs = 0, ds = 0, es = 0, ss = 0, trapno = 0\<rparr>,
     chan = None, killed = False, ofile = (\<lambda>_. None), cwd = None, pname = [],
     nxt = None, prv = None, curr_cpu = 777, curr = None\<rparr>"

definition kernel0 :: kernel where
  "kernel0 = \<lparr>lapic_id = 0, if_flag = True,
     cpus = [\<lparr>apicid = 0, ncli = 0, intena = False, cproc = None, ts_esp0 = 0, cr3 = 0\<rparr>,
             \<lparr>apicid = 1, ncli = 0, intena = False, cproc = None, ts_esp0 = 0, cr3 = 0\<rparr>],
     locks = (\<lambda>_. free_lock), switches = 0, ptable = (\<lambda>i. proc0\<lparr>pid := int i\<rparr>),
     queues = (\<lambda>_. \<lparr>head = None, tail = None, len = 0\<rparr>), nextpid = 65, initproc = None,
     c_avg = \<lparr>total_cpu_time = 0, n_procs = 0, avg = 25\<rparr>, ticks = 0, kpgdir = 0x80400000\<rparr>"

text \<open>Processes 0 and 1 are queued on the first run queue.\<close>

definition kernel1 :: kernel where
  "kernel1 = kernel0\<lparr>
     ptable := (ptable kernel0)(
       0 := (ptable kernel0 0)\<lparr>nxt := Some 1, curr := Some (RunQ 0)\<rparr>,
       1 := (ptable kernel0 1)\<lparr>prv := Some 0, curr := Some (RunQ 0)\<rparr>),
     queues := (queues kernel0)(RunQ 0 := \<lparr>head = Some 0, tail = Some 1, len = 2\<rparr>)\<rparr>"

text \<open>Process 0 runs on the first CPU; process 1 is asleep and waits for a clock tick.\<close>

definition running :: "int \<Rightarrow> kernel \<Rightarrow> kernel" where
  "running n s = s\<lparr>if_flag := (n = 0), cpus := (cpus s)[0 := (cpus s ! 0)\<lparr>ncli := n, cproc := Some 0\<rparr>]\<rparr>"

definition kernel2 :: kernel where
  "kernel2 = running 0 (kernel0\<lparr>
     ptable := (ptable kernel0)(
       0 := (ptable kernel0 0)\<lparr>state := RUNNING, curr := Some (RunQ 0)\<rparr>,
       1 := (ptable kernel0 1)\<lparr>state := SLEEPING, chan := Some ChTicks, curr := Some SleepQ\<rparr>),
     queues := (queues kernel0)(
       RunQ 0 := \<lparr>head = Some 0, tail = None, len = 1\<rparr>,
       SleepQ := \<lparr>head = Some 1, tail = None, len = 1\<rparr>)\<rparr>)"

definition lists2 :: "qid \<Rightarrow> nat list" where
  "lists2 = (\<lambda>_. [])(RunQ 0 := [0], SleepQ := [1])"

text \<open>The same with the lock of the clock held by the first CPU.\<close>

definition kernel3 :: kernel where
  "kernel3 = running 1 (kernel2\<lparr>locks := (locks kernel2)(TicksLock := held_by 0)\<rparr>)"

text \<open>Process 2 is ready and the first CPU is idle.\<close>

definition kernel4 :: kernel where
  "kernel4 = kernel0\<lparr>
     ptable := (ptable kernel0)(
       2 := (ptable kernel0 2)\<lparr>curr := Some ReadyQ, kstack := 0x80500000, pgdir := 0x80501000\<rparr>),
     queues := (queues kernel0)(ReadyQ := \<lparr>head = Some 2, tail = None, len = 1\<rparr>)\<rparr>"

definition lists4 :: "qid \<Rightarrow> nat list" where
  "lists4 = (\<lambda>_. [])(ReadyQ := [2])"

lemmas sample_defs = proc0_def kernel0_def kernel1_def kernel2_def kernel3_def kernel4_def running_def
  lists2_def lists4_def cpu_ok_def cur_def this_cpu_def

lemma sample_qinv: "qinv kernel1 ((\<lambda>_. [])(RunQ 0 := [0, 1]))" "qinv kernel2 lists2" "qinv kernel3 lists2" "qinv kernel4 lists4"
  by (auto simp: qinv_def qrep_def sample_defs)

section \<open>Memory\<close>

text \<open>A machine with memory \<open>m\<close> and the free list at \<open>l\<close>; two free pages; one free page.\<close>

definition memory_of :: "bytes \<Rightarrow> ptr \<Rightarrow> memory" where
  "memory_of m l = kernel.extend kernel0 \<lparr>mem = m, use_lock = True, freelist = l, kend = 0x80200000, kdata = 0x80108000\<rparr>"

definition memory1 :: memory where
  "memory1 = memory_of (store32 0x80300000 0x80301000 (\<lambda>_. 0)) 0x80300000"

definition memory2 :: memory where
  "memory2 = memory_of (\<lambda>_. 0) 0x80300000"

lemmas memory_defs = memory_of_def memory1_def kernel.extend_def kernel0_def machine.defs kernel.defs

lemma memory_of_ready: "kmem_ready (memory_of m l)"
  by (simp add: kmem_ready_def cpu_ok_def this_cpu_def cur_def memory_defs)

lemma memory_of_fields [simp]: "mem (memory_of m l) = m" "freelist (memory_of m l) = l" "kend (memory_of m l) = 0x80200000"
  by (simp_all add: memory_defs)

lemma memory1_free: "kmem_free memory1 [0x80300000, 0x80301000]"
proof -
  have "load32 (mem memory1) 0x80300000 = 0x80301000" by (simp add: memory1_def)
  moreover have "load32 (mem memory1) 0x80301000 = 0"
    by (simp add: memory1_def load32_def store32_def)
  ultimately show ?thesis
    using memory_of_ready by (simp add: kmem_free_def free_pages_def memory1_def page_ok_def V2P_def)
qed

lemma memory2_ok: "vm_ok memory2 0x80400000 [0x80300000]"
  using memory_of_ready [of "\<lambda>_. 0"]
  by (auto simp: vm_ok_def memory2_def kmem_free_def free_pages_def pt_ok_def pt_pages_def has_tab_def pde_at_def
      load32_def page_ok_def V2P_def)

section \<open>The whole system\<close>

text \<open>Process 0 runs on the first CPU, and nothing else is going on.\<close>

definition kernel5 :: kernel where
  "kernel5 = running 0 (kernel0\<lparr>
     if_flag := True, cpus := map (\<lambda>c. c\<lparr>intena := True\<rparr>) (cpus kernel0),
     ptable := (ptable kernel0)(0 := (ptable kernel0 0)\<lparr>state := RUNNING, curr := Some (RunQ 0), pid := 1\<rparr>),
     queues := (queues kernel0)(RunQ 0 := \<lparr>head = Some 0, tail = None, len = 1\<rparr>)\<rparr>)"

definition fsystem0 :: fsystem where
  "fsystem0 = \<lparr>slocks = (\<lambda>_. free_slock),
     sems = (\<lambda>_. \<lparr>sem_value = 0, sem_waiting = 0, sem_holding = 0, holder_pids = []\<rparr>),
     pipes = (\<lambda>_. \<lparr>p_data = (\<lambda>_. 0), nread = 0, nwrite = 0, readopen = True, writeopen = True\<rparr>),
     bufs = (\<lambda>_. \<lparr>b_valid = False, b_dirty = False, b_dev = 0, b_blockno = 0, b_refcnt = 0, b_prev = 0, b_next = 0,
       b_qnext = None, b_data = (\<lambda>_. 0)\<rparr>),
     disk = (\<lambda>_ _ _. 0), idequeue = (\<lambda>_. None), ports = [], disk_presence = 7, startup = 0,
     lg = \<lparr>l_start = 2, l_size = 30, l_outstanding = 0, l_committing = False, l_dev = 1,
       l_lh = \<lparr>lh_n = 0, lh_block = (\<lambda>_. 0)\<rparr>\<rparr>,
     sbs = (\<lambda>_. \<lparr>sb_size = 1000, sb_nblocks = 900, sb_ninodes = 200, sb_nlog = 30, sb_logstart = 2,
       sb_inodestart = 32, sb_bmapstart = 58\<rparr>),
     icache = (\<lambda>_ _. inode1), ftable = (\<lambda>_. \<lparr>f_type = FD_NONE, f_ref = 0, f_readable = False, f_writable = False,
       f_pipe = 0, f_ip = None, f_off = 0\<rparr>),
     mount_locked = False, mount_point = None, mount_root = None, first_run = False\<rparr>"

definition console0 :: console where
  "console0 = \<lparr>cons_locking = True, passwd_mode = False, in_buf = (\<lambda>_. 0), in_r = 0, in_w = 0, in_e = 0,
     crt = (\<lambda>_. 0), crt_pos = 0, uart = False, uart_out = [], kbd_shift = 0\<rparr>"

definition system_of :: "fsystem \<Rightarrow> console \<Rightarrow> system" where
  "system_of f c = memory.extend (kernel.extend kernel5 \<lparr>mem = ucast, use_lock = True, freelist = 0, kend = 0x80200000, kdata = 0x80108000\<rparr>)
     \<lparr>fsys = f, con = c\<rparr>"

lemmas system_defs = system_of_def kernel5_def kernel0_def proc0_def running_def memory.extend_def kernel.extend_def
   machine.defs kernel.defs memory.defs

lemma system_fields [simp]: "fsys (system_of f c) = f" "con (system_of f c) = c" "mem (system_of f c) = ucast"
   "this_cpu (system_of f c) = 0" "me (system_of f c) = 0" "my_pid (system_of f c) = 1" "pid (ptable (system_of f c) 0) = 1" "switches (system_of f c) = 0"
  by (simp_all add: system_defs this_cpu_def me_def cur_def)

lemma system_on_cpu: "on_cpu 0 [] ((\<lambda>_. [])(RunQ 0 := [0])) (system_of f c)"
  by (auto simp: on_cpu_def qinv_def qrep_def cpu_ok_def this_cpu_def cur_def system_defs)

lemma system_calm [simp]: "calm (system_of f c)"
proof -
  have "ncli (cur (system_of f c)) = 0" "intena (cur (system_of f c)) = if_flag (system_of f c)"
    "locks (system_of f c) = (\<lambda>_. free_lock)" "\<forall>x. chan (ptable (system_of f c) x) = None"
    by (simp_all add: this_cpu_def cur_def system_defs)
  moreover have "\<exists>p rest R. on_cpu p rest R (system_of f c) \<and> R SleepQ = []"
    using system_on_cpu [of f c] by (intro exI conjI) (assumption, simp)
  ultimately show ?thesis by (simp add: calm_def)
qed


abbreviation (input) system0 :: system where "system0 \<equiv> system_of fsystem0 console0"

section \<open>A machine with disks\<close>

text \<open>
  The rest of the system while a process waits for the disk, at its simplest: the controller
  carries out the command, the handler runs, and the process is resumed with all other processes idle.
\<close>

definition back_on_cpu :: "nat \<Rightarrow> 'a system_scheme \<Rightarrow> 'a system_scheme" where
  "back_on_cpu p t = t\<lparr>
     ptable := (\<lambda>i. (ptable t i)\<lparr>nxt := None, prv := None, curr := None, chan := None\<rparr>)(
       p := (ptable t p)\<lparr>state := RUNNING, nxt := None, prv := None, curr := Some (RunQ (this_cpu t)), curr_cpu := NOCPU\<rparr>),
     queues := (\<lambda>_. \<lparr>head = None, tail = None, len = 0\<rparr>)(RunQ (this_cpu t) := \<lparr>head = Some p, tail = None, len = 1\<rparr>)\<rparr>"

definition disk_env0 :: "'a system_scheme kparams \<Rightarrow> 'a system_scheme environment" where
  "disk_env0 K n t = (let dev = (if idequeue (fsys t) 1 = None then 2 else 1) in
     case ide_handler K dev (interrupted dev t) of
       Done _ v \<Rightarrow> back_on_cpu (the (cproc (cur t))) (t\<lparr>fsys := fsys v\<rparr>)
     | _ \<Rightarrow> t)"

definition machine0 :: "'a system_scheme kparams" where
  "machine0 = \<lparr>env = (\<lambda>n s. s), disk_rw = (\<lambda>_ _. return ()), dev_read = (\<lambda>_. None), dev_write = (\<lambda>_. None),
     port_in = (\<lambda>_ _. 0x40), port_data = (\<lambda>D ps base. D (drive_of base ps) (lba base ps)), elf_var = 0, ph_var = 0, proc_addr = (\<lambda>_. 0)\<rparr>"

definition machine1 :: "'a system_scheme kparams" where
  "machine1 = machine0\<lparr>env := disk_env0 machine0, disk_rw := iderw (machine0\<lparr>env := disk_env0 machine0\<rparr>)\<rparr>"

text \<open>The driver does not depend on the environment, nor does any routine of it on the driver.\<close>

lemma inb_cong: "inb (K\<lparr>env := e\<rparr>) = inb K" "inb (K\<lparr>disk_rw := r\<rparr>) = inb K"
  by (intro ext, simp add: inb_def)+

lemma idewait_loop_cong: "idewait_loop n (K\<lparr>env := e\<rparr>) = idewait_loop n K" "idewait_loop n (K\<lparr>disk_rw := r\<rparr>) = idewait_loop n K"
  by (induction n; intro ext; simp add: inb_cong cong: if_cong)+

lemma idewait_cong: "idewait (K\<lparr>env := e\<rparr>) = idewait K" "idewait (K\<lparr>disk_rw := r\<rparr>) = idewait K"
  by (intro ext, simp only: idewait_def idewait_loop_cong)+

lemma ide_command_cong: "ide_command (K\<lparr>env := e\<rparr>) = ide_command K" "ide_command (K\<lparr>disk_rw := r\<rparr>) = ide_command K"
  by (intro ext, simp only: ide_command_def idewait_cong)+

lemma idestart_cong: "idestart (K\<lparr>env := e\<rparr>) = idestart K" "idestart (K\<lparr>disk_rw := r\<rparr>) = idestart K"
  unfolding idestart_def fun_eq_iff ide_command_cong by simp_all

lemma finish_cong: "finish_request (K\<lparr>env := e\<rparr>) = finish_request K" "finish_request (K\<lparr>disk_rw := r\<rparr>) = finish_request K"
  unfolding finish_request_def fun_eq_iff idewait_cong by simp_all

lemma handler_cong: "ide_handler (K\<lparr>env := e\<rparr>) = ide_handler K" "ide_handler (K\<lparr>disk_rw := r\<rparr>) = ide_handler K"
  unfolding ide_handler_def ideintr_def ideintr2_def fun_eq_iff finish_cong idestart_cong by simp_all

lemma iderw_cong: "iderw (K\<lparr>disk_rw := r\<rparr>) = iderw K"
proof -
  have e: "env (K\<lparr>disk_rw := r\<rparr>) = env K" by simp
  show ?thesis by (intro ext) (simp only: iderw_def idestart_cong e)
qed

lemma back_on_cpu_resumed:
  assumes "asleep_on b p t"
  shows "resumed p t (back_on_cpu p (t\<lparr>fsys := f\<rparr>))"
proof -
  let ?x = "back_on_cpu p (t\<lparr>fsys := f\<rparr>)"
  let ?R = "(\<lambda>_. [])(RunQ (this_cpu t) := [p])"
  have c: "cpus ?x = cpus t" "this_cpu ?x = this_cpu t" "cur ?x = cur t" "cpu_ok ?x = cpu_ok t" "locks ?x = locks t"
    by (simp_all add: back_on_cpu_def)
  have "on_cpu p [] ?R ?x"
    using assms c by (auto simp: on_cpu_def asleep_on_def qinv_def qrep_def) (auto simp: back_on_cpu_def)
  then show ?thesis
    using assms c by (auto simp: resumed_def asleep_on_def intro!: exI [of _ "[]"] exI [of _ ?R]) (auto simp: back_on_cpu_def)
qed

lemma machine1_ok: "ide_ok machine1"
proof -
  have "disk_env machine1"
    unfolding disk_env_def
  proof (intro allI impI)
    fix n t p b dev v
    assume a: "asleep_on b p t \<and> dev_ok dev \<and> idequeue (fsys t) = (\<lambda>_. None)(dev := Some b) \<and> ide_handler machine1 dev (interrupted dev t) = Done () v"
    then have d: "(if idequeue (fsys t) 1 = None then 2 else 1) = dev" by (auto simp: dev_ok_def)
    have p: "cproc (cur t) = Some p" using a by (auto simp: asleep_on_def)
    have "ide_handler machine0 dev (interrupted dev t) = Done () v" using a by (simp add: machine1_def handler_cong)
    then have "env machine1 n t = back_on_cpu p (t\<lparr>fsys := fsys v\<rparr>)" using d p by (simp add: machine1_def disk_env0_def Let_def)
    then show "fsys (env machine1 n t) = fsys v \<and> resumed p t (env machine1 n t)"
      using back_on_cpu_resumed [of b p t "fsys v"] a by (simp add: back_on_cpu_def)
  qed
  moreover have "disk_rw machine1 = iderw machine1" by (simp add: machine1_def iderw_cong)
  moreover have "ide_ready machine1" "ide_data machine1" by (simp_all add: ide_ready_def ide_data_def machine1_def machine0_def)
  ultimately show ?thesis by (simp add: ide_ok_def)
qed


text \<open>
  A buffer cache as \<open>binit\<close> leaves it, with the buffers changed by \<open>g\<close>; the current transaction has
  changed block 100; in addition the process holds block 101; a cache with nothing in it.
\<close>

definition cache_of :: "(nat \<Rightarrow> buf \<Rightarrow> buf) \<Rightarrow> nat \<Rightarrow> buf" where
  "cache_of g i = g i \<lparr>b_valid = False, b_dirty = False, b_dev = 0, b_blockno = 0, b_refcnt = 0,
     b_prev = (if i = 0 then HEAD else i - 1), b_next = (if i = HEAD then 0 else i + 1), b_qnext = None, b_data = (\<lambda>_. 0)\<rparr>"

definition log1 :: logstate where
  "log1 = \<lparr>l_start = 2, l_size = 30, l_outstanding = 1, l_committing = False, l_dev = 1, l_lh = \<lparr>lh_n = 1, lh_block = (\<lambda>_. 100)\<rparr>\<rparr>"

definition changed_block :: "nat \<Rightarrow> buf \<Rightarrow> buf" where
  "changed_block i x = (if i = 0 then x\<lparr>b_valid := True, b_dirty := True, b_dev := 1, b_blockno := 100, b_data := (\<lambda>_. 7)\<rparr> else x)"

definition fsystem1 :: fsystem where
  "fsystem1 = fsystem0\<lparr>bufs := cache_of changed_block, lg := log1\<rparr>"

definition held_block :: "bool \<Rightarrow> nat \<Rightarrow> buf \<Rightarrow> buf" where
  "held_block d i x = (if i = 1 then x\<lparr>b_valid := True, b_dirty := d, b_dev := 1, b_blockno := 101, b_refcnt := 1\<rparr> else changed_block i x)"

definition fsystem3 :: "bool \<Rightarrow> fsystem" where
  "fsystem3 d = fsystem0\<lparr>bufs := cache_of (held_block d), lg := log1, slocks := (\<lambda>_. free_slock)(BufLock 1 := \<lparr>sl_locked = True, sl_pid = 1\<rparr>)\<rparr>"

definition fsystem2 :: fsystem where
  "fsystem2 = fsystem0\<lparr>bufs := cache_of (\<lambda>_ x. x)\<rparr>"

abbreviation (input) system1 :: system where "system1 \<equiv> system_of fsystem1 console0"

abbreviation (input) system2 :: system where "system2 \<equiv> system_of fsystem2 console0"

abbreviation (input) system3 :: "bool \<Rightarrow> system" where "system3 d \<equiv> system_of (fsystem3 d) console0"

lemma linked_cache: "linked (cache_of g) HEAD [0..<NBUF] HEAD" if "\<And>i x. b_prev (g i x) = b_prev x" "\<And>i x. b_next (g i x) = b_next x"
  by (simp add: upt_rec cache_of_def that)

lemma ring_cache: "ring (cache_of g) [0..<NBUF]" if "\<And>i x. b_prev (g i x) = b_prev x" "\<And>i x. b_next (g i x) = b_next x"
  using linked_cache [of g] that unfolding ring_def by (auto simp del: upt_rec_numeral)


lemma system1_inv: "cache_inv {} system1"
proof -
  have "ring (bufs fsystem1) [0..<NBUF]" unfolding fsystem1_def by (simp add: ring_cache changed_block_def del: upt_rec_numeral)
  then show ?thesis
    by (auto simp: cache_inv_def still_def buf_inv_def Let_def same_id_def fsystem1_def fsystem0_def cache_of_def changed_block_def slocked_def)
qed

lemma system2_inv: "cache_inv {} system2" "no_dirty system2"
proof -
  have "ring (bufs fsystem2) [0..<NBUF]" unfolding fsystem2_def by (simp add: ring_cache del: upt_rec_numeral)
  then show "cache_inv {} system2"
    by (auto simp: cache_inv_def still_def buf_inv_def Let_def same_id_def fsystem2_def fsystem0_def cache_of_def slocked_def)
  show "no_dirty system2" by (simp add: no_dirty_def fsystem2_def cache_of_def)
qed

lemma system3_inv: "cache_inv {1} (system3 d)"
proof -
  have "ring (bufs (fsystem3 d)) [0..<NBUF]" unfolding fsystem3_def by (simp add: ring_cache held_block_def changed_block_def del: upt_rec_numeral)
  then show ?thesis
    by (auto simp: cache_inv_def still_def buf_inv_def Let_def same_id_def fsystem3_def fsystem0_def cache_of_def held_block_def
      changed_block_def slocked_def)
qed

lemma system2_reboot: "rebooted log1 D (system_of (fsystem2\<lparr>lg := log1, disk := D\<rparr>) console0)"
proof -
  have "ring (bufs fsystem2) [0..<NBUF]" unfolding fsystem2_def by (simp add: ring_cache del: upt_rec_numeral)
  then have "cache_inv {} (system_of (fsystem2\<lparr>lg := log1, disk := D\<rparr>) console0)"
    by (auto simp: cache_inv_def still_def buf_inv_def Let_def same_id_def fsystem2_def fsystem0_def cache_of_def slocked_def)
  then show ?thesis by (auto simp: rebooted_def no_dirty_def fsystem2_def cache_of_def with_head_def log1_def)
qed

lemma system1_log: "lg (fsys system1) = log1" "log_ok log1 1" "log_pinned log1 1 system1" "header_holds (disk (fsys system1) 1 2) 0 f"
  by (auto simp: fsystem1_def log_ok_def log1_def dev_ok_def log_area_def log_pinned_def dirty_def cache_of_def changed_block_def
    header_holds_def fsystem0_def load32_def inj_on_def)

lemma system3_log: "lg (fsys (system3 d)) = log1" "log_pinned log1 1 (system3 False)"
  by (auto simp: fsystem3_def log1_def log_pinned_def dirty_def cache_of_def held_block_def changed_block_def)

lemma system3_held: "still (system3 d)" "slocked (BufLock 1) (system3 d)"
  by (simp_all add: still_def slocked_def fsystem3_def fsystem0_def)

lemma system1_room: "busy {} system1 \<noteq> {..<NBUF}"
proof
  assume "busy {} system1 = {..<NBUF}"
  then have "5 \<in> busy {} system1" by (rule ssubst) simp
  then show False by (simp add: busy_def fsystem1_def cache_of_def changed_block_def)
qed

section \<open>A user address space and a queue of requests\<close>

text \<open>
  A process of one page, whose stack holds the argument \<open>0x100\<close>, with its page directory at physical
  address 0; and two read requests on the queue of the first controller.
\<close>

definition user_memory :: bytes where
  "user_memory = store32 0x80002014 0x100 (store32 0x80001000 0x2007 (store32 0x80000000 0x1007 (\<lambda>_. 0)))"

definition system4 :: system where
  "system4 = system0\<lparr>mem := user_memory, ptable := (ptable system0)(0 := (ptable system0 0)\<lparr>sz := 0x1000, tf := (tf (ptable system0 0))\<lparr>esp := 0x10\<rparr>\<rparr>)\<rparr>"

lemma system4_fields: "mem system4 = user_memory" "me system4 = 0" "sz (ptable system4 0) = 0x1000" "esp (tf (ptable system4 0)) = 0x10"
  "cr3 (cur system4) = 0"
  by (simp_all add: system4_def me_def cur_def this_cpu_def system_defs)

lemma system4_calm: "calm system4"
proof -
  have "on_cpu 0 [] ((\<lambda>_. [])(RunQ 0 := [0])) system4"
    by (auto simp: on_cpu_def qinv_def qrep_def cpu_ok_def this_cpu_def cur_def system4_def system_defs)
  then have "\<exists>p rest R. on_cpu p rest R system4 \<and> R SleepQ = []" by (intro exI conjI) (assumption, simp)
  moreover have "ncli (cur system4) = 0" "intena (cur system4) = if_flag system4" "locks system4 = (\<lambda>_. free_lock)" "\<forall>x. chan (ptable system4 x) = None"
    by (simp_all add: system4_def cur_def this_cpu_def system_defs)
  ultimately show ?thesis by (simp add: calm_def)
qed

lemma user_memory_load:
  "load32 user_memory 0x80000000 = 0x1007" "load32 user_memory 0x80001000 = 0x2007"
  "user_memory 0x80002014 = 0" "user_memory 0x80002015 = 1" "user_memory 0x80002016 = 0" "user_memory 0x80002017 = 0"
  by (simp_all add: user_memory_def load32_def store32_def)

lemma system4_arg: "argptr 0 16 system4 = Done (Some 0x100) system4"
proof -
  have "vaddr system4 a = Some (0x80002000 + a)" if "a \<in> {0x14, 0x15, 0x16, 0x17}" for a
    using that by (auto simp: vaddr_def mapped_at_def system4_fields user_memory_load pte_at_def has_tab_def tab_at_def pde_at_def P2V_def PDX_def PTX_def PTE_ADDR_def PGROUNDDOWN_def)
  then have g: "get_byte a system4 = Done (user_memory (0x80002000 + a)) system4" if "a \<in> {0x14, 0x15, 0x16, 0x17}" for a
    using that by (simp add: get_byte_def exec_simps deref_def system4_fields)
  have four: "(4 :: nat) = Suc (Suc (Suc (Suc 0)))" by simp
  have "copy_in 4 0x14 system4 = Done [0, 1, 0, 0] system4"
    unfolding four by (simp add: exec_simps g user_memory_load)
  then show ?thesis
    using system4_calm by (simp add: argptr_def argint_def fetchint_def exec_simps deref_def system4_fields word_of_def)
qed

definition fsystem5 :: fsystem where
  "fsystem5 = fsystem0\<lparr>idequeue := (\<lambda>_. None)(1 := Some 0), bufs := (bufs fsystem0)(0 := (bufs fsystem0 0)\<lparr>b_dev := 1, b_blockno := 5, b_qnext := Some 1\<rparr>,
     1 := (bufs fsystem0 1)\<lparr>b_dev := 1, b_blockno := 6, b_qnext := None\<rparr>)\<rparr>"

end
