(* ===== verification/Hash.thy ===== *)
theory Hash
  imports Prelude
begin

text \<open>
  The integer hash functions of \<open>kernel/algorithms/hash.c\<close> and their self-test.
\<close>

text \<open>\<open>int\<close> arithmetic wraps around, and \<open>>>\<close> on \<open>int\<close> copies the sign bit.\<close>

abbreviation (input) HASH_CONSTANT_1 :: "32 word" where "HASH_CONSTANT_1 \<equiv> 2796203"
abbreviation (input) HASH_CONSTANT_2 :: "32 word" where "HASH_CONSTANT_2 \<equiv> 2017963"

definition hash_16 :: "32 word \<Rightarrow> 16 word" where
  "hash_16 value =
     (let value = value * HASH_CONSTANT_1;
          value = value XOR signed_drop_bit 16 value;
          value = value AND HASH_CONSTANT_2;
          value = value XOR signed_drop_bit 13 value;
          value = value AND 0xFFFF
      in ucast value)"

definition hash_8 :: "32 word \<Rightarrow> 8 word" where
  "hash_8 value =
     (let value = value * HASH_CONSTANT_1;
          value = value XOR signed_drop_bit 16 value;
          value = value * HASH_CONSTANT_2;
          value = value XOR signed_drop_bit 11 value;
          value = value XOR (HASH_CONSTANT_1 + HASH_CONSTANT_2);
          value = value AND 0xFF
      in ucast value)"

text \<open>
  The loop of \<open>hash_test_8\<close> over the keys \<open>ks\<close>; \<open>collisions\<close> starts with the value that the
  uninitialised variable happens to have.
\<close>

primrec hash_test_loop :: "nat list \<Rightarrow> (8 word \<Rightarrow> int) \<Rightarrow> int \<Rightarrow> int" where
  "hash_test_loop [] table collisions = collisions"
| "hash_test_loop (k # ks) table collisions =
     (let j = hash_8 (of_nat k) in
      hash_test_loop ks (table(j := 1)) (if table j \<noteq> 0 then collisions + 1 else collisions))"

definition hash_test_8 :: "int \<Rightarrow> int" where
  "hash_test_8 uninit = hash_test_loop [1..<512] (\<lambda>_. 0) uninit"

lemma hash_test_loop_count:
  "finite {j. t j \<noteq> 0} \<Longrightarrow> hash_test_loop ks t c
     = c + int (length ks) - int (card ({j. t j \<noteq> 0} \<union> (\<lambda>k. hash_8 (of_nat k)) ` set ks)) + int (card {j. t j \<noteq> 0})"
proof (induction ks arbitrary: t c)
  case Nil
  then show ?case by simp
next
  case (Cons k ks)
  let ?j = "hash_8 (of_nat k)"
  define t' where "t' = t(?j := 1)"
  have s: "{j. t' j \<noteq> 0} = insert ?j {j. t j \<noteq> 0}" by (auto simp: t'_def)
  show ?case
    using Cons.IH [of t'] Cons.prems unfolding s
    by (auto simp: Let_def insert_absorb card_insert_if t'_def [symmetric])
qed

text \<open>More keys than values: \<open>hash_test_8\<close> counts at least 255 collisions.\<close>

lemma hash_test_8_count:
  "hash_test_8 c = c + 511 - int (card ((\<lambda>k. hash_8 (of_nat k)) ` {1..<512}))"
  using hash_test_loop_count [of "\<lambda>_. 0" "[1..<512]" c] by (simp add: hash_test_8_def)

lemma hash_test_8_ge: "c + 255 \<le> hash_test_8 c"
proof -
  have "card ((\<lambda>k. hash_8 (of_nat k)) ` {1..<512}) \<le> card (UNIV :: 8 word set)"
    by (rule card_mono) auto
  also have "\<dots> = 256" by (simp add: card_word)
  finally show ?thesis using hash_test_8_count [of c] by simp
qed

text \<open>
  \<open>hash_16\<close> keeps only the bits of \<open>HASH_CONSTANT_2\<close> where \<open>hash_8\<close> multiplies: bits of the result
  in which neither the constant nor the constant shifted by 13 has a one are never set.
\<close>

lemma hash_16_bits:
  assumes "bit (hash_16 v) n"
  shows "n < 16 \<and> (bit HASH_CONSTANT_2 n \<or> bit HASH_CONSTANT_2 (n + 13))"
proof -
  have n: "n < 16" using bit_imp_le_length [OF assms] by simp
  have "bit (u XOR signed_drop_bit 13 u) n" if "u = (v * HASH_CONSTANT_1 XOR signed_drop_bit 16 (v * HASH_CONSTANT_1)) AND HASH_CONSTANT_2" for u
    using assms n that by (simp add: hash_16_def Let_def bit_simps)
  then show ?thesis using n
    by (auto simp: bit_xor_iff bit_signed_drop_bit_iff bit_and_iff add.commute)
qed

end
