(* ===== verification/Grep.thy ===== *)
theory Grep
  imports Prelude
begin

text \<open>
  The pattern matcher and the line loop of \<open>user/grep.c\<close>. The matcher is shown to decide the
  declarative meaning \<open>prefix_match\<close> of patterns.
\<close>

section \<open>The regular-expression matcher\<close>

text \<open>Strings are lists of characters without their terminating zero.\<close>

function (sequential) matchhere :: "string \<Rightarrow> string \<Rightarrow> bool"
  and matchstar :: "char \<Rightarrow> string \<Rightarrow> string \<Rightarrow> bool" where
  "matchhere [] text = True"
| "matchhere (c # re) text =
     (if re \<noteq> [] \<and> hd re = CHR ''*'' then matchstar c (tl re) text
      else if c = CHR ''$'' \<and> re = [] then text = []
      else case text of
             [] \<Rightarrow> False
           | t # ts \<Rightarrow> (if c = CHR ''.'' \<or> c = t then matchhere re ts else False))"
| "matchstar c re text =
     (if matchhere re text then True
      else case text of
             [] \<Rightarrow> False
           | t # ts \<Rightarrow> (if t = c \<or> c = CHR ''.'' then matchstar c re ts else False))"
  by pat_completeness auto
termination
  by (relation "measure (case_sum (\<lambda>(re, text). 2 * length re + length text)
      (\<lambda>(c, re, text). 2 * length re + length text + 1))")
    (auto simp: length_tl neq_Nil_conv)

declare matchstar.simps [simp del]

text \<open>The loop of \<open>match\<close> over the suffixes of the text, the empty one included.\<close>

primrec match_loop :: "string \<Rightarrow> string \<Rightarrow> bool" where
  "match_loop re [] = matchhere re []"
| "match_loop re (t # ts) = (if matchhere re (t # ts) then True else match_loop re ts)"

definition match :: "string \<Rightarrow> string \<Rightarrow> bool" where
  "match re text =
     (if re \<noteq> [] \<and> hd re = CHR ''^'' then matchhere (tl re) text else match_loop re text)"

section \<open>What a pattern means\<close>

datatype atom = One char | Many char | Eol

fun atoms :: "string \<Rightarrow> atom list" where
  "atoms [] = []"
| "atoms (c # re) =
     (if re \<noteq> [] \<and> hd re = CHR ''*'' then Many c # atoms (tl re)
      else if c = CHR ''$'' \<and> re = [] then [Eol]
      else One c # atoms re)"

definition accepts :: "char \<Rightarrow> char \<Rightarrow> bool" where
  "accepts c t \<longleftrightarrow> c = CHR ''.'' \<or> c = t"

inductive prefix_match :: "atom list \<Rightarrow> string \<Rightarrow> bool" where
  empty: "prefix_match [] ts"
| eol: "prefix_match [Eol] []"
| one: "accepts c t \<Longrightarrow> prefix_match as ts \<Longrightarrow> prefix_match (One c # as) (t # ts)"
| many: "\<forall>u \<in> set us. accepts c u \<Longrightarrow> prefix_match as ts \<Longrightarrow> prefix_match (Many c # as) (us @ ts)"

inductive_simps prefix_match_simps:
  "prefix_match [] ts" "prefix_match [Eol] ts" "prefix_match (One c # as) ts"
inductive_cases prefix_match_manyE: "prefix_match (Many c # as) ts"

lemma prefix_match_many:
  "prefix_match (Many c # as) text \<longleftrightarrow> prefix_match as text
     \<or> (\<exists>t ts. text = t # ts \<and> accepts c t \<and> prefix_match (Many c # as) ts)"
proof
  assume "prefix_match (Many c # as) text"
  then obtain us ts where "text = us @ ts" "\<forall>u \<in> set us. accepts c u" "prefix_match as ts"
    by (rule prefix_match_manyE) blast
  then show "prefix_match as text
      \<or> (\<exists>t ts. text = t # ts \<and> accepts c t \<and> prefix_match (Many c # as) ts)"
    by (cases us) (auto intro: prefix_match.many)
next
  assume "prefix_match as text
      \<or> (\<exists>t ts. text = t # ts \<and> accepts c t \<and> prefix_match (Many c # as) ts)"
  then show "prefix_match (Many c # as) text"
  proof
    assume "prefix_match as text"
    then show ?thesis using prefix_match.many [of "[]"] by simp
  next
    assume "\<exists>t ts. text = t # ts \<and> accepts c t \<and> prefix_match (Many c # as) ts"
    then obtain t us ts where "text = t # us @ ts" "accepts c t" "\<forall>u \<in> set us. accepts c u" "prefix_match as ts"
      by (auto elim: prefix_match_manyE)
    then show ?thesis using prefix_match.many [of "t # us" c as ts] by simp
  qed
qed

lemma matchhere_iff:
  "matchhere re s \<longleftrightarrow> prefix_match (atoms re) s"
  "matchstar c re s \<longleftrightarrow> prefix_match (Many c # atoms re) s"
proof (induction re s and c re s rule: matchhere_matchstar.induct)
  case (1 s)
  then show ?case by (simp add: prefix_match_simps)
next
  case (2 c re s)
  consider (star) "re \<noteq> [] \<and> hd re = CHR ''*''" | (eol) "c = CHR ''$''" "re = []"
    | (one) "\<not> (re \<noteq> [] \<and> hd re = CHR ''*'')" "\<not> (c = CHR ''$'' \<and> re = [])" by auto
  then show ?case
  proof cases
    case star
    with 2(1) show ?thesis by simp
  next
    case eol
    then show ?thesis by (simp add: prefix_match_simps)
  next
    case one
    with 2(2) show ?thesis
      by (auto simp: prefix_match_simps accepts_def split: list.split)
  qed
next
  case (3 c re s)
  then show ?case
    by (subst prefix_match_many, subst matchstar.simps) (auto simp: accepts_def split: list.split)
qed

lemma match_loop_iff: "match_loop re s \<longleftrightarrow> (\<exists>us vs. s = us @ vs \<and> matchhere re vs)"
proof (induction s)
  case Nil
  then show ?case by simp
next
  case (Cons t ts)
  then show ?case by (auto simp: Cons_eq_append_conv simp del: matchhere.simps)
qed

text \<open>
  C36. The matcher decides what patterns mean: a pattern that starts with \<open>^\<close> matches at the
  beginning of the text, any other one somewhere in it.
\<close>

theorem match_iff:
  "match re s \<longleftrightarrow>
     (if re \<noteq> [] \<and> hd re = CHR ''^'' then prefix_match (atoms (tl re)) s
      else \<exists>us vs. s = us @ vs \<and> prefix_match (atoms re) vs)"
  by (simp add: match_def match_loop_iff matchhere_iff)


section \<open>The line loop\<close>

text \<open>
  \<open>find_nl s\<close> is \<open>strchr(p, '\n')\<close> for the bytes \<open>s\<close> at \<open>p\<close>: the position of the first newline,
  unless a zero byte comes before it.
\<close>

primrec find_nl :: "string \<Rightarrow> nat option" where
  "find_nl [] = None"
| "find_nl (c # s) =
     (if c = CHR 0x00 then None else if c = CHR 0x0A then Some 0 else map_option Suc (find_nl s))"

text \<open>The inner loop: the output it writes and the bytes from \<open>p\<close> on that it leaves.\<close>

lemma find_nl_less: "find_nl s = Some i \<Longrightarrow> i < length s"
  by (induction s arbitrary: i) (auto split: if_splits)

function grep_lines :: "string \<Rightarrow> string \<Rightarrow> string \<times> string" where
  "grep_lines pattern s =
     (case find_nl s of
        None \<Rightarrow> ([], s)
      | Some i \<Rightarrow>
          let (out, rest) = grep_lines pattern (drop (Suc i) s) in
          (if match pattern (take i s) then take i s @ CHR 0x0A # out else out, rest))"
  by pat_completeness auto
termination
  by (relation "measure (length \<circ> snd)") (auto dest: find_nl_less)

declare grep_lines.simps [simp del]

text \<open>
  One round of the outer loop: \<open>pending\<close> are the \<open>m\<close> bytes at the start of \<open>buf\<close> and \<open>chunk\<close>
  what \<open>read\<close> returned; the result is the output and the bytes moved to the start of \<open>buf\<close>.
  When no line was complete, \<open>m\<close> is reset and the bytes are lost.
\<close>

definition grep_round :: "string \<Rightarrow> string \<Rightarrow> string \<Rightarrow> string \<times> string" where
  "grep_round pattern pending chunk =
     (let (out, rest) = grep_lines pattern (pending @ chunk) in
      (out, if length rest = length (pending @ chunk) then [] else rest))"

primrec grep_loop :: "string \<Rightarrow> string \<Rightarrow> string list \<Rightarrow> string" where
  "grep_loop pattern pending [] = []"
| "grep_loop pattern pending (chunk # chunks) =
     (let (out, pending') = grep_round pattern pending chunk in
      out @ grep_loop pattern pending' chunks)"

text \<open>\<open>chunks\<close> are the non-empty results of the calls of \<open>read\<close>.\<close>

definition grep :: "string \<Rightarrow> string list \<Rightarrow> string" where
  "grep pattern chunks = grep_loop pattern [] chunks"

text \<open>The specification: the matching ones among the complete lines of the input.\<close>

fun lines_of :: "string \<Rightarrow> string \<Rightarrow> string list" where
  "lines_of line [] = []"
| "lines_of line (c # s) = (if c = CHR 0x0A then line # lines_of [] s else lines_of (line @ [c]) s)"

definition grep_spec :: "string \<Rightarrow> string \<Rightarrow> string" where
  "grep_spec pattern s = concat (map (\<lambda>l. l @ [CHR 0x0A]) (filter (match pattern) (lines_of [] s)))"

lemma lines_of_plain: "CHR 0x0A \<notin> set u \<Longrightarrow> lines_of line (u @ s) = lines_of (line @ u) s"
  by (induction u arbitrary: line) auto

lemma find_nl_None: "CHR 0x00 \<notin> set s \<Longrightarrow> find_nl s = None \<longleftrightarrow> CHR 0x0A \<notin> set s"
  by (induction s) auto

lemma find_nl_Some:
  "CHR 0x00 \<notin> set s \<Longrightarrow> find_nl s = Some i \<Longrightarrow> s = take i s @ CHR 0x0A # drop (Suc i) s \<and> CHR 0x0A \<notin> set (take i s)"
  by (induction s arbitrary: i) (auto split: if_splits)

lemma grep_lines_spec:
  assumes "CHR 0x00 \<notin> set s" "grep_lines pattern s = (out, rest)"
  shows "grep_spec pattern (s @ more) = out @ grep_spec pattern (rest @ more)
    \<and> CHR 0x0A \<notin> set rest \<and> CHR 0x00 \<notin> set rest \<and> (length rest = length s \<longleftrightarrow> CHR 0x0A \<notin> set s) \<and> length rest \<le> length s"
  using assms
proof (induction pattern s arbitrary: out rest rule: grep_lines.induct)
  case (1 pattern s)
  show ?case
  proof (cases "find_nl s")
    case None
    then show ?thesis using 1 find_nl_None [of s] by (auto simp: grep_lines.simps [of pattern s])
  next
    case (Some i)
    let ?l = "take i s" and ?r = "drop (Suc i) s"
    note s = find_nl_Some [OF 1(2) Some]
    obtain o1 r1 where g: "grep_lines pattern ?r = (o1, r1)" by fastforce
    have z: "CHR 0x00 \<notin> set ?r" using 1(2) by (meson in_set_dropD)
    have ih: "grep_spec pattern (?r @ more) = o1 @ grep_spec pattern (r1 @ more)
      \<and> CHR 0x0A \<notin> set r1 \<and> CHR 0x00 \<notin> set r1 \<and> (length r1 = length ?r \<longleftrightarrow> CHR 0x0A \<notin> set ?r) \<and> length r1 \<le> length ?r"
      using 1(1) [OF Some z g] .
    have o: "rest = r1" "out = (if match pattern ?l then ?l @ CHR 0x0A # o1 else o1)"
      using 1(3) Some g by (auto simp: grep_lines.simps [of pattern s])
    have e: "s @ more = ?l @ CHR 0x0A # (?r @ more)" using s by (metis append.assoc append_Cons)
    have "grep_spec pattern (s @ more)
        = (if match pattern ?l then ?l @ [CHR 0x0A] else []) @ grep_spec pattern (?r @ more)"
      unfolding e using s lines_of_plain [of ?l "[]" "CHR 0x0A # (?r @ more)"] by (simp add: grep_spec_def)
    moreover have "CHR 0x0A \<in> set s" using s by (metis in_set_conv_decomp)
    moreover have "length ?r < length s" using find_nl_less [OF Some] by simp
    ultimately show ?thesis using ih o by auto
  qed
qed

text \<open>Every chunk completes a line: \<open>grep\<close> prints exactly the matching lines of the input.\<close>

lemma grep_loop_spec:
  assumes "\<forall>c \<in> set chunks. CHR 0x0A \<in> set c \<and> CHR 0x00 \<notin> set c" "CHR 0x00 \<notin> set pending"
    "CHR 0x0A \<notin> set pending"
  shows "grep_loop pattern pending chunks = grep_spec pattern (pending @ concat chunks)"
  using assms
proof (induction chunks arbitrary: pending)
  case Nil
  then show ?case using lines_of_plain [of pending "[]" "[]"] by (simp add: grep_spec_def)
next
  case (Cons c chunks)
  obtain out rest where g: "grep_lines pattern (pending @ c) = (out, rest)" by fastforce
  have z: "CHR 0x00 \<notin> set (pending @ c)" using Cons.prems by auto
  note s = grep_lines_spec [OF z g, of "concat chunks"]
  have "length rest \<noteq> length (pending @ c)" using s Cons.prems by auto
  then have "grep_round pattern pending c = (out, rest)" using g by (simp add: grep_round_def)
  then show ?case using s Cons.IH [of rest] Cons.prems by simp
qed

text \<open>
  C37. When every chunk that \<open>read\<close> returns completes a line, \<open>grep\<close> prints exactly the matching
  lines of its input, in order.
\<close>

theorem grep_prints_matching:
  assumes "\<forall>c \<in> set chunks. CHR 0x0A \<in> set c \<and> CHR 0x00 \<notin> set c"
  shows "grep pattern chunks = grep_spec pattern (concat chunks)"
  using grep_loop_spec [of chunks "[]" pattern] assms by (simp add: grep_def)

lemma grep_prints_matching_witness:
  "grep ''b*c'' [''abbc'' @ [CHR 0x0A] @ ''ab'', ''d'' @ [CHR 0x0A]] = ''abbc'' @ [CHR 0x0A]"
proof -
  have "grep ''b*c'' [''abbc'' @ [CHR 0x0A] @ ''ab'', ''d'' @ [CHR 0x0A]] = grep_spec ''b*c'' (concat [''abbc'' @ [CHR 0x0A] @ ''ab'', ''d'' @ [CHR 0x0A]])"
    by (rule grep_prints_matching) simp
  also have "\<dots> = ''abbc'' @ [CHR 0x0A]" by (simp add: grep_spec_def match_def matchstar.simps)
  finally show ?thesis .
qed


end
