(* ===== verification/Spec2Isabelle.thy ===== *)
theory Spec2Isabelle
  imports Spinlock_SMP Samples Uprintf Hash Grep
begin

text \<open>
  A verification library for the kernel of i386-XV6-Rework, a reworked xv6 for multiprocessor
  x86 machines, with parts of its user programs. This theory imports all others and holds the
  properties that span components or are evaluated on whole kernel states; properties of a
  single component stand in its theory.

  \<^bold>\<open>The program.\<close> Processes live in a table and in doubly linked queues: one ready queue, one
  sleep queue and a run queue for each CPU (\<open>kernel/data/queue.c\<close>, \<open>kernel/sched\<close>). Every CPU
  runs \<open>scheduler\<close>, which takes a process from the ready queue and switches to it; the process
  gives the CPU back through \<open>sched\<close>. Shared data is protected by spinlocks
  (\<open>kernel/lock/spinlock.c\<close>), long operations by sleep locks. Physical pages come from a free
  list (\<open>kernel/mm/kalloc.c\<close>) and are mapped by two-level page tables
  (\<open>kernel/arch/x86_32/mem/vm.c\<close>). The file system is layered: disk driver, buffer cache, log,
  inodes, directories, open files, system calls. Interrupts and system calls enter through
  \<open>trap\<close>.

  \<^bold>\<open>How code is modelled.\<close> A C routine is a function in the state monad of theory \<open>Prelude\<close>. Its
  outcome is \<open>Done\<close> with result and state, \<open>Fail\<close> with the reason (a \<open>panic\<close> with its message, a
  spinning CPU, an invalid memory access, or fuel that ran out), or \<open>Blocked\<close> with the state in
  which the process has left the CPU for good. Structures are records, pointers to entries of
  fixed tables are indices, null is \<open>None\<close> (0 for memory addresses), machine integers are 8-,
  16- and 32-bit words. The kernel state grows by record extension: \<open>machine\<close> (CPUs and locks,
  theory \<open>Spinlock\<close>), \<open>kernel\<close> (processes and queues, \<open>Kstate\<close>), \<open>memory\<close> (physical memory and
  free list, \<open>Kalloc\<close>), \<open>system\<close> (file system and console, \<open>Ksys\<close>). \<open>swtch\<close> hands the state to an
  environment, a parameter that stands for what the other processes, CPUs and devices do until
  the process runs again; the counter \<open>switches\<close> bounds how often that happens, so loops around
  \<open>sleep\<close> get \<open>switches + 1\<close> rounds of fuel, which is always enough. Loops over linked lists get
  one round more than the list can have entries; loops over pages get the \<open>2 ^ 20\<close> pages of the
  address space; loops over tables run once for each entry.

  \<^bold>\<open>Theories and sources.\<close>
  \<^item> \<open>Prelude\<close>: monad, faults, weakest preconditions, the collections \<open>exec_simps\<close> and \<open>wp_simps\<close>
    with which the simplifier runs routines.
  \<^item> \<open>Spinlock\<close> (\<open>spinlock.c\<close>, \<open>mycpu\<close>, \<open>myproc\<close>) from the view of one CPU; \<open>Spinlock_SMP\<close> the steps
    of \<open>acquire\<close> and \<open>release\<close> of several CPUs interleaved, with mutual exclusion and availability.
  \<^item> \<open>Kstate\<close>, \<open>Queue\<close>, \<open>Queue_Inv\<close> (\<open>queue.c\<close>): queues refine lists; the locale \<open>process_queues\<close> is
    the interface the scheduler uses, interpreted on the two queue operations. \<open>Sched\<close>, \<open>Sched_Inv\<close>
    (\<open>sched.c\<close>): \<open>yield\<close>, \<open>preempt\<close>, \<open>sched\<close>, a round of \<open>scheduler\<close>, balancing. \<open>Sleep\<close> (parts of
    \<open>proc.c\<close>): \<open>sleep\<close>, \<open>wakeup\<close>, \<open>kill\<close>, signals.
  \<^item> \<open>Cstring\<close> (\<open>kernel/mm/string.c\<close>, \<open>user/ulib.c\<close>), \<open>Uprintf\<close> (\<open>user/printf.c\<close>), \<open>Grep\<close>
    (\<open>user/grep.c\<close>), \<open>Hash\<close> (\<open>kernel/algorithms/hash.c\<close>).
  \<^item> \<open>Kalloc\<close> (\<open>kalloc.c\<close>) with the locale \<open>page_allocator\<close>; \<open>Vm\<close> (\<open>vm.c\<close>): \<open>walkpgdir\<close>, \<open>mappages\<close>,
    \<open>allocuvm\<close>, \<open>copyuvm\<close>, \<open>uva2ka\<close>, \<open>copyout\<close> and the rest.
  \<^item> \<open>Ksys\<close>, \<open>Calm\<close>: the state of the file system and the console, and the states in which one
    process runs undisturbed. \<open>Klock\<close> (\<open>sleeplock.c\<close>, \<open>nonblockinglock.c\<close>, \<open>semaphore.c\<close>), \<open>Pipe\<close>
    (\<open>pipe.c\<close>), \<open>Bcache\<close> (\<open>bio.c\<close>), \<open>Fslog\<close> (\<open>log.c\<close>), \<open>Inode\<close>, \<open>Dir\<close> (\<open>fs.c\<close>), \<open>Kfile\<close> (\<open>file.c\<close>),
    \<open>Mount\<close> (\<open>mount.c\<close>), \<open>Ide\<close> (\<open>ide.c\<close>), \<open>Console\<close> (\<open>console.c\<close>, \<open>uart.c\<close>), \<open>Kbd\<close> (\<open>kbd.c\<close>).
  \<^item> \<open>Proc\<close> (\<open>proc.c\<close>), \<open>Exec\<close> (\<open>exec.c\<close>), \<open>Syscall\<close> (\<open>kernel/syscall\<close>), \<open>Trap\<close> (\<open>trap.c\<close>,
    \<open>signals.c\<close>).
  \<^item> \<open>Samples\<close>: concrete states on which the properties are evaluated.
  \<^item> \<open>Bcache_Inv\<close>, \<open>Fslog_Inv\<close>, \<open>Ide_Inv\<close>: the proofs about \<open>bio.c\<close>, \<open>log.c\<close> and \<open>ide.c\<close>. The locale
    \<open>block_device\<close> states what the cache and the log rely on of the driver; \<open>Ide_Inv\<close> interprets it on
    \<open>iderw\<close>. Its hypothesis \<open>ide_ok\<close> says that the controllers are ready, deliver the sector that was
    asked for, and carry out a command while the process that issued it sleeps, after which the
    handler of \<open>ide.c\<close> runs and the scheduler resumes the process. A run that uses up
    \<open>switches\<close> while it waits is a crash at that point, so a statement about all states covers a
    crash at every wait.

  \<^bold>\<open>What is shown.\<close> Queue operations refine list operations, and the scheduler, \<open>sleep\<close> and
  \<open>wakeup\<close> keep every process in exactly the queue it belongs to. Spinlocks exclude each other and
  stay available. The page allocator hands out each free page once, and \<open>mappages\<close> changes
  exactly the translations it is asked for. Pipes are byte queues, also when their counters wrap
  around. The buffer cache is a cache of the disk, and the file system log is atomic: a crash at
  any wait for the disk, followed by a recovery, leaves a transaction done or not done, and the
  same holds for a crash during the recovery. On-disk inodes, directory entries and printed numbers are read back as they were
  written. Several properties state what the code does where it departs from its intention: a
  killed sleeper makes the next wakeup panic, removing an absent process leaves a queue locked,
  \<open>sig\<close> rejects every signal, a second queued disk request or an unexpected interrupt of the
  second controller makes the disk driver panic, \<open>idewait\<close> never waits, and a refused \<open>mount\<close> leaves
  the log with an operation that never ends.

  \<^bold>\<open>Not modelled.\<close> Device registers beyond the disk ports, the screen and the serial output
  (\<open>lapic.c\<close>, \<open>ioapic.c\<close>, \<open>picirq.c\<close>: pure port and memory-mapped I/O); the boot loader and
  \<open>main\<close>, which run before the state described here exists; assembler files, of which \<open>swtch\<close> is
  the environment above; the 64-bit port, which is not built; \<open>memide.c\<close>, which does not compile;
  \<open>fifo.c\<close>, an unfinished copy of \<open>pipe.c\<close> that nothing calls; \<open>mkfs.c\<close>, a program of the build host; user programs that
  consist of system calls, and the test programs.
\<close>

section \<open>Process queues\<close>

text \<open>
  C1. On a queue that represents the list \<open>xs\<close>, \<open>insert_proc_into_queue\<close> returns with all
  locks free again and the queue represents \<open>xs\<close> with the process inserted: at the end of a
  queue of at most one process, otherwise behind the first process and before the first one
  it overtakes. It records the queue in the process and changes nothing else of any process
  but the links of the queued ones.
\<close>

theorem insert_refines_enqueue:
  assumes "can_insert new q s" "qrep (ptable s) (queues s q) xs" "new \<notin> set xs"
  shows "\<exists>T Q. insert_proc_into_queue new (Some q) s
      = Done () ((cli_touch s)\<lparr>ptable := T, queues := (queues s)(q := Q)\<rparr>)
    \<and> qrep T Q (enqueue (\<lambda>t. overtakes (ptable s new) (ptable s t)) new xs)
    \<and> (\<forall>p. unlinked (T p) =
         (if p = new then (unlinked (ptable s p))\<lparr>curr := Some q\<rparr> else unlinked (ptable s p)))
    \<and> (\<forall>p. p \<notin> set xs \<longrightarrow> p \<noteq> new \<longrightarrow> T p = ptable s p)"
  using assms by (rule insert_proc_into_queue_refines)

lemma insert_refines_enqueue_witness:
  "\<exists>T Q. insert_proc_into_queue 2 (Some (RunQ 0)) kernel1
      = Done () ((cli_touch kernel1)\<lparr>ptable := T, queues := (queues kernel1)(RunQ 0 := Q)\<rparr>)
    \<and> qrep T Q [0, 1, 2]"
  using insert_refines_enqueue [of 2 "RunQ 0" kernel1 "[0, 1]"]
  by (auto simp: can_insert_def qrep_def overtakes_def sample_defs)

text \<open>
  C2. On a queue that represents the list \<open>xs\<close> with the process in it,
  \<open>remove_proc_from_queue\<close> returns with all locks free again and the queue represents \<open>xs\<close>
  without the process. The process loses its links and its claim, and nothing else of any
  process changes but the links of the queued ones.
\<close>

theorem remove_refines_remove1:
  assumes "can_remove old q s" "qrep (ptable s) (queues s q) xs" "old \<in> set xs"
  shows "\<exists>T Q. remove_proc_from_queue old (Some q) s
      = Done () ((cli_touch s)\<lparr>ptable := T, queues := (queues s)(q := Q)\<rparr>)
    \<and> qrep T Q (remove1 old xs)
    \<and> T old = (unclaimed (ptable s old))\<lparr>nxt := None, prv := None\<rparr>
    \<and> ((\<forall>p. p \<noteq> old \<longrightarrow> unlinked (T p) = unlinked (ptable s p))
       \<and> (\<forall>p. p \<notin> set xs \<longrightarrow> T p = ptable s p))"
  using assms by (rule remove_proc_from_queue_refines)

lemma remove_refines_remove1_witness:
  "\<exists>T Q. remove_proc_from_queue 0 (Some (RunQ 0)) kernel1
      = Done () ((cli_touch kernel1)\<lparr>ptable := T, queues := (queues kernel1)(RunQ 0 := Q)\<rparr>)
    \<and> qrep T Q [1]"
  using remove_refines_remove1 [of 0 "RunQ 0" kernel1 "[0, 1]"]
  by (auto simp: can_remove_def qrep_def sample_defs)


text \<open>
  C8. Moving a process between two queues, as \<open>kill\<close>, \<open>wakeup1\<close> and the scheduler do with a
  removal and an insertion, keeps the invariant of all queues: the process is on the target
  queue and on no other, every other process stays where it was, and the process records its
  queue.
\<close>

theorem move_keeps_queues:
  assumes "qinv s R" "movable p s" "valid_qid q" "valid_qid q'" "q \<noteq> q'" "p \<in> set (R q)"
  shows "\<exists>t. bind (remove_proc_from_queue p (Some q)) (\<lambda>_. insert_proc_into_queue p (Some q')) s = Done () t
    \<and> qinv t (R(q := remove1 p (R q), q' := enqueue (\<lambda>x. overtakes (ptable s p) (ptable s x)) p (R q')))
    \<and> curr (ptable t p) = Some q' \<and> queue_frame s t"
  using assms by (rule kq.move)

lemma move_keeps_queues_witness:
  "\<exists>t. bind (remove_proc_from_queue 1 (Some (RunQ 0))) (\<lambda>_. insert_proc_into_queue 1 (Some ReadyQ)) kernel1 = Done () t
    \<and> qinv t ((\<lambda>_. [])(RunQ 0 := [0], ReadyQ := [1])) \<and> curr (ptable t 1) = Some ReadyQ"
proof -
  have "movable 1 kernel1" by (auto simp: movable_def sample_defs)
  from move_keeps_queues [OF sample_qinv(1) this, of "RunQ 0" ReadyQ] show ?thesis by auto
qed



text \<open>
  C26. When a non-empty queue does not hold the process, \<open>remove_proc_from_queue\<close> returns
  without releasing the lock of the queue, and the next operation of this CPU on the queue
  panics.
\<close>

theorem remove_missing_keeps_lock:
  assumes "can_remove old q s" "qrep (ptable s) (queues s q) (h # xs)" "old \<notin> set (h # xs)"
  shows "\<exists>t. remove_proc_from_queue old (Some q) s = Done () t \<and> locks t (QLock q) = held_by (this_cpu s)
    \<and> remove_proc_from_queue old (Some q) t = Fail (Panic ''acquire'')"
proof (intro exI conjI)
  show "remove_proc_from_queue old (Some q) s = Done () (in_section q s)"
    using assms by (rule remove_missing_exec)
  show "remove_proc_from_queue old (Some q) (in_section q s) = Fail (Panic ''acquire'')"
    using assms(1,2) by (auto simp: can_remove_def qrep_def remove_proc_from_queue_def check_qid_def exec_simps acquire_held_exec)
qed simp

lemma remove_missing_keeps_lock_witness:
  "\<exists>t. remove_proc_from_queue 2 (Some (RunQ 0)) kernel1 = Done () t \<and> locks t (QLock (RunQ 0)) = held_by 0
    \<and> remove_proc_from_queue 2 (Some (RunQ 0)) t = Fail (Panic ''acquire'')"
  using remove_missing_keeps_lock [of 2 "RunQ 0" kernel1 0 "[1]"]
  by (simp add: can_remove_def qrep_def sample_defs)

section \<open>Scheduling, sleeping and signals\<close>

text \<open>
  C10. A running process that yields becomes runnable, leaves the run queue of its CPU and is
  inserted into the ready queue; the process table lock is held when the context switch of
  \<open>sched\<close> is reached, and it is released when the process is resumed.
\<close>

theorem yield_requeues:
  assumes "on_cpu p rest R s" "ncli (cur s) = 0" "locks s PtableLock = free_lock"
    "\<forall>x \<in> set rest. state (ptable s x) = RUNNABLE"
  shows "\<exists>T Q t. yield e s = bind (resume_sched e (if_flag s)) (\<lambda>_. release PtableLock) t
    \<and> t = (in_ptable s)\<lparr>ptable := T, queues := Q\<rparr>
    \<and> qinv t (R(RunQ (this_cpu s) := rest, ReadyQ := enqueue
        (\<lambda>x. overtakes ((ptable s p)\<lparr>state := RUNNABLE\<rparr>) (ptable s x)) p (R ReadyQ)))
    \<and> (\<forall>x. proc_data (T x)
        = proc_data (if x = p then (ptable s x)\<lparr>state := RUNNABLE\<rparr> else ptable s x))"
  using assms by (rule yield_queues)

lemma yield_requeues_witness:
  "\<exists>T Q t. yield (\<lambda>n s. s) kernel2 = bind (resume_sched (\<lambda>n s. s) True) (\<lambda>_. release PtableLock) t
    \<and> t = (in_ptable kernel2)\<lparr>ptable := T, queues := Q\<rparr> \<and> qinv t ((\<lambda>_. [])(SleepQ := [1], ReadyQ := [0]))"
proof -
  have "lists2(RunQ 0 := [], ReadyQ := [0]) = (\<lambda>_. [])(SleepQ := [1], ReadyQ := [0])"
    by (auto simp: lists2_def)
  with yield_requeues [of 0 "[]" lists2 kernel2 "\<lambda>n s. s"] sample_qinv(2) show ?thesis
    by (simp add: on_cpu_def) (auto simp: sample_defs)
qed

text \<open>
  C11. A pass of \<open>scheduler\<close> on an idle CPU takes the process at the head of the ready queue,
  claims it, makes it the running process of this CPU, loads its page directory and switches to
  it with the process table lock held.
\<close>

theorem scheduler_dispatches:
  assumes "can_dispatch p ys R s" "locks s PtableLock = free_lock"
  shows "\<exists>t. scheduler_pass e (this_cpu s) s = bind (swtch e) (\<lambda>_. end_slice (this_cpu s)) t
    \<and> on_cpu p [] (R(ReadyQ := ys, RunQ (this_cpu s) := [p])) t \<and> state (ptable t p) = RUNNING
    \<and> locks t = (locks s)(PtableLock := held_by (this_cpu s)) \<and> ncli (cur t) = ncli (cur s) + 1
    \<and> cr3 (cur t) = V2P (pgdir (ptable s p)) \<and> this_cpu t = this_cpu s \<and> switches t = switches s
    \<and> (\<forall>x. proc_data (ptable t x)
        = proc_data (if x = p then (ptable s x)\<lparr>state := RUNNING\<rparr> else ptable s x))"
  using assms by (rule scheduler_dispatch)

lemma scheduler_dispatches_witness:
  "\<exists>t. scheduler_pass (\<lambda>n s. s) 0 kernel4 = bind (swtch (\<lambda>n s. s)) (\<lambda>_. end_slice 0) t
    \<and> state (ptable t 2) = RUNNING \<and> cr3 (cur t) = 0x501000"
proof -
  have "can_dispatch 2 [] lists4 kernel4"
    using sample_qinv(4) by (auto simp: can_dispatch_def movable_def sample_defs)
  from scheduler_dispatches [OF this, of "\<lambda>n s. s"] show ?thesis
    by (auto simp: sample_defs V2P_def)
qed





text \<open>
  C25. \<open>kill\<close> makes a sleeping process runnable without taking it off the sleep queue. The next
  \<open>wakeup\<close> of the channel it slept on finds it there and panics.
\<close>

theorem kill_strands_sleeper:
  assumes "cpu_ok s" "locks s PtableLock = free_lock" "qinv s R" "R SleepQ = as @ p # bs" "p < NPROC"
    "\<forall>j < p. pid (ptable s j) \<noteq> pid (ptable s p)" "\<forall>a \<in> set as. chan (ptable s a) \<noteq> ch"
    "state (ptable s p) = SLEEPING" "chan (ptable s p) = ch"
  shows "bind (kill (pid (ptable s p))) (\<lambda>_. wakeup ch) s = Fail (Panic ''stuck proc'')"
proof -
  let ?t = "(cli_touch s)\<lparr>ptable := (ptable s)(p := killed_by (ptable s p))\<rparr>"
  let ?u = "in_ptable ?t"
  have k: "kill (pid (ptable s p)) s = Done 0 ?t" using assms by (intro kill_found) auto
  have "p \<notin> set as"
    using assms(3,4) by (auto simp: qinv_def qrep_def dest!: spec [of _ SleepQ])
  moreover have "qinv ?u R"
    using qinv_upd_data [of s R "killed_by (ptable s p)" p] assms(3)
      qinv_cong [of ?u "s\<lparr>ptable := (ptable s)(p := killed_by (ptable s p))\<rparr>" R]
    by (simp add: killed_by_def)
  ultimately have "wakeup1 ch ?u = Fail (Panic ''stuck proc'')"
    using assms by (intro wakeup1_stuck [where R = R and as = as and p = p and bs = bs]) (auto simp: killed_by_def)
  then show ?thesis
    using k assms(1,2) by (simp add: wakeup_def exec_simps)
qed

lemma kill_strands_sleeper_witness:
  "bind (kill 1) (\<lambda>_. wakeup (Some ChTicks)) kernel2 = Fail (Panic ''stuck proc'')"
  using kill_strands_sleeper [of kernel2 lists2 "[]" 1 "[]" "Some ChTicks"] sample_qinv(2)
  by (simp add: sample_defs)

text \<open>
  C27. \<open>sig\<close> rejects every positive signal mask, so no signal is ever delivered by it.
\<close>

theorem sig_rejects_signals:
  assumes "0 <s sigmask"
  shows "sig sigmask n s = Done ESIG s"
  using assms by (rule sig_rejects)

lemma sig_rejects_signals_witness: "sig SIGKILL 1 kernel2 = Done ESIG kernel2"
  by (rule sig_rejects_signals) code_simp

section \<open>Memory\<close>

text \<open>
  C14. \<open>kalloc\<close> returns the first page of the free list and removes it, or returns 0 when there
  is none; no byte of memory changes, and the page it returns is an aligned page of the
  allocator that is not on the list any more.
\<close>

theorem kalloc_takes_head:
  assumes "kmem_free s xs"
  shows "\<exists>t. kalloc s = Done (if xs = [] then 0 else hd xs) t \<and> kmem_free t (tl xs) \<and> mem t = mem s
    \<and> (xs \<noteq> [] \<longrightarrow> page_ok (kend s) (hd xs) \<and> hd xs \<noteq> 0 \<and> hd xs \<notin> set (tl xs))"
proof (cases xs)
  case Nil
  with kmem.alloc_Nil assms show ?thesis by auto
next
  case (Cons x ys)
  with kmem.alloc_Cons [of s x ys] kmem.free_usable [OF assms] assms show ?thesis by auto
qed

lemma kalloc_takes_head_witness:
  "\<exists>t. kalloc memory1 = Done 0x80300000 t \<and> kmem_free t [0x80301000] \<and> mem t = mem memory1"
  using kalloc_takes_head [OF memory1_free] by auto

text \<open>
  C15. A page that is freed is the page the next \<open>kalloc\<close> returns, the rest of the free list is
  as before, and no byte outside the page has changed.
\<close>

theorem kfree_kalloc:
  assumes "kmem_free s xs" "page_ok (kend s) v" "v \<notin> set xs"
  shows "\<exists>t. bind (kfree v) (\<lambda>_. kalloc) s = Done v t \<and> kmem_free t xs
    \<and> (\<forall>x. \<not> in_page v x \<longrightarrow> mem t x = mem s x)"
  using assms by (rule kmem.dealloc_alloc)

lemma kfree_kalloc_witness:
  "\<exists>t. bind (kfree 0x80302000) (\<lambda>_. kalloc) memory1 = Done 0x80302000 t \<and> kmem_free t [0x80300000, 0x80301000]"
  using kfree_kalloc [OF memory1_free, of "0x80302000"] by (auto simp: page_ok_def V2P_def memory1_def)

text \<open>
  C16. \<open>kinit1\<close> puts every whole page between its two addresses on the free list, the last one
  first, and leaves locking off.
\<close>

theorem kinit1_builds_list:
  assumes "cpu_ok s" "freelist s = 0" "KERNBASE \<le> vstart" "kend s \<le> vstart"
    "PGROUNDUP vstart \<le> vend" "vend \<le> 0x8E000000" "vstart \<le> 0x8E000000"
  shows "\<exists>t. kinit1 vstart vend s = Done () t \<and> \<not> use_lock t \<and> kmem_ready t \<and>
    free_pages t (rev (page_seq (PGROUNDUP vstart) (page_count (PGROUNDUP vstart) vend)))"
  using assms by (rule kinit1_exec)

lemma kinit1_builds_list_witness:
  "\<exists>t. kinit1 0x80200123 0x80203456 (memory_of (\<lambda>_. 0) 0) = Done () t
    \<and> free_pages t [0x80202000, 0x80201000]"
proof -
  have "page_seq (PGROUNDUP 0x80200123) (page_count (PGROUNDUP 0x80200123) 0x80203456) = [0x80201000, 0x80202000]"
    by (simp add: PGROUNDUP_def page_count_def page_seq_def upt_conv_Cons)
  moreover have "PGROUNDUP 0x80200123 \<le> 0x80203456" by (simp add: PGROUNDUP_def)
  ultimately show ?thesis
    using kinit1_builds_list [of "memory_of (\<lambda>_. 0) 0" "0x80200123" "0x80203456"] memory_of_ready
    by (auto simp: kmem_ready_def)
qed

text \<open>
  C17. \<open>mappages\<close> on a range of unmapped pages with enough free pages succeeds; every address of
  the range then translates to the corresponding physical page, and the translation of every
  other address is unchanged.
\<close>

theorem mappages_maps:
  assumes "vm_ok s pd xs" "va \<le> va + n - 1" "range_pages va n \<le> length xs"
    "\<forall>i < range_pages va n. pte_at (mem s) pd (PGROUNDDOWN va + of_nat i * PGSIZE) AND PTE_P = 0"
    "unat pa mod 4096 = 0" "perm < 0x1000" "perm AND PTE_U \<noteq> 0"
  shows "\<exists>t ys. mappages pd va n pa perm s = Done 0 t \<and> vm_ok t pd ys
    \<and> (\<forall>v. \<forall>i < range_pages va n. PGROUNDDOWN v = PGROUNDDOWN va + of_nat i * PGSIZE \<longrightarrow>
         translate (mem t) pd v = Some (P2V (pa + of_nat i * PGSIZE) + (v - PGROUNDDOWN v)))
    \<and> (\<forall>v. (\<forall>i < range_pages va n. PGROUNDDOWN v \<noteq> PGROUNDDOWN va + of_nat i * PGSIZE) \<longrightarrow>
         translate (mem t) pd v = translate (mem s) pd v)"
proof -
  from mappages_exec [OF assms(1-4), of pa perm] obtain t ys where
    t: "mappages pd va n pa perm s = Done 0 t" "vm_ok t pd ys"
    and m: "maps_range (mem s) (mem t) pd (PGROUNDDOWN va) pa perm (range_pages va n)" by blast
  have "translate (mem t) pd v = translate (mem s) pd v" if "pte_at (mem t) pd v = pte_at (mem s) pd v" for v
    using that by (simp add: translate_def)
  with m t mapped_entry_translates [OF assms(5-7)] show ?thesis by (auto simp: maps_range_def)
qed

lemma mappages_maps_witness:
  "\<exists>t. mappages 0x80400000 0x1000 0x1000 0x500000 6 memory2 = Done 0 t
    \<and> translate (mem t) 0x80400000 0x1234 = Some 0x80500234"
proof -
  have r: "range_pages 0x1000 0x1000 = 1" by (simp add: range_pages_def PGROUNDDOWN_def)
  have p: "\<forall>i < range_pages 0x1000 0x1000. pte_at (mem memory2) 0x80400000 (PGROUNDDOWN 0x1000 + of_nat i * 0x1000) AND 1 = 0"
    by (simp add: memory2_def pte_at_def has_tab_def pde_at_def load32_def)
  have "PGROUNDDOWN 0x1234 = 0x1000" "PGROUNDDOWN 0x1000 = 0x1000" by (simp_all add: PGROUNDDOWN_def)
  with mappages_maps [OF memory2_ok _ _ p, of "0x500000" 6] r show ?thesis by (auto simp: P2V_def)
qed

section \<open>Pipes\<close>

text \<open>
  C39. With room for all of its bytes, \<open>pipewrite\<close> returns their number and appends them to the
  bytes in the pipe; nothing else of the system changes. The counters may wrap around.
\<close>

theorem pipewrite_appends:
  assumes "calm s" "pipe_ok (pipes (fsys s) p)" "copy_in n addr s = Done xs s"
    "length (pipe_bytes (pipes (fsys s) p)) + n \<le> 512"
  shows "\<exists>q. pipewrite e p addr (int n) s = Done (int n) (set_pipe p q s) \<and> pipe_ok q
    \<and> pipe_bytes q = pipe_bytes (pipes (fsys s) p) @ xs"
proof -
  from pipewrite_loop_exec [OF assms(1) refl assms(2) assms(4) assms(3), of e "pipe_lock p"]
  obtain q where q: "pipewrite_loop n e p addr (inside (pipe_lock p) s) = Done True (inside (pipe_lock p) (set_pipe p q s))"
    "pipe_ok q" "pipe_bytes q = pipe_bytes (pipes (fsys s) p) @ xs" by blast
  then show ?thesis using assms(1) by (intro exI [of _ q]) (simp add: pipewrite_def exec_simps)
qed

text \<open>The bytes 16 and 17 go through the pipe at \<open>0x80300000\<close>.\<close>

lemma pipewrite_appends_witness:
  "\<exists>q. pipewrite (\<lambda>n s. s) 0x80300000 0x80001010 2 system0 = Done 2 (set_pipe 0x80300000 q system0)
    \<and> pipe_bytes q = [16, 17]"
proof -
  have g: "get_byte a system0 = Done (ucast a) system0" if "KERNBASE \<le> a" for a
    using that by (simp add: exec_simps get_byte_def vaddr_def)
  have "copy_in (Suc (Suc 0)) 0x80001010 system0 = Done [16, 17] system0"
    by (simp add: exec_simps g)
  moreover have "pipe_ok (pipes (fsys system0) 0x80300000)" "pipe_bytes (pipes (fsys system0) 0x80300000) = []"
    by (simp_all add: pipe_ok_def pipe_bytes_def fsystem0_def)
  ultimately show ?thesis
    using pipewrite_appends [of system0 "0x80300000" "Suc (Suc 0)" "0x80001010" "[16, 17]" "\<lambda>n s. s"] by auto
qed

text \<open>
  C40. \<open>piperead\<close> on a pipe that holds bytes, or whose writing end is closed, takes the oldest bytes
  out of it, at most as many as asked for, copies them to the buffer of the caller and returns
  their number, which is 0 at the end of file.
\<close>

theorem piperead_takes:
  assumes "calm s" "pipe_ok (pipes (fsys s) p)" "pipe_bytes (pipes (fsys s) p) \<noteq> [] \<or> \<not> writeopen (pipes (fsys s) p)"
    "copy_to (take n (pipe_bytes (pipes (fsys s) p))) addr s = Done () t"
  shows "\<exists>q. piperead e p addr (int n) s = Done (int (min n (length (pipe_bytes (pipes (fsys s) p))))) (set_pipe p q t)
    \<and> pipe_ok q \<and> pipe_bytes q = drop n (pipe_bytes (pipes (fsys s) p))"
proof -
  have w: "\<not> (nread (pipes (fsys s) p) = nwrite (pipes (fsys s) p) \<and> writeopen (pipes (fsys s) p))"
    using assms(3) by (auto simp: pipe_bytes_def)
  from piperead_loop_exec [OF assms(1) refl assms(2,4), of 0 "pipe_lock p"]
  obtain q where q: "piperead_loop n 0 p addr (inside (pipe_lock p) s)
      = Done (min n (length (pipe_bytes (pipes (fsys s) p)))) (inside (pipe_lock p) (set_pipe p q t))"
    "pipe_ok q" "pipe_bytes q = drop n (pipe_bytes (pipes (fsys s) p))" by auto
  have "calm t" using copy_to_set_pipe [OF assms(4), of p "pipes (fsys s) p"] assms(1) by auto
  moreover have "wait_data (Suc k) e p (inside (pipe_lock p) s) = Done True (inside (pipe_lock p) s)" for k
    using w by (auto simp: exec_simps)
  ultimately show ?thesis using q assms(1) by (intro exI [of _ q]) (simp add: piperead_def exec_simps del: wait_data.simps)
qed

definition pipe1 :: pipe where
  "pipe1 = \<lparr>p_data = (\<lambda>i. of_nat i), nread = 0xFFFFFFFF, nwrite = 1, readopen = True, writeopen = True\<rparr>"

text \<open>The counters of this pipe have just wrapped around; it holds the bytes 255 and 0.\<close>

lemma piperead_takes_witness:
  "pipe_bytes pipe1 = [255, 0] \<and>
   (\<exists>t. piperead (\<lambda>n s. s) 0x80300000 0x80001010 1 (set_pipe 0x80300000 pipe1 system0) = Done 1 t
    \<and> mem t 0x80001010 = 255 \<and> pipe_bytes (pipes (fsys t) 0x80300000) = [0])"
proof -
  let ?s = "set_pipe 0x80300000 pipe1 system0"
  have b: "pipe_bytes pipe1 = [255, 0]" "pipe_ok pipe1"
    by (simp_all add: pipe_bytes_def pipe_ok_def pipe1_def upt_conv_Cons)
  have "copy_to [255] 0x80001010 ?s = Done () (?s\<lparr>mem := (mem system0)(0x80001010 := 255)\<rparr>)"
    by (simp add: exec_simps put_byte_def upd_mem_def vaddr_def)
  with b piperead_takes [of ?s "0x80300000" 1 "0x80001010" "?s\<lparr>mem := (mem system0)(0x80001010 := 255)\<rparr>" "\<lambda>n s. s"] show ?thesis
    by auto
qed

section \<open>The buffer cache and the log\<close>

text \<open>
  C7. \<open>iderw\<close> writes a dirty buffer to the disk: for a locked, dirty buffer of disk 1 or 2 whose block
  number is in range, the registers that \<open>idestart\<close> programs name the drive and the sector of the
  block, the handler completes the request, and when \<open>iderw\<close> returns the block is on the disk, the
  buffer is valid and clean, nothing else on the disk or in the cache has changed and no request is
  left. If the process is never resumed, the disk is as before.
\<close>

theorem iderw_writes:
  assumes "ide_ok K" "still s" "b < NBUF" "slocked (BufLock b) s" "bufs (fsys s) b = x" "b_dirty x" "dev_ok (b_dev x)" "b_blockno x < FSSIZE"
  shows "wp (iderw K b (b_dev x))
    (\<lambda>_ t. rw_frame s t \<and> bufs (fsys t) = (bufs (fsys s))(b := x\<lparr>b_valid := True, b_dirty := False, b_qnext := None\<rparr>)
       \<and> disk (fsys t) = put_disk (b_dev x) (b_blockno x) (b_data x) (disk (fsys s)))
    (\<lambda>t. disk (fsys t) = disk (fsys s)) s"
proof -
  obtain P S where c: "commanded (b_dev x) x P S" and w: "wp (iderw K b (b_dev x))
    (\<lambda>_ t. calm t \<and> me t = me s \<and> my_pid t = my_pid s \<and> fsys t = completed K b (b_dev x) P S (fsys s)) (\<lambda>t. disk (fsys t) = disk (fsys s)) s"
    using iderw_serves [of K s b "b_dev x"] assms by auto
  show ?thesis
    by (rule wp_mono [OF w]) (use completed_write [of "fsys s" b P S] completed_frame [OF assms(2)] c assms(5,6) in auto)
qed

lemma iderw_writes_witness:
  "wp (iderw machine1 1 1)
    (\<lambda>_ t. rw_frame (system3 True) t
       \<and> bufs (fsys t) = (bufs (fsystem3 True))(1 := (bufs (fsystem3 True) 1)\<lparr>b_valid := True, b_dirty := False, b_qnext := None\<rparr>)
       \<and> disk (fsys t) = put_disk 1 101 (\<lambda>_. 0) (disk (fsystem3 True)))
    (\<lambda>t. disk (fsys t) = disk (fsystem3 True)) (system3 True)"
  using iderw_writes [OF machine1_ok system3_held(1) [of True] _ system3_held(2), of "bufs (fsystem3 True) 1"]
  by (simp add: fsystem3_def cache_of_def held_block_def dev_ok_def)

text \<open>
  C6. \<open>bread\<close> returns a locked buffer with the contents of the block, from the cache or from the
  disk, and keeps the invariant of the cache: the ring of buffers is intact, no block is cached
  twice, exactly the buffers in use are locked and referenced, and clean buffers agree with the
  disk (\<open>opened\<close>). It needs a buffer that is neither held nor dirty, or the block must be cached;
  the caller does not hold the block already.
\<close>

theorem bread_reads:
  assumes "ide_ok K" "cache_inv H s" "dev_ok dev" "bno < FSSIZE"
    "\<forall>b \<in> H. \<not> (b_dev (bufs (fsys s) b) = dev \<and> b_blockno (bufs (fsys s) b) = bno)"
    "busy H s \<noteq> {..<NBUF} \<or> dirty s dev bno"
  shows "wp (bread K dev bno)
    (\<lambda>b t. opened H s b dev bno t \<and> cache_inv (insert b H) t \<and> blk (b_data (bufs (fsys t) b)) = view s dev bno)
    (\<lambda>t. disk (fsys t) = disk (fsys s)) s"
  by (rule wp_mono [OF ide.bread_wp [OF assms]]) (auto simp: opened_def)

lemma bread_reads_witness:
  "wp (bread machine1 1 100)
    (\<lambda>b t. opened {} system1 b 1 100 t \<and> cache_inv (insert b {}) t \<and> blk (b_data (bufs (fsys t) b)) = view system1 1 100)
    (\<lambda>t. disk (fsys t) = disk (fsys system1)) system1"
  by (rule bread_reads [OF machine1_ok system1_inv]) (use system1_room in \<open>simp_all add: dev_ok_def\<close>)





text \<open>
  C4. Crash recovery. If the machine stops for good while \<open>end_op\<close> waits for the disk, and is started
  again with an empty cache and the disk as it was left, then \<open>recover_from_log\<close> brings every block
  outside the log area to its contents before the call, or every such block to its contents after
  the call; and if the machine stops again during the recovery, the disk still holds one of the two.
\<close>

theorem crash_recovers:
  assumes "ide_ok K" "cache_inv {} s" "lg (fsys s) = l" "log_ok l n" "l_outstanding l = 1" "\<not> l_committing l" "log_pinned l n s"
    "header_holds (disk (fsys s) (l_dev l) (l_start l)) 0 (lh_block (l_lh l))"
  shows "wp (end_op K) (\<lambda>_ _. True) (\<lambda>u. \<forall>r. rebooted l (disk (fsys u)) r \<longrightarrow> wp (recover_from_log K)
    (\<lambda>_ t. agrees l (\<lambda>k b. blk (disk (fsys t) k b)) (\<lambda>k b. blk (disk (fsys s) k b)) \<or> agrees l (\<lambda>k b. blk (disk (fsys t) k b)) (committed l n s))
    (\<lambda>v. agrees l (recovered l (disk (fsys v))) (\<lambda>k b. blk (disk (fsys s) k b)) \<or> agrees l (recovered l (disk (fsys v))) (committed l n s)) r) s"
  using ide.crash_wp [OF assms] .

lemma crash_recovers_witness:
  "wp (end_op machine1) (\<lambda>_ _. True) (\<lambda>u. wp (recover_from_log machine1)
    (\<lambda>_ t. agrees log1 (\<lambda>k b. blk (disk (fsys t) k b)) (\<lambda>k b. blk (disk fsystem1 k b)) \<or> agrees log1 (\<lambda>k b. blk (disk (fsys t) k b)) (committed log1 1 system1))
    (\<lambda>v. agrees log1 (recovered log1 (disk (fsys v))) (\<lambda>k b. blk (disk fsystem1 k b)) \<or> agrees log1 (recovered log1 (disk (fsys v))) (committed log1 1 system1))
    (system_of (fsystem2\<lparr>lg := log1, disk := disk (fsys u)\<rparr>) console0)) system1"
proof (rule wp_mono [OF crash_recovers [OF machine1_ok system1_inv system1_log(1,2) _ _ system1_log(3)]])
  show "header_holds (disk (fsys system1) (l_dev log1) (l_start log1)) 0 (lh_block (l_lh log1))" using system1_log(4) by (simp add: log1_def)
qed (use system2_reboot in \<open>auto simp: log1_def\<close>)

section \<open>System call arguments\<close>

lemma copy_in_state: "copy_in n a s = Done xs t \<Longrightarrow> t = s"
  by (induction n arbitrary: a xs) (auto simp: exec_simps dest: get_byte_state split: outcome.splits)

lemma argint_state:
  "calm s \<Longrightarrow> argint n s = Done r t \<Longrightarrow> t = s"
  by (auto simp: argint_def fetchint_def exec_simps deref_def dest: copy_in_state split: outcome.splits if_splits)

text \<open>
  C18. A pointer that \<open>argptr\<close> accepts for a buffer of \<open>n\<close> bytes lies with the whole buffer inside the
  memory of the process, for every size of at most 2 GB and every \<open>n\<close> that a signed 32-bit argument can hold:
  the 32-bit sum the code compares does not wrap around. The check changes nothing.
\<close>

theorem argptr_in_bounds:
  assumes c: "calm s" and z: "sz (ptable s (me s)) \<le> KERNBASE" and n: "n < 2 ^ 31" and r: "argptr i n s = Done (Some p) t"
  shows "t = s \<and> 0 \<le> n \<and> p < sz (ptable s (me s)) \<and> unat p + nat n \<le> unat (sz (ptable s (me s)))"
proof -
  let ?z = "sz (ptable s (me s))"
  have t: "t = s" and b: "0 \<le> n" "p < ?z" "p + of_int n \<le> ?z"
    using r c argint_state [OF c] by (auto simp: argptr_def exec_simps deref_def not_le not_less split: outcome.splits option.splits if_splits)
  have "unat (of_int n :: 32 word) = nat n" 
  proof -
    have "(of_int n :: 32 word) = of_nat (nat n)" using b(1) by simp
    then show ?thesis using n b(1) by (simp only: unat_of_nat) (simp add: nat_less_iff)
  qed
  then have "unat (p + of_int n) = unat p + nat n" using b(1,2) z n by (simp add: unat_word_ariths word_less_nat_alt word_le_nat_alt)
  then show ?thesis using t b by (simp add: word_le_nat_alt)
qed

lemma argptr_in_bounds_witness:
  "calm system4 \<and> argptr 0 16 system4 = Done (Some 0x100) system4 \<and> unat (0x100 :: 32 word) + 16 \<le> unat (sz (ptable system4 (me system4)))"
  using argptr_in_bounds [OF system4_calm _ _ system4_arg] system4_calm system4_arg by (simp add: system4_fields)

section \<open>Departures of the driver and of mount\<close>

unbundle bit_operations_syntax

text \<open>
  C20. The polling loop of \<open>idewait\<close> ends in its first round, whatever the status register holds and
  however many rounds it may take: it returns 0 when the drive is ready and not busy, and -1
  in every other case, also for a busy drive.
\<close>

theorem idewait_polls_once:
  "idewait_loop (Suc n) K port checkerr s
     = Done (if ucast (port_in K (ports (fsys s)) port) AND (0xC0 :: 32 word) = 0x40 then 0 else - 1) s"
  by (simp add: exec_simps byte_low)



text \<open>
  C29. An interrupt of the second controller with no request on its queue makes \<open>ideintr2\<close> release
  \<open>idelock\<close>, which it does not hold, and panic.
\<close>

theorem ideintr2_spurious:
  assumes "cpu_ok s" "locks s (IdeLock 1) = free_lock" "locks s (IdeLock 2) = free_lock" "idequeue (fsys s) 2 = None"
  shows "ideintr2 K s = Fail (Panic ''release'')"
  using assms by (simp add: ideintr2_def exec_simps release_not_held_exec)

lemma ideintr2_spurious_witness: "ideintr2 machine1 system0 = Fail (Panic ''release'')"
proof -
  have "cpu_ok system0" "locks system0 l = free_lock" for l using calmD [OF system_calm] by blast+
  then show ?thesis by (intro ideintr2_spurious) (simp_all add: fsystem0_def)
qed

text \<open>
  C30. A \<open>mount\<close> that refuses its device returns the error inside the log operation it has begun:
  the log keeps one more outstanding operation and nothing else changes.
\<close>

theorem mount_error_leaks:
  assumes "calm s" "\<not> l_committing (lg (fsys s))"
    "lh_n (l_lh (lg (fsys s))) + (l_outstanding (lg (fsys s)) + 1) * MAXOPBLOCKS \<le> LOGSIZE"
    "mount_device (disk_presence (fsys s)) dev = Some e"
  shows "mount K dev path s = Done e (set_lg ((lg (fsys s))\<lparr>l_outstanding := l_outstanding (lg (fsys s)) + 1\<rparr>) s)"
  using assms by (simp add: mount_def begin_op_def log_at_def upd_log_def disk_query_def exec_simps set_lg_def)

lemma mount_error_leaks_witness:
  "mount machine1 1 [] system0 = Done (- ECANNOTMOUNTONMAIN) (set_lg ((lg fsystem0)\<lparr>l_outstanding := 1\<rparr>) system0)"
  using mount_error_leaks [of system0 1 _ machine1 "[]"] by (simp add: fsystem0_def mount_device_def)

end
